(* ===== verification/SBC_Prelude.thy ===== *)
theory SBC_Prelude
  imports Main "HOL-Library.AList" "HOL-Library.Sublist" "HOL-Library.Word"
    "HOL-Library.Code_Target_Nat"
begin

text \<open>
  Shared notions of the development: Go maps, instants and durations, 64-bit wrap-around,
  and the collections the component proofs draw on.

  A Go map is an association list without duplicate keys (\<open>gm_ok\<close>). The order of the
  list stands for the unspecified order in which Go ranges over a map, so a statement
  about every list is a statement about every order. Only the operations below touch the
  representation; their laws are the locale \<open>keyed_store\<close>.
\<close>

named_theorems go_map_simps \<open>lookups after updates and deletions of a Go map\<close>
named_theorems go_ok_intros \<open>operations that keep a Go map well formed\<close>

section \<open>Go maps\<close>

type_synonym ('k, 'v) gomap = "('k \<times> 'v) list"

abbreviation gm_get :: "('k, 'v) gomap \<Rightarrow> 'k \<Rightarrow> 'v option" where
  "gm_get \<equiv> map_of"

definition gm_set :: "'k \<Rightarrow> 'v \<Rightarrow> ('k, 'v) gomap \<Rightarrow> ('k, 'v) gomap" where
  "gm_set k v m = AList.update k v m"

definition gm_del :: "'k \<Rightarrow> ('k, 'v) gomap \<Rightarrow> ('k, 'v) gomap" where
  "gm_del k m = AList.delete k m"

definition gm_ok :: "('k, 'v) gomap \<Rightarrow> bool" where
  "gm_ok m \<longleftrightarrow> distinct (map fst m)"

text \<open>Reading a missing key of a map of slices yields the empty slice.\<close>

definition gm_list :: "('k, 'v list) gomap \<Rightarrow> 'k \<Rightarrow> 'v list" where
  "gm_list m k = (case gm_get m k of None \<Rightarrow> [] | Some xs \<Rightarrow> xs)"

lemma gm_get_set [simp, go_map_simps]: "gm_get (gm_set k v m) k' = (if k' = k then Some v else gm_get m k')"
  by (simp add: gm_set_def update_conv)

lemma gm_get_del [simp, go_map_simps]: "gm_get (gm_del k m) k' = (if k' = k then None else gm_get m k')"
  by (simp add: gm_del_def delete_conv)

lemma gm_ok_Nil [simp, go_ok_intros]: "gm_ok []"
  by (simp add: gm_ok_def)

lemma gm_ok_set [simp, intro, go_ok_intros]: "gm_ok m \<Longrightarrow> gm_ok (gm_set k v m)"
  by (simp add: gm_ok_def gm_set_def distinct_update)

lemma gm_ok_del [simp, intro, go_ok_intros]: "gm_ok m \<Longrightarrow> gm_ok (gm_del k m)"
  by (simp add: gm_ok_def gm_del_def distinct_delete)

lemma gm_get_in_set: "gm_ok m \<Longrightarrow> (k, v) \<in> set m \<longleftrightarrow> gm_get m k = Some v"
  by (simp add: gm_ok_def)

lemma gm_list_set [simp]: "gm_list (gm_set k v m) k' = (if k' = k then v else gm_list m k')"
  by (simp add: gm_list_def)

lemma gm_list_del [simp]: "gm_list (gm_del k m) k' = (if k' = k then [] else gm_list m k')"
  by (simp add: gm_list_def)

lemma gm_list_Nil [simp]: "gm_list [] k = []"
  by (simp add: gm_list_def)

text \<open>
  Deleting while ranging, as \<^verbatim>\<open>for k, v := range m { if P { delete(m, k) } }\<close> does:
  every entry is visited once and those that satisfy the condition go.
\<close>

definition gm_filter :: "('k \<Rightarrow> 'v \<Rightarrow> bool) \<Rightarrow> ('k, 'v) gomap \<Rightarrow> ('k, 'v) gomap" where
  "gm_filter P m = filter (\<lambda>(k, v). P k v) m"

lemma gm_ok_filter [simp, intro, go_ok_intros]: "gm_ok m \<Longrightarrow> gm_ok (gm_filter P m)"
  by (simp add: gm_ok_def gm_filter_def distinct_map_filter)

lemma gm_get_filter [go_map_simps]:
  "gm_ok m \<Longrightarrow> gm_get (gm_filter P m) k =
     (case gm_get m k of None \<Rightarrow> None | Some v \<Rightarrow> if P k v then Some v else None)"
proof (induction m)
  case Nil
  then show ?case by (simp add: gm_filter_def)
next
  case (Cons kv m)
  obtain k' v' where kv: "kv = (k', v')" by (cases kv)
  from Cons.prems have ok: "gm_ok m" and fresh: "k' \<notin> fst ` set m"
    by (simp_all add: gm_ok_def kv)
  from fresh have "gm_get m k' = None" by (simp add: map_of_eq_None_iff)
  with Cons.IH [OF ok] show ?case by (auto simp: gm_filter_def kv)
qed

section \<open>The map interface\<close>

text \<open>
  What the components rely on when they keep something under a key: the last value set is
  the one read back, deletion removes exactly its key, and every operation keeps the
  store well formed.
\<close>

locale keyed_store =
  fixes get :: "'m \<Rightarrow> 'k \<Rightarrow> 'v option"
    and put :: "'k \<Rightarrow> 'v \<Rightarrow> 'm \<Rightarrow> 'm"
    and del :: "'k \<Rightarrow> 'm \<Rightarrow> 'm"
    and ok :: "'m \<Rightarrow> bool"
  assumes get_put: "ok m \<Longrightarrow> get (put k v m) k' = (if k' = k then Some v else get m k')"
    and get_del: "ok m \<Longrightarrow> get (del k m) k' = (if k' = k then None else get m k')"
    and ok_put: "ok m \<Longrightarrow> ok (put k v m)"
    and ok_del: "ok m \<Longrightarrow> ok (del k m)"
begin

lemma ok_del_many: "ok m \<Longrightarrow> ok (fold del ks m)"
  by (induction ks arbitrary: m) (simp_all add: ok_del)

lemma get_del_many: "ok m \<Longrightarrow> get (fold del ks m) k = (if k \<in> set ks then None else get m k)"
  by (induction ks arbitrary: m) (auto simp: ok_del get_del)

lemma ok_put_many: "ok m \<Longrightarrow> ok (fold (\<lambda>k. put k (f k)) ks m)"
  by (induction ks arbitrary: m) (simp_all add: ok_put)

lemma get_put_many:
  "ok m \<Longrightarrow> get (fold (\<lambda>k. put k (f k)) ks m) k = (if k \<in> set ks then Some (f k) else get m k)"
  by (induction ks arbitrary: m) (auto simp: ok_put get_put)

end

interpretation gm: keyed_store gm_get gm_set gm_del gm_ok
  by unfold_locales auto

section \<open>Instants, durations and 64-bit integers\<close>

text \<open>
  An instant (\<^verbatim>\<open>time.Time\<close>) is a number of nanoseconds since the Unix epoch; the zero
  \<^verbatim>\<open>time.Time{}\<close> lies in year 1. A duration and an \<^verbatim>\<open>int\<close> are 64-bit signed numbers:
  products wrap around (\<open>wrap64\<close>), and \<^verbatim>\<open>Time.Sub\<close> saturates.
\<close>

type_synonym instant = int
type_synonym duration = int

definition zero_time :: instant where
  "zero_time = - 62135596800000000000"

definition wrap64 :: "int \<Rightarrow> int" where
  "wrap64 n = (n + 2 ^ 63) mod 2 ^ 64 - 2 ^ 63"

abbreviation max_int64 :: int where "max_int64 \<equiv> 9223372036854775807"
abbreviation min_int64 :: int where "min_int64 \<equiv> - 9223372036854775808"

definition fits64 :: "int \<Rightarrow> bool" where
  "fits64 n \<longleftrightarrow> min_int64 \<le> n \<and> n \<le> max_int64"

definition time_sub :: "instant \<Rightarrow> instant \<Rightarrow> duration" where
  "time_sub t u = max min_int64 (min max_int64 (t - u))"

definition seconds :: "int \<Rightarrow> duration" where
  "seconds n = wrap64 (n * 1000000000)"

lemma wrap64_id: "fits64 n \<Longrightarrow> wrap64 n = n"
  by (simp add: fits64_def wrap64_def)

lemma fits64_wrap64: "fits64 (wrap64 n)"
proof -
  have "0 \<le> (n + 2 ^ 63) mod 2 ^ 64" and "(n + 2 ^ 63) mod 2 ^ 64 < (2 ^ 64 :: int)" by simp_all
  then show ?thesis by (simp add: wrap64_def fits64_def)
qed

lemma seconds_small: "\<bar>n\<bar> \<le> 9223372036 \<Longrightarrow> seconds n = n * 1000000000"
  unfolding seconds_def by (rule wrap64_id) (simp add: fits64_def abs_le_iff)

lemma time_sub_ge: "d \<le> max_int64 \<Longrightarrow> d \<le> time_sub t u \<longleftrightarrow> d \<le> t - u \<or> d \<le> min_int64"
  by (auto simp: time_sub_def)

lemma time_sub_ge_pos [simp]: "0 < d \<Longrightarrow> d \<le> max_int64 \<Longrightarrow> d \<le> time_sub t u \<longleftrightarrow> u + d \<le> t"
  by (auto simp: time_sub_ge)

section \<open>Lists\<close>

lemma find_None_iff_all: "find P xs = None \<longleftrightarrow> (\<forall>x \<in> set xs. \<not> P x)"
  by (auto simp: find_None_iff)

lemma find_append: "find P (xs @ ys) = (case find P xs of None \<Rightarrow> find P ys | Some x \<Rightarrow> Some x)"
  by (induction xs) auto

lemma find_SomeD: "find P xs = Some x \<Longrightarrow> x \<in> set xs \<and> P x"
  by (auto simp: find_Some_iff)

text \<open>Removing the first element that satisfies a predicate, as a search loop with an
  early return does.\<close>

fun remove_first :: "('a \<Rightarrow> bool) \<Rightarrow> 'a list \<Rightarrow> 'a list" where
  "remove_first P [] = []"
| "remove_first P (x # xs) = (if P x then xs else x # remove_first P xs)"

lemma remove_first_none: "\<forall>x \<in> set xs. \<not> P x \<Longrightarrow> remove_first P xs = xs"
  by (induction xs) auto

lemma remove_first_subset: "set (remove_first P xs) \<subseteq> set xs"
  by (induction xs) auto

lemma remove_first_unique:
  "distinct (map f xs) \<Longrightarrow> remove_first (\<lambda>x. f x = a) xs = filter (\<lambda>x. f x \<noteq> a) xs"
proof (induction xs)
  case Nil
  then show ?case by simp
next
  case (Cons x xs)
  then have "f x = a \<Longrightarrow> filter (\<lambda>y. f y \<noteq> a) xs = xs"
    by (intro filter_True) (auto simp: image_iff)
  with Cons show ?case by auto
qed

lemma distinct_map_filterI: "distinct (map f xs) \<Longrightarrow> distinct (map f (filter P xs))"
  by (rule distinct_map_filter)

lemma is_SomeP: "(case x of None \<Rightarrow> False | Some y \<Rightarrow> P y) \<Longrightarrow> \<exists>y. x = Some y \<and> P y"
  by (cases x) simp_all

lemma is_SomeD: "(case x of None \<Rightarrow> False | Some y \<Rightarrow> True) \<Longrightarrow> \<exists>y. x = Some y"
  by (cases x) simp_all

lemma is_NoneD: "(case x of None \<Rightarrow> True | Some y \<Rightarrow> False) \<Longrightarrow> x = None"
  by (cases x) simp_all

end
