(* ===== verification/Go_Strings.thy ===== *)
theory Go_Strings
  imports SBC_Prelude
begin

text \<open>
  The functions of Go's \<^verbatim>\<open>strings\<close> and \<^verbatim>\<open>strconv\<close> packages the program uses.
  A Go string is a sequence of bytes, here a \<open>string\<close> (\<open>char\<close> is a byte). White space is
  Unicode's, recognised in its UTF-8 encoding. Case conversion is exact wherever its result
  is compared with an ASCII string, which is all the program does with it: the few
  characters outside ASCII that Go maps to an ASCII letter are mapped, other bytes stay.
  The lemmas give each function's specification (what a split joins back to, what trimming
  leaves alone, that \<open>atoi\<close> inverts \<open>itoa\<close>).
\<close>

section \<open>Prefixes, suffixes, searching\<close>

definition has_prefix :: "string \<Rightarrow> string \<Rightarrow> bool" where
  "has_prefix s p \<longleftrightarrow> length p \<le> length s \<and> take (length p) s = p"

definition has_suffix :: "string \<Rightarrow> string \<Rightarrow> bool" where
  "has_suffix s p \<longleftrightarrow> length p \<le> length s \<and> drop (length s - length p) s = p"

definition trim_prefix :: "string \<Rightarrow> string \<Rightarrow> string" where
  "trim_prefix s p = (if has_prefix s p then drop (length p) s else s)"

fun index_byte :: "string \<Rightarrow> char \<Rightarrow> nat option" where
  "index_byte [] c = None"
| "index_byte (x # xs) c = (if x = c then Some 0 else map_option Suc (index_byte xs c))"

fun last_index_byte :: "string \<Rightarrow> char \<Rightarrow> nat option" where
  "last_index_byte [] c = None"
| "last_index_byte (x # xs) c =
     (case last_index_byte xs c of
        Some i \<Rightarrow> Some (Suc i)
      | None \<Rightarrow> if x = c then Some 0 else None)"

fun contains_str :: "string \<Rightarrow> string \<Rightarrow> bool" where
  "contains_str [] p \<longleftrightarrow> p = []"
| "contains_str (x # xs) p \<longleftrightarrow> has_prefix (x # xs) p \<or> contains_str xs p"

definition contains_any :: "string \<Rightarrow> string \<Rightarrow> bool" where
  "contains_any s cs \<longleftrightarrow> list_ex (\<lambda>c. c \<in> set cs) s"

lemma has_prefix_iff: "has_prefix s p \<longleftrightarrow> (\<exists>t. s = p @ t)"
proof
  assume "has_prefix s p"
  then have "s = p @ drop (length p) s"
    unfolding has_prefix_def by (metis append_take_drop_id)
  then show "\<exists>t. s = p @ t" ..
qed (auto simp: has_prefix_def)

lemma has_suffix_iff: "has_suffix s p \<longleftrightarrow> (\<exists>t. s = t @ p)"
proof
  assume "has_suffix s p"
  then have "s = take (length s - length p) s @ p"
    unfolding has_suffix_def by (metis append_take_drop_id)
  then show "\<exists>t. s = t @ p" ..
qed (auto simp: has_suffix_def)

lemma has_suffix_self [simp]: "has_suffix s s"
  by (simp add: has_suffix_def)

lemma has_suffix_append [simp]: "has_suffix (t @ s) s"
  by (auto simp: has_suffix_iff)

lemma trim_prefix_append [simp]: "trim_prefix (p @ s) p = s"
  by (simp add: trim_prefix_def has_prefix_def)

lemma index_byte_None [simp]: "index_byte s c = None \<longleftrightarrow> c \<notin> set s"
  by (induction s) auto

lemma index_byte_absent [simp]: "c \<notin> set s \<Longrightarrow> index_byte s c = None"
  by (rule index_byte_None [THEN iffD2])

lemma index_byte_SomeD:
  "index_byte s c = Some i \<Longrightarrow> i < length s \<and> s ! i = c \<and> c \<notin> set (take i s)"
  by (induction s arbitrary: i) (auto split: if_splits)

lemma index_byte_split: "index_byte s c = Some i \<Longrightarrow> \<exists>a b. s = a @ c # b \<and> length a = i \<and> c \<notin> set a"
proof -
  assume "index_byte s c = Some i"
  from index_byte_SomeD [OF this]
  have "s = take i s @ c # drop (Suc i) s \<and> length (take i s) = i \<and> c \<notin> set (take i s)"
    by (auto simp: id_take_nth_drop)
  then show ?thesis by blast
qed

lemma index_byte_append:
  "c \<notin> set a \<Longrightarrow> index_byte (a @ c # b) c = Some (length a)"
  by (induction a) auto

lemma last_index_byte_None [simp]: "last_index_byte s c = None \<longleftrightarrow> c \<notin> set s"
  by (induction s) (auto split: option.splits)

lemma last_index_byte_absent [simp]: "c \<notin> set s \<Longrightarrow> last_index_byte s c = None"
  by (rule last_index_byte_None [THEN iffD2])

lemma last_index_byte_SomeD:
  "last_index_byte s c = Some i \<Longrightarrow> i < length s \<and> s ! i = c \<and> c \<notin> set (drop (Suc i) s)"
proof (induction s arbitrary: i)
  case Nil
  then show ?case by simp
next
  case (Cons x xs)
  show ?case
  proof (cases "last_index_byte xs c")
    case None
    with Cons.prems show ?thesis by (auto split: if_splits)
  next
    case (Some j)
    with Cons.prems Cons.IH [OF Some] show ?thesis by auto
  qed
qed

lemma last_index_byte_append:
  "c \<notin> set b \<Longrightarrow> last_index_byte (a @ c # b) c = Some (length a)"
  by (induction a) auto

lemma contains_str_iff: "contains_str s p \<longleftrightarrow> (\<exists>a b. s = a @ p @ b)"
proof (induction s)
  case Nil
  then show ?case by simp
next
  case (Cons x xs)
  show ?case
  proof
    assume "contains_str (x # xs) p"
    then consider "\<exists>b. x # xs = p @ b" | "\<exists>a b. xs = a @ p @ b"
      using Cons.IH by (auto simp: has_prefix_iff)
    then show "\<exists>a b. x # xs = a @ p @ b"
    proof cases
      case 1
      then show ?thesis by (metis append_Nil)
    next
      case 2
      then show ?thesis by (metis append_Cons)
    qed
  next
    assume "\<exists>a b. x # xs = a @ p @ b"
    then obtain a b where ab: "x # xs = a @ p @ b" by blast
    show "contains_str (x # xs) p"
    proof (cases a)
      case Nil
      with ab have "has_prefix (x # xs) p" by (auto simp: has_prefix_iff)
      then show ?thesis by simp
    next
      case (Cons y ys)
      with ab have "xs = ys @ p @ b" by simp
      with Cons.IH show ?thesis by auto
    qed
  qed
qed

lemma contains_any_iff: "contains_any s cs \<longleftrightarrow> (\<exists>c \<in> set s. c \<in> set cs)"
  by (auto simp: contains_any_def list_ex_iff)

section \<open>Splitting and joining\<close>

fun split_on :: "char \<Rightarrow> string \<Rightarrow> string list" where
  "split_on c [] = [[]]"
| "split_on c (x # xs) =
     (if x = c then [] # split_on c xs
      else (case split_on c xs of [] \<Rightarrow> [[x]] | y # ys \<Rightarrow> (x # y) # ys))"

fun join_with :: "string \<Rightarrow> string list \<Rightarrow> string" where
  "join_with sep [] = []"
| "join_with sep [x] = x"
| "join_with sep (x # y # ys) = x @ sep @ join_with sep (y # ys)"

text \<open>\<^verbatim>\<open>strings.Cut\<close> at a one-byte separator: before, after, found.\<close>

definition cut_on :: "char \<Rightarrow> string \<Rightarrow> string \<times> string \<times> bool" where
  "cut_on c s = (case index_byte s c of
     None \<Rightarrow> (s, [], False)
   | Some i \<Rightarrow> (take i s, drop (Suc i) s, True))"

text \<open>\<^verbatim>\<open>strings.SplitN(s, sep, 2)\<close>.\<close>

definition split2_on :: "char \<Rightarrow> string \<Rightarrow> string list" where
  "split2_on c s = (case index_byte s c of
     None \<Rightarrow> [s]
   | Some i \<Rightarrow> [take i s, drop (Suc i) s])"

lemma split_on_not_Nil [simp]: "split_on c s \<noteq> []"
  by (induction s) (auto split: list.splits)

lemma join_with_Cons: "xs \<noteq> [] \<Longrightarrow> join_with sep (x # xs) = x @ sep @ join_with sep xs"
  by (cases xs) auto

lemma join_split: "join_with [c] (split_on c s) = s"
proof (induction s)
  case Nil
  then show ?case by simp
next
  case (Cons x xs)
  obtain y ys where sp: "split_on c xs = y # ys"
    by (cases "split_on c xs") auto
  with Cons.IH have j: "join_with [c] (y # ys) = xs" by simp
  show ?case
  proof (cases "x = c")
    case True
    with sp j show ?thesis by simp
  next
    case False
    with sp j show ?thesis by (cases ys) auto
  qed
qed

lemma set_join_with: "set (join_with sep xs) \<subseteq> set sep \<union> \<Union> (set ` set xs)"
  by (induction sep xs rule: join_with.induct) auto

lemma join_with_snoc_last: "y \<noteq> [] \<Longrightarrow> last (join_with sep (xs @ [y])) = last y"
  and join_with_snoc_not_Nil: "y \<noteq> [] \<Longrightarrow> join_with sep (xs @ [y]) \<noteq> []"
  by (induction xs) (auto simp: join_with_Cons)

lemma split_on_no_sep: "c \<notin> set s \<Longrightarrow> split_on c s = [s]"
  by (induction s) auto

lemma split_on_append: "c \<notin> set a \<Longrightarrow> split_on c (a @ c # b) = a # split_on c b"
  by (induction a) auto

lemma split_on_pieces: "x \<in> set (split_on c s) \<Longrightarrow> c \<notin> set x"
proof (induction s arbitrary: x)
  case Nil
  then show ?case by simp
next
  case (Cons y ys)
  then show ?case by (force split: if_splits list.splits)
qed

lemma cut_on_append [simp]: "c \<notin> set a \<Longrightarrow> cut_on c (a @ c # b) = (a, b, True)"
  by (simp add: cut_on_def index_byte_append)

lemma cut_on_absent [simp]: "c \<notin> set s \<Longrightarrow> cut_on c s = (s, [], False)"
  by (simp add: cut_on_def)

lemma split2_on_append: "c \<notin> set a \<Longrightarrow> split2_on c (a @ c # b) = [a, b]"
  by (simp add: split2_on_def index_byte_append)

lemma split2_on_absent: "c \<notin> set s \<Longrightarrow> split2_on c s = [s]"
  by (simp add: split2_on_def)

lemma split2_on_not_Nil [simp]: "split2_on c s \<noteq> []"
  by (simp add: split2_on_def split: option.splits)

section \<open>Trimming\<close>

definition trim_set :: "char set \<Rightarrow> string \<Rightarrow> string" where
  "trim_set A s = rev (dropWhile (\<lambda>c. c \<in> A) (rev (dropWhile (\<lambda>c. c \<in> A) s)))"

definition ascii_space :: "char \<Rightarrow> bool" where
  "ascii_space c \<longleftrightarrow> c = CHR '' '' \<or> c = CHR 0x09 \<or> c = CHR 0x0A \<or> c = CHR 0x0B
     \<or> c = CHR 0x0C \<or> c = CHR 0x0D"

definition ascii :: "char \<Rightarrow> bool" where
  "ascii c \<longleftrightarrow> of_char c < (128 :: nat)"

text \<open>The UTF-8 encodings of the white space characters beyond ASCII: U+0085, U+00A0,
  U+1680, U+2000 to U+200A, U+2028, U+2029, U+202F, U+205F and U+3000.\<close>

definition wide_spaces :: "string list" where
  "wide_spaces =
     [[CHR 0xC2, CHR 0x85], [CHR 0xC2, CHR 0xA0], [CHR 0xE1, CHR 0x9A, CHR 0x80],
      [CHR 0xE2, CHR 0x80, CHR 0x80], [CHR 0xE2, CHR 0x80, CHR 0x81],
      [CHR 0xE2, CHR 0x80, CHR 0x82], [CHR 0xE2, CHR 0x80, CHR 0x83],
      [CHR 0xE2, CHR 0x80, CHR 0x84], [CHR 0xE2, CHR 0x80, CHR 0x85],
      [CHR 0xE2, CHR 0x80, CHR 0x86], [CHR 0xE2, CHR 0x80, CHR 0x87],
      [CHR 0xE2, CHR 0x80, CHR 0x88], [CHR 0xE2, CHR 0x80, CHR 0x89],
      [CHR 0xE2, CHR 0x80, CHR 0x8A], [CHR 0xE2, CHR 0x80, CHR 0xA8],
      [CHR 0xE2, CHR 0x80, CHR 0xA9], [CHR 0xE2, CHR 0x80, CHR 0xAF],
      [CHR 0xE2, CHR 0x81, CHR 0x9F], [CHR 0xE3, CHR 0x80, CHR 0x80]]"

text \<open>The length in bytes of the white space character a string starts with, 0 if it
  starts with none. For trimming on the right the string and the encodings are reversed.\<close>

definition space_len :: "string list \<Rightarrow> string \<Rightarrow> nat" where
  "space_len encs s = (case s of
     [] \<Rightarrow> 0
   | c # _ \<Rightarrow> if ascii_space c then 1 else if ascii c then 0
              else (case find (has_prefix s) encs of None \<Rightarrow> 0 | Some e \<Rightarrow> length e))"

fun drop_spaces :: "string list \<Rightarrow> nat \<Rightarrow> string \<Rightarrow> string" where
  "drop_spaces encs n [] = []"
| "drop_spaces encs (Suc n) (c # cs) = drop_spaces encs n cs"
| "drop_spaces encs 0 (c # cs) =
     (case space_len encs (c # cs) of 0 \<Rightarrow> c # cs | Suc k \<Rightarrow> drop_spaces encs k cs)"

definition trim_space :: "string \<Rightarrow> string" where
  "trim_space s =
     rev (drop_spaces (map rev wide_spaces) 0 (rev (drop_spaces wide_spaces 0 s)))"

lemma drop_spaces_suffix: "\<exists>a. s = a @ drop_spaces encs n s"
proof (induction encs n s rule: drop_spaces.induct)
  case (1 encs n)
  then show ?case by simp
next
  case (2 encs n c cs)
  then obtain a where "cs = a @ drop_spaces encs n cs" by blast
  then have "c # cs = (c # a) @ drop_spaces encs (Suc n) (c # cs)" by simp
  then show ?case by blast
next
  case (3 encs c cs)
  show ?case
  proof (cases "space_len encs (c # cs)")
    case 0
    then show ?thesis by simp
  next
    case (Suc k)
    with 3 obtain a where "cs = a @ drop_spaces encs k cs" by blast
    with Suc have "c # cs = (c # a) @ drop_spaces encs 0 (c # cs)" by simp
    then show ?thesis by blast
  qed
qed

lemma trim_space_infix: "\<exists>a b. s = a @ trim_space s @ b"
proof -
  define u where "u = drop_spaces wide_spaces 0 s"
  obtain a where a: "s = a @ u"
    unfolding u_def using drop_spaces_suffix by blast
  obtain b where "rev u = b @ drop_spaces (map rev wide_spaces) 0 (rev u)"
    using drop_spaces_suffix by blast
  then have "u = trim_space s @ rev b"
    unfolding trim_space_def u_def [symmetric] by (metis rev_append rev_rev_ident)
  with a show ?thesis by blast
qed

lemma set_trim_space: "set (trim_space s) \<subseteq> set s"
proof -
  obtain a b where "s = a @ trim_space s @ b" using trim_space_infix by blast
  then show ?thesis by (metis Un_upper1 Un_upper2 set_append subset_trans)
qed

definition printable :: "char \<Rightarrow> bool" where
  "printable c \<longleftrightarrow> ascii c \<and> \<not> ascii_space c"

lemma space_len_printable [simp]: "printable c \<Longrightarrow> space_len encs (c # cs) = 0"
  by (simp add: space_len_def printable_def)

lemma trim_space_Nil [simp]: "trim_space [] = []"
  by (simp add: trim_space_def)

lemma trim_space_id:
  assumes "s \<noteq> []" "printable (hd s)" "printable (last s)"
  shows "trim_space s = s"
proof -
  from assms have l: "drop_spaces wide_spaces 0 s = s"
    by (cases s) simp_all
  have "drop_spaces (map rev wide_spaces) 0 (rev s) = rev s"
    using assms by (cases s rule: rev_cases) simp_all
  with l show ?thesis by (simp add: trim_space_def)
qed

text \<open>Trimming cuts off white space only, and a second trim changes nothing.\<close>

lemma space_len_cuts:
  assumes "list_all (list_all (\<lambda>c. \<not> ascii c)) encs"
  shows "list_all (\<lambda>c. \<not> printable c) (take (space_len encs s) s)"
proof (cases s)
  case Nil
  then show ?thesis by simp
next
  case (Cons c cs)
  show ?thesis
  proof (cases "find (has_prefix s) encs")
    case None
    with Cons show ?thesis by (simp add: space_len_def printable_def)
  next
    case (Some e)
    then have "e \<in> set encs" "has_prefix s e" by (auto dest: find_SomeD)
    with assms have "list_all (\<lambda>c. \<not> printable c) (take (length e) s)"
      by (auto simp: has_prefix_def list_all_iff printable_def)
    with Some Cons show ?thesis by (simp add: space_len_def printable_def)
  qed
qed

lemma drop_spaces_cuts:
  "list_all (list_all (\<lambda>c. \<not> ascii c)) encs \<Longrightarrow> list_all (\<lambda>c. \<not> printable c) (take n s) \<Longrightarrow>
    \<exists>a. s = a @ drop_spaces encs n s \<and> list_all (\<lambda>c. \<not> printable c) a"
proof (induction encs n s rule: drop_spaces.induct)
  case (1 encs n)
  then show ?case by simp
next
  case (2 encs n c cs)
  then obtain a where "cs = a @ drop_spaces encs n cs" "list_all (\<lambda>c. \<not> printable c) a" by auto
  with "2.prems" have "c # cs = (c # a) @ drop_spaces encs (Suc n) (c # cs)
      \<and> list_all (\<lambda>c. \<not> printable c) (c # a)" by simp
  then show ?case by blast
next
  case (3 encs c cs)
  show ?case
  proof (cases "space_len encs (c # cs)")
    case 0
    then show ?thesis by simp
  next
    case (Suc k)
    have "list_all (\<lambda>c. \<not> printable c) (take (Suc k) (c # cs))"
      using space_len_cuts [OF "3.prems"(1), of "c # cs"] by (simp only: Suc)
    then have "\<not> printable c" "list_all (\<lambda>c. \<not> printable c) (take k cs)" by simp_all
    with 3 Suc obtain a where "cs = a @ drop_spaces encs k cs" "list_all (\<lambda>c. \<not> printable c) a"
      by auto
    with Suc \<open>\<not> printable c\<close> have "c # cs = (c # a) @ drop_spaces encs 0 (c # cs)
        \<and> list_all (\<lambda>c. \<not> printable c) (c # a)" by simp
    then show ?thesis by blast
  qed
qed

lemma wide_spaces_not_ascii:
  "list_all (list_all (\<lambda>c. \<not> ascii c)) wide_spaces"
  "list_all (list_all (\<lambda>c. \<not> ascii c)) (map rev wide_spaces)"
  by (simp_all add: wide_spaces_def ascii_def)

lemma trim_space_cuts:
  "\<exists>a b. s = a @ trim_space s @ b \<and> (\<forall>c \<in> set a \<union> set b. \<not> printable c)"
proof -
  define u where "u = drop_spaces wide_spaces 0 s"
  obtain a where a: "s = a @ u" "list_all (\<lambda>c. \<not> printable c) a"
    using drop_spaces_cuts [OF wide_spaces_not_ascii(1), of 0 s] unfolding u_def by auto
  obtain b where b: "rev u = b @ drop_spaces (map rev wide_spaces) 0 (rev u)"
      "list_all (\<lambda>c. \<not> printable c) b"
    using drop_spaces_cuts [OF wide_spaces_not_ascii(2), of 0 "rev u"] by auto
  from b(1) have "u = trim_space s @ rev b"
    unfolding trim_space_def u_def [symmetric] by (metis rev_append rev_rev_ident)
  with a b(2) have "s = a @ trim_space s @ rev b
      \<and> (\<forall>c \<in> set a \<union> set (rev b). \<not> printable c)"
    by (auto simp: list_all_iff)
  then show ?thesis by blast
qed

lemma space_len_drop_spaces: "space_len encs (drop_spaces encs n s) = 0"
  by (induction encs n s rule: drop_spaces.induct) (auto simp: space_len_def split: nat.splits)

lemma space_len_prefix:
  assumes "[] \<notin> set encs" "space_len encs (a @ b) = 0"
  shows "space_len encs a = 0"
proof (cases a)
  case Nil
  then show ?thesis by (simp add: space_len_def)
next
  case (Cons c cs)
  have "find (has_prefix a) encs = None" if "find (has_prefix (a @ b)) encs = None"
    using that by (auto simp: find_None_iff has_prefix_iff)
  moreover have "length e \<noteq> 0" if "find (has_prefix (a @ b)) encs = Some e" for e
    using assms(1) find_SomeD [OF that] by auto
  ultimately show ?thesis
    using assms(2) Cons by (auto simp: space_len_def split: if_splits option.splits)
qed

lemma wide_spaces_not_Nil: "[] \<notin> set wide_spaces"
  by (simp add: wide_spaces_def)

lemma drop_spaces_none: "space_len encs s = 0 \<Longrightarrow> drop_spaces encs 0 s = s"
  by (cases s) simp_all

lemma trim_space_idem [simp]: "trim_space (trim_space s) = trim_space s"
proof -
  define u where "u = drop_spaces wide_spaces 0 s"
  define v where "v = drop_spaces (map rev wide_spaces) 0 (rev u)"
  have t: "trim_space s = rev v" by (simp add: trim_space_def u_def v_def)
  have "space_len wide_spaces u = 0" by (simp add: u_def space_len_drop_spaces)
  moreover obtain b where "rev u = b @ v" unfolding v_def using drop_spaces_suffix by blast
  then have "u = rev v @ rev b" by (metis rev_append rev_rev_ident)
  ultimately have "space_len wide_spaces (rev v) = 0"
    using space_len_prefix [OF wide_spaces_not_Nil] by metis
  moreover have "space_len (map rev wide_spaces) v = 0" by (simp add: v_def space_len_drop_spaces)
  ultimately have "trim_space (rev v) = rev v" by (simp add: trim_space_def drop_spaces_none)
  then show ?thesis by (simp only: t)
qed

lemma ascii_trimmed_ends:
  assumes "list_all ascii s" "trim_space s \<noteq> []"
  shows "printable (hd (trim_space s))" "printable (last (trim_space s))"
proof -
  let ?t = "trim_space s"
  from assms(1) set_trim_space [of s] have "\<forall>c \<in> set ?t. ascii c" by (auto simp: list_all_iff)
  with assms(2) have asc: "ascii (hd ?t)" "ascii (last ?t)" by simp_all
  have "space_len (map rev wide_spaces) (rev ?t) = 0"
    by (simp add: trim_space_def space_len_drop_spaces)
  with asc(2) assms(2) show "printable (last ?t)"
    by (cases ?t rule: rev_cases) (auto simp: space_len_def printable_def split: if_splits)
  define u where "u = drop_spaces wide_spaces 0 s"
  obtain b where "rev u = b @ rev ?t"
    using drop_spaces_suffix [of "rev u" "map rev wide_spaces" 0]
    by (auto simp: trim_space_def u_def)
  then have "u = ?t @ rev b" by (metis rev_append rev_rev_ident)
  then have "space_len wide_spaces ?t = 0"
    using space_len_drop_spaces [of wide_spaces 0 s] space_len_prefix [OF wide_spaces_not_Nil]
    unfolding u_def by metis
  with asc(1) assms(2) show "printable (hd ?t)"
    by (cases ?t) (auto simp: space_len_def printable_def split: if_splits)
qed

lemma trim_set_id: "set s \<inter> A = {} \<Longrightarrow> trim_set A s = s"
proof -
  assume d: "set s \<inter> A = {}"
  then have "dropWhile (\<lambda>c. c \<in> A) s = s" by (cases s) auto
  moreover from d have "dropWhile (\<lambda>c. c \<in> A) (rev s) = rev s"
    by (cases s rule: rev_cases) auto
  ultimately show ?thesis by (simp add: trim_set_def)
qed

section \<open>Letter case\<close>

definition lower_byte :: "char \<Rightarrow> char" where
  "lower_byte c = (let n = of_char c in if 65 \<le> n \<and> n \<le> (90 :: nat) then char_of (n + 32) else c)"

definition upper_byte :: "char \<Rightarrow> char" where
  "upper_byte c = (let n = of_char c in if 97 \<le> n \<and> n \<le> (122 :: nat) then char_of (n - 32) else c)"

text \<open>Map a string byte by byte, except for the listed encodings, which become one byte.\<close>

fun map_runes :: "(string \<times> char) list \<Rightarrow> (char \<Rightarrow> char) \<Rightarrow> nat \<Rightarrow> string \<Rightarrow> string" where
  "map_runes tab f n [] = []"
| "map_runes tab f (Suc n) (c # cs) = map_runes tab f n cs"
| "map_runes tab f 0 (c # cs) =
     (if ascii c then f c # map_runes tab f 0 cs
      else (case find (\<lambda>(e, r). has_prefix (c # cs) e) tab of
              None \<Rightarrow> f c # map_runes tab f 0 cs
            | Some (e, r) \<Rightarrow> r # map_runes tab f (length e - 1) cs))"

text \<open>\<open>to_lower\<close>: the Kelvin sign and the dotted capital I map to ASCII letters.
  \<open>to_upper\<close>: the long s and the dotless i do. \<open>equal_fold\<close>: the Kelvin sign folds with k,
  the long s with s.\<close>

definition to_lower :: "string \<Rightarrow> string" where
  "to_lower s = map_runes
     [([CHR 0xE2, CHR 0x84, CHR 0xAA], CHR ''k''), ([CHR 0xC4, CHR 0xB0], CHR ''i'')] lower_byte 0 s"

definition to_upper :: "string \<Rightarrow> string" where
  "to_upper s = map_runes
     [([CHR 0xC5, CHR 0xBF], CHR ''S''), ([CHR 0xC4, CHR 0xB1], CHR ''I'')] upper_byte 0 s"

definition fold_case :: "string \<Rightarrow> string" where
  "fold_case s = map_runes
     [([CHR 0xE2, CHR 0x84, CHR 0xAA], CHR ''k''), ([CHR 0xC5, CHR 0xBF], CHR ''s'')] lower_byte 0 s"

definition equal_fold :: "string \<Rightarrow> string \<Rightarrow> bool" where
  "equal_fold s t \<longleftrightarrow> fold_case s = fold_case t"

lemma map_runes_ascii: "list_all ascii s \<Longrightarrow> map_runes tab f 0 s = map f s"
  by (induction s) auto

lemma to_lower_ascii: "list_all ascii s \<Longrightarrow> to_lower s = map lower_byte s"
  by (simp add: to_lower_def map_runes_ascii)

lemma to_upper_ascii: "list_all ascii s \<Longrightarrow> to_upper s = map upper_byte s"
  by (simp add: to_upper_def map_runes_ascii)

lemma fold_case_ascii: "list_all ascii s \<Longrightarrow> fold_case s = map lower_byte s"
  by (simp add: fold_case_def map_runes_ascii)

lemma equal_fold_refl [simp]: "equal_fold s s"
  by (simp add: equal_fold_def)

lemma equal_fold_ascii:
  "list_all ascii s \<Longrightarrow> list_all ascii t \<Longrightarrow> equal_fold s t \<longleftrightarrow> to_lower s = to_lower t"
  by (simp add: equal_fold_def fold_case_ascii to_lower_ascii)

section \<open>Ranging over a string\<close>

text \<open>
  \<^verbatim>\<open>for _, r := range s\<close> decodes UTF-8 and yields U+FFFD for a byte that starts no
  character; writing the characters back gives \<open>range_text s\<close>. \<open>rune_len\<close> is the length of
  the character a string starts with, 0 where it starts with none.
\<close>

definition cont_byte :: "nat \<Rightarrow> nat \<Rightarrow> string \<Rightarrow> nat \<Rightarrow> bool" where
  "cont_byte lo hi s i \<longleftrightarrow> i < length s \<and> lo \<le> of_char (s ! i) \<and> of_char (s ! i) \<le> hi"

definition rune_len :: "string \<Rightarrow> nat" where
  "rune_len s =
     (let b = of_char (hd s) :: nat; mid = cont_byte 128 191 s in
      if b < 128 then 1
      else if 194 \<le> b \<and> b \<le> 223 then (if mid 1 then 2 else 0)
      else if 224 \<le> b \<and> b \<le> 239 then
        (if cont_byte (if b = 224 then 160 else 128) (if b = 237 then 159 else 191) s 1 \<and> mid 2
         then 3 else 0)
      else if 240 \<le> b \<and> b \<le> 244 then
        (if cont_byte (if b = 240 then 144 else 128) (if b = 244 then 143 else 191) s 1 \<and> mid 2 \<and> mid 3
         then 4 else 0)
      else 0)"

fun range_from :: "nat \<Rightarrow> string \<Rightarrow> string" where
  "range_from n [] = []"
| "range_from (Suc n) (c # cs) = c # range_from n cs"
| "range_from 0 (c # cs) =
     (case rune_len (c # cs) of
        0 \<Rightarrow> [CHR 0xEF, CHR 0xBF, CHR 0xBD] @ range_from 0 cs
      | Suc k \<Rightarrow> c # range_from k cs)"

definition range_text :: "string \<Rightarrow> string" where
  "range_text s = range_from 0 s"

lemma range_text_ascii: "list_all ascii s \<Longrightarrow> range_text s = s"
  unfolding range_text_def
  by (induction s) (auto simp: rune_len_def ascii_def)

end
