(* ===== verification/Go_Strconv.thy ===== *)
theory Go_Strconv
  imports Go_Strings
begin

text \<open>
  Decimal and hexadecimal text of numbers: Go's \<^verbatim>\<open>strconv.Itoa\<close>,
  \<^verbatim>\<open>strconv.Atoi\<close> and the verbs \<^verbatim>\<open>%d\<close> and \<^verbatim>\<open>%x\<close> of
  \<^verbatim>\<open>fmt.Sprintf\<close>. \<open>atoi\<close> returns what Go returns: the value and whether the error is
  nil; out of range the value is the nearest 64-bit number, after a syntax error it is 0.
  The main result is the round trip \<open>atoi_itoa\<close>.
\<close>

section \<open>Digits\<close>

definition digit_char :: "nat \<Rightarrow> char" where
  "digit_char d = ''0123456789'' ! d"

definition digit_val :: "char \<Rightarrow> nat option" where
  "digit_val c = (let n = of_char c in if 48 \<le> n \<and> n \<le> (57 :: nat) then Some (n - 48) else None)"

lemma below_10: "d < (10 :: nat) \<Longrightarrow> d \<in> {0, 1, 2, 3, 4, 5, 6, 7, 8, 9}"
  by auto

lemma digit_val_char: "d < 10 \<Longrightarrow> digit_val (digit_char d) = Some d"
  by (drule below_10) (auto simp: digit_val_def digit_char_def)

lemma digit_char_printable: "d < 10 \<Longrightarrow> printable (digit_char d)"
  by (drule below_10) (auto simp: digit_char_def printable_def ascii_def ascii_space_def)

section \<open>Printing\<close>

fun nat_text :: "nat \<Rightarrow> string" where
  "nat_text n = (if n < 10 then [digit_char n] else nat_text (n div 10) @ [digit_char (n mod 10)])"

declare nat_text.simps [simp del]

definition itoa :: "int \<Rightarrow> string" where
  "itoa n = (if n < 0 then CHR ''-'' # nat_text (nat (- n)) else nat_text (nat n))"

text \<open>The verb \<^verbatim>\<open>%x\<close> on a byte sequence: two lower-case digits a byte.\<close>

definition hex_digit :: "nat \<Rightarrow> char" where
  "hex_digit d = ''0123456789abcdef'' ! d"

definition hex_byte :: "nat \<Rightarrow> string" where
  "hex_byte b = [hex_digit (b div 16), hex_digit (b mod 16)]"

definition hex_text :: "nat list \<Rightarrow> string" where
  "hex_text bs = concat (map hex_byte bs)"

lemma nat_text_not_Nil [simp]: "nat_text n \<noteq> []"
  by (subst nat_text.simps) simp

lemma itoa_not_Nil [simp]: "itoa n \<noteq> []"
  by (simp add: itoa_def)

lemma nat_text_digits: "c \<in> set (nat_text n) \<Longrightarrow> \<exists>d < 10. c = digit_char d"
proof (induction n rule: nat_text.induct)
  case (1 n)
  show ?case
  proof (cases "n < 10")
    case True
    with 1 show ?thesis by (auto simp: nat_text.simps [of n])
  next
    case False
    with 1 show ?thesis by (auto simp: nat_text.simps [of n] intro: exI [of _ "n mod 10"])
  qed
qed

lemma nat_text_printable: "c \<in> set (nat_text n) \<Longrightarrow> printable c"
  using nat_text_digits digit_char_printable by blast

lemma nat_text_no: "c \<notin> set ''0123456789'' \<Longrightarrow> c \<notin> set (nat_text n)"
proof
  assume c: "c \<notin> set ''0123456789''" "c \<in> set (nat_text n)"
  then obtain d where "d < 10" "c = digit_char d" using nat_text_digits by blast
  with c(1) show False by (auto simp: digit_char_def dest!: below_10)
qed

lemma length_hex_text [simp]: "length (hex_text bs) = 2 * length bs"
  by (induction bs) (simp_all add: hex_text_def hex_byte_def)

section \<open>Parsing\<close>

datatype num_error = SyntaxError | RangeError

text \<open>\<^verbatim>\<open>ParseUint(s, 10, 64)\<close> after the empty string is ruled out: the loop stops at the
  first byte that is no digit or at the first overflow, whichever comes first.\<close>

fun parse_uint :: "nat \<Rightarrow> string \<Rightarrow> num_error + nat" where
  "parse_uint acc [] = Inr acc"
| "parse_uint acc (c # cs) =
     (case digit_val c of
        None \<Rightarrow> Inl SyntaxError
      | Some d \<Rightarrow> if acc * 10 + d \<ge> 2 ^ 64 then Inl RangeError else parse_uint (acc * 10 + d) cs)"

definition atoi_mag :: "bool \<Rightarrow> string \<Rightarrow> int \<times> bool" where
  "atoi_mag neg ds =
     (let over = (if neg then min_int64 else max_int64, False)
      in if ds = [] then (0, False)
         else case parse_uint 0 ds of
           Inl SyntaxError \<Rightarrow> (0, False)
         | Inl RangeError \<Rightarrow> over
         | Inr n \<Rightarrow>
             if \<not> neg \<and> n \<ge> 2 ^ 63 then over
             else if neg \<and> n > 2 ^ 63 then over
             else (if neg then - int n else int n, True))"

definition atoi :: "string \<Rightarrow> int \<times> bool" where
  "atoi s = (case s of
     [] \<Rightarrow> (0, False)
   | c # cs \<Rightarrow> if c = CHR ''-'' then atoi_mag True cs
               else if c = CHR ''+'' then atoi_mag False cs
               else atoi_mag False s)"

text \<open>The idiom \<^verbatim>\<open>n, err := strconv.Atoi(s); err == nil\<close>.\<close>

definition atoi_ok :: "string \<Rightarrow> int option" where
  "atoi_ok s = (case atoi s of (n, ok) \<Rightarrow> if ok then Some n else None)"

lemma parse_uint_append:
  "parse_uint acc xs = Inr n \<Longrightarrow> parse_uint acc (xs @ ys) = parse_uint n ys"
  by (induction acc xs rule: parse_uint.induct) (auto split: option.splits if_splits)

lemma parse_nat_text: "n < 2 ^ 64 \<Longrightarrow> parse_uint 0 (nat_text n) = Inr n"
proof (induction n rule: nat_text.induct)
  case (1 n)
  show ?case
  proof (cases "n < 10")
    case True
    then show ?thesis by (simp add: nat_text.simps [of n] digit_val_char)
  next
    case False
    with 1 have "parse_uint 0 (nat_text (n div 10)) = Inr (n div 10)" by simp
    then have "parse_uint 0 (nat_text n) = parse_uint (n div 10) [digit_char (n mod 10)]"
      using False by (subst nat_text.simps) (simp add: parse_uint_append)
    also have "\<dots> = Inr n"
      using "1.prems" by (simp add: digit_val_char div_mult_mod_eq)
    finally show ?thesis .
  qed
qed

lemma nat_text_hd: "\<exists>d < 10. hd (nat_text n) = digit_char d"
  by (rule nat_text_digits [of _ n]) (simp add: hd_in_set)

lemma digit_char_no_sign: "d < 10 \<Longrightarrow> digit_char d \<noteq> CHR ''-'' \<and> digit_char d \<noteq> CHR ''+''"
  using digit_val_char [of d] by (auto simp: digit_val_def)

lemma atoi_nat_text: "n < 2 ^ 63 \<Longrightarrow> atoi (nat_text n) = (int n, True)"
proof -
  assume n: "n < 2 ^ 63"
  obtain c cs where t: "nat_text n = c # cs" by (cases "nat_text n") auto
  with nat_text_hd [of n] digit_char_no_sign have "c \<noteq> CHR ''-''" "c \<noteq> CHR ''+''" by auto
  moreover have "parse_uint 0 (c # cs) = Inr n"
    using n parse_nat_text [of n] t by simp
  ultimately show ?thesis
    using n by (simp only: atoi_def t list.case if_False atoi_mag_def Let_def) simp
qed

theorem atoi_itoa: "fits64 n \<Longrightarrow> atoi (itoa n) = (n, True)"
proof (cases "n < 0")
  case True
  assume "fits64 n"
  with True have "nat (- n) \<le> 2 ^ 63" by (simp add: fits64_def)
  moreover from this have "parse_uint 0 (nat_text (nat (- n))) = Inr (nat (- n))"
    by (intro parse_nat_text) simp
  ultimately show ?thesis
    using True by (simp add: itoa_def atoi_def atoi_mag_def)
next
  case False
  assume "fits64 n"
  with False have "nat n < 2 ^ 63" by (simp add: fits64_def)
  with False show ?thesis by (simp add: itoa_def atoi_nat_text)
qed

lemma atoi_ok_itoa: "fits64 n \<Longrightarrow> atoi_ok (itoa n) = Some n"
  by (simp add: atoi_ok_def atoi_itoa)

lemma itoa_inj: "fits64 m \<Longrightarrow> fits64 n \<Longrightarrow> itoa m = itoa n \<Longrightarrow> m = n"
  by (metis atoi_itoa prod.inject)

lemma itoa_printable: "0 \<le> n \<Longrightarrow> c \<in> set (itoa n) \<Longrightarrow> printable c"
  by (simp add: itoa_def nat_text_printable)

lemma itoa_no: "0 \<le> n \<Longrightarrow> c \<notin> set ''0123456789'' \<Longrightarrow> c \<notin> set (itoa n)"
  unfolding itoa_def by (simp add: nat_text_no del: list.set)

lemma atoi_range: "atoi s = (n, ok) \<Longrightarrow> fits64 n"
  by (auto simp: atoi_def atoi_mag_def fits64_def Let_def
      split: list.splits if_splits sum.splits num_error.splits)

lemma atoi_ok_range: "atoi_ok s = Some n \<Longrightarrow> fits64 n"
  by (auto simp: atoi_ok_def atoi_range split: prod.splits if_splits)

end
