(* ===== verification/Sip_Message.thy ===== *)
theory Sip_Message
  imports Go_Strconv
begin

text \<open>
  The SIP messages the program handles and the interface of the SIP library it uses
  (sipgo, which is not part of the repository).

  Data: a URI, a header, a request and a response are records of what the library's
  accessors return. A header is text, or one of the typed headers whose parts the program
  reads (\<open>From\<close>, \<open>To\<close>, \<open>Call-ID\<close>, \<open>CSeq\<close>, \<open>Max-Forwards\<close>); reading a header means the first
  of its name or type.

  Library procedures that parse, build, render or transform are the fields of a parameter
  record \<open>sipgo\<close>; every definition that calls one takes it as an argument. The documented
  behaviour some theorems rely on is the predicate \<open>sipgo_ok\<close>; \<open>sipgo_model\<close> is a concrete
  instance that satisfies it, used in witnesses.
\<close>

section \<open>Messages\<close>

text \<open>\<open>uri_rest\<close> stands for the scheme, parameters and headers of a URI; the program never
  reads them and leaves them empty in the URIs it builds.\<close>

record uri =
  uri_user :: string
  uri_host :: string
  uri_port :: int
  uri_rest :: string

definition mk_uri :: "string \<Rightarrow> string \<Rightarrow> int \<Rightarrow> uri" where
  "mk_uri user host port = \<lparr>uri_user = user, uri_host = host, uri_port = port, uri_rest = []\<rparr>"

datatype header =
    HText string string                                       \<comment> \<open>name and value\<close>
  | HAddress string uri "(string \<times> string) list" string       \<comment> \<open>name, address, parameters, value\<close>
  | HCallID string
  | HCSeq "32 word" string                                    \<comment> \<open>sequence number and method\<close>
  | HMaxForwards "32 word"

fun hdr_name :: "header \<Rightarrow> string" where
  "hdr_name (HText n v) = n"
| "hdr_name (HAddress n u ps v) = n"
| "hdr_name (HCallID i) = ''Call-ID''"
| "hdr_name (HCSeq n m) = ''CSeq''"
| "hdr_name (HMaxForwards n) = ''Max-Forwards''"

fun hdr_value :: "header \<Rightarrow> string" where
  "hdr_value (HText n v) = v"
| "hdr_value (HAddress n u ps v) = v"
| "hdr_value (HCallID i) = i"
| "hdr_value (HCSeq n m) = nat_text (unat n) @ '' '' @ m"
| "hdr_value (HMaxForwards n) = nat_text (unat n)"

record request =
  rq_method :: string
  rq_uri :: uri
  rq_headers :: "header list"
  rq_body :: string
  rq_source :: string
  rq_dest :: string
  rq_transport :: string

record response =
  rs_status :: int
  rs_reason :: string
  rs_headers :: "header list"
  rs_body :: string
  rs_dest :: string

section \<open>Reading headers\<close>

definition named :: "string \<Rightarrow> header \<Rightarrow> bool" where
  "named n h \<longleftrightarrow> to_lower (hdr_name h) = to_lower n"

definition get_header :: "header list \<Rightarrow> string \<Rightarrow> header option" where
  "get_header hs n = find (named n) hs"

fun find_address :: "string \<Rightarrow> header list \<Rightarrow> (uri \<times> (string \<times> string) list) option" where
  "find_address n [] = None"
| "find_address n (HAddress m u ps v # hs) = (if m = n then Some (u, ps) else find_address n hs)"
| "find_address n (_ # hs) = find_address n hs"

fun find_call_id :: "header list \<Rightarrow> string option" where
  "find_call_id [] = None"
| "find_call_id (HCallID i # hs) = Some i"
| "find_call_id (_ # hs) = find_call_id hs"

fun find_cseq :: "header list \<Rightarrow> (32 word \<times> string) option" where
  "find_cseq [] = None"
| "find_cseq (HCSeq n m # hs) = Some (n, m)"
| "find_cseq (_ # hs) = find_cseq hs"

fun find_max_forwards :: "header list \<Rightarrow> 32 word option" where
  "find_max_forwards [] = None"
| "find_max_forwards (HMaxForwards n # hs) = Some n"
| "find_max_forwards (_ # hs) = find_max_forwards hs"

definition rq_from :: "request \<Rightarrow> uri option" where
  "rq_from r = map_option fst (find_address ''From'' (rq_headers r))"

definition rq_to :: "request \<Rightarrow> uri option" where
  "rq_to r = map_option fst (find_address ''To'' (rq_headers r))"

definition rq_to_tag :: "request \<Rightarrow> string" where
  "rq_to_tag r = (case find_address ''To'' (rq_headers r) of
     None \<Rightarrow> []
   | Some (u, ps) \<Rightarrow> (case map_of ps ''tag'' of None \<Rightarrow> [] | Some t \<Rightarrow> t))"

abbreviation rq_call_id :: "request \<Rightarrow> string option" where
  "rq_call_id r \<equiv> find_call_id (rq_headers r)"

abbreviation rq_cseq :: "request \<Rightarrow> (32 word \<times> string) option" where
  "rq_cseq r \<equiv> find_cseq (rq_headers r)"

abbreviation rq_max_forwards :: "request \<Rightarrow> 32 word option" where
  "rq_max_forwards r \<equiv> find_max_forwards (rq_headers r)"

abbreviation rs_cseq :: "response \<Rightarrow> (32 word \<times> string) option" where
  "rs_cseq r \<equiv> find_cseq (rs_headers r)"

section \<open>The library's procedures\<close>

record sipgo =
  sg_parse_uri :: "string \<Rightarrow> uri option"                    \<comment> \<open>sip.ParseUri\<close>
  sg_uri_text :: "uri \<Rightarrow> string"                            \<comment> \<open>Uri.String\<close>
  sg_new_request :: "string \<Rightarrow> uri \<Rightarrow> request"               \<comment> \<open>sip.NewRequest\<close>
  sg_new_response :: "request \<Rightarrow> int \<Rightarrow> string \<Rightarrow> string \<Rightarrow> response"
                                                            \<comment> \<open>sip.NewResponseFromRequest\<close>
  sg_append :: "header \<Rightarrow> header list \<Rightarrow> header list"        \<comment> \<open>AppendHeader\<close>
  sg_prepend :: "header \<Rightarrow> header list \<Rightarrow> header list"       \<comment> \<open>PrependHeader\<close>
  sg_remove :: "string \<Rightarrow> header list \<Rightarrow> header list"        \<comment> \<open>RemoveHeader\<close>
  sg_copy :: "string \<Rightarrow> header list \<Rightarrow> header list \<Rightarrow> header list"
                                                            \<comment> \<open>sip.CopyHeaders\<close>
  sg_set_body :: "string \<Rightarrow> request \<Rightarrow> request"               \<comment> \<open>SetBody\<close>
  sg_add_via :: "request \<Rightarrow> request"                         \<comment> \<open>sipgo.ClientRequestAddVia\<close>
  sg_request_line :: "request \<Rightarrow> string"                     \<comment> \<open>Request.StartLine\<close>
  sg_status_line :: "response \<Rightarrow> string"                     \<comment> \<open>Response.StartLine\<close>

text \<open>What the library documents: a new request has the given method and URI and no header;
  a response built from a request has the given status, reason and body; appending adds at
  the end, prepending at the front; removal takes out the first header of the name;
  copying appends the headers of the name; setting the body of a message without a
  Content-Length appends one; the option that adds a Via changes nothing but the header list
  and puts the Via in front.\<close>

definition sipgo_ok :: "sipgo \<Rightarrow> bool" where
  "sipgo_ok S \<longleftrightarrow>
     (\<forall>m u. rq_method (sg_new_request S m u) = m \<and> rq_uri (sg_new_request S m u) = u
            \<and> rq_headers (sg_new_request S m u) = [])
   \<and> (\<forall>r c t b. rs_status (sg_new_response S r c t b) = c \<and> rs_reason (sg_new_response S r c t b) = t
            \<and> rs_body (sg_new_response S r c t b) = b)
   \<and> (\<forall>h hs. sg_append S h hs = hs @ [h])
   \<and> (\<forall>h hs. sg_prepend S h hs = h # hs)
   \<and> (\<forall>a h b. list_all (\<lambda>x. \<not> named (hdr_name h) x) a
            \<longrightarrow> sg_remove S (hdr_name h) (a @ h # b) = a @ b)
   \<and> (\<forall>n a. list_all (\<lambda>h. \<not> named n h) a \<longrightarrow> sg_remove S n a = a)
   \<and> (\<forall>n src dst. sg_copy S n src dst = dst @ filter (named n) src)
   \<and> (\<forall>b r. list_all (\<lambda>h. \<not> named ''Content-Length'' h) (rq_headers r)
            \<longrightarrow> (\<exists>v. sg_set_body S b r = r\<lparr>rq_body := b, rq_headers := rq_headers r @ [HText ''Content-Length'' v]\<rparr>))
   \<and> (\<forall>r. \<exists>v. sg_add_via S r = r\<lparr>rq_headers := HText ''Via'' v # rq_headers r\<rparr>)"

lemma sipgo_okD:
  assumes "sipgo_ok S"
  shows "rq_method (sg_new_request S m u) = m"
    and "rq_uri (sg_new_request S m u) = u"
    and "rq_headers (sg_new_request S m u) = []"
    and "rs_status (sg_new_response S r c t b) = c"
    and "rs_reason (sg_new_response S r c t b) = t"
    and "rs_body (sg_new_response S r c t b) = b"
    and "sg_append S h hs = hs @ [h]"
    and "sg_prepend S h hs = h # hs"
    and "sg_copy S n src dst = dst @ filter (named n) src"
  using assms by (simp_all add: sipgo_ok_def)

lemma sipgo_remove_first:
  assumes "sipgo_ok S" "list_all (\<lambda>x. \<not> named (hdr_name h) x) a"
  shows "sg_remove S (hdr_name h) (a @ h # b) = a @ b"
  using assms by (simp add: sipgo_ok_def)

lemma sipgo_remove_absent:
  assumes "sipgo_ok S" "list_all (\<lambda>h. \<not> named n h) a"
  shows "sg_remove S n a = a"
  using assms by (simp add: sipgo_ok_def)

lemma sipgo_set_body:
  assumes "sipgo_ok S" "list_all (\<lambda>h. \<not> named ''Content-Length'' h) (rq_headers r)"
  shows "\<exists>v. sg_set_body S b r = r\<lparr>rq_body := b, rq_headers := rq_headers r @ [HText ''Content-Length'' v]\<rparr>"
  using assms by (simp add: sipgo_ok_def)

lemma sipgo_add_via:
  assumes "sipgo_ok S"
  shows "\<exists>v. sg_add_via S r = r\<lparr>rq_headers := HText ''Via'' v # rq_headers r\<rparr>"
  using assms by (simp add: sipgo_ok_def)

text \<open>A concrete instance for witnesses: it parses no URI, renders a URI as
  \<^verbatim>\<open>sip:user@host:port\<close>, copies all the request's headers into a response.\<close>

definition uri_text_model :: "uri \<Rightarrow> string" where
  "uri_text_model u = ''sip:'' @ uri_user u @ ''@'' @ uri_host u @ '':'' @ itoa (uri_port u)"

definition sipgo_model :: sipgo where
  "sipgo_model = \<lparr>
     sg_parse_uri = (\<lambda>_. None),
     sg_uri_text = uri_text_model,
     sg_new_request = (\<lambda>m u. \<lparr>rq_method = m, rq_uri = u, rq_headers = [], rq_body = [],
        rq_source = [], rq_dest = [], rq_transport = []\<rparr>),
     sg_new_response = (\<lambda>r c t b. \<lparr>rs_status = c, rs_reason = t, rs_headers = rq_headers r,
        rs_body = b, rs_dest = rq_source r\<rparr>),
     sg_append = (\<lambda>h hs. hs @ [h]),
     sg_prepend = (\<lambda>h hs. h # hs),
     sg_remove = (\<lambda>n. remove_first (named n)),
     sg_copy = (\<lambda>n src dst. dst @ filter (named n) src),
     sg_set_body = (\<lambda>b r. r\<lparr>rq_body := b, rq_headers := rq_headers r @ [HText ''Content-Length'' (itoa (int (length b)))]\<rparr>),
     sg_add_via = (\<lambda>r. r\<lparr>rq_headers := HText ''Via'' ''SIP/2.0/UDP sbc'' # rq_headers r\<rparr>),
     sg_request_line = (\<lambda>r. rq_method r @ '' '' @ uri_text_model (rq_uri r) @ '' SIP/2.0''),
     sg_status_line = (\<lambda>r. ''SIP/2.0 '' @ itoa (rs_status r) @ '' '' @ rs_reason r)\<rparr>"

lemma remove_first_append: "list_all (\<lambda>x. \<not> P x) a \<Longrightarrow> remove_first P (a @ b) = a @ remove_first P b"
  by (induction a) auto

lemma remove_first_absent: "list_all (\<lambda>x. \<not> P x) a \<Longrightarrow> remove_first P a = a"
  using remove_first_append [of P a "[]"] by simp

lemma sipgo_ok_model: "sipgo_ok sipgo_model"
  unfolding sipgo_ok_def sipgo_model_def
  by (auto simp: remove_first_append remove_first_absent named_def)

lemma sipgo_model_simps [simp]:
  "sg_parse_uri sipgo_model = (\<lambda>_. None)"
  "sg_uri_text sipgo_model = uri_text_model"
  "sg_append sipgo_model h hs = hs @ [h]"
  "sg_prepend sipgo_model h hs = h # hs"
  "sg_remove sipgo_model n = remove_first (named n)"
  "sg_copy sipgo_model n src dst = dst @ filter (named n) src"
  "rs_status (sg_new_response sipgo_model r c t b) = c"
  by (simp_all add: sipgo_model_def)

section \<open>Reading after building\<close>

text \<open>Reading a typed header from a list that was put together from two.\<close>

lemma find_cseq_append:
  "find_cseq (a @ b) = (case find_cseq a of None \<Rightarrow> find_cseq b | Some x \<Rightarrow> Some x)"
  by (induction a rule: find_cseq.induct) auto

lemma find_call_id_append:
  "find_call_id (a @ b) = (case find_call_id a of None \<Rightarrow> find_call_id b | Some x \<Rightarrow> Some x)"
  by (induction a rule: find_call_id.induct) auto

lemma find_max_forwards_append:
  "find_max_forwards (a @ b) = (case find_max_forwards a of None \<Rightarrow> find_max_forwards b | Some x \<Rightarrow> Some x)"
  by (induction a rule: find_max_forwards.induct) auto

lemma find_address_append:
  "find_address n (a @ b) = (case find_address n a of None \<Rightarrow> find_address n b | Some x \<Rightarrow> Some x)"
  by (induction n a rule: find_address.induct) auto

end
