(* ===== verification/Go_Net.thy ===== *)
theory Go_Net
  imports Go_Strconv
begin

unbundle bit_operations_syntax

text \<open>
  The functions of Go's \<^verbatim>\<open>net\<close> package the program uses: splitting and joining
  host and port, parsing an address and a CIDR block, membership of a block and the address
  classes. An address (\<^verbatim>\<open>net.IP\<close>) is a list of 4 or 16 bytes; text that does not
  parse is \<open>None\<close>. The main result is \<open>net_contains_bits\<close>: an address lies in a block
  exactly when its first bits, as many as the prefix is long, are the block's.
\<close>

type_synonym u8 = "8 word"
type_synonym ip = "u8 list"

section \<open>Host and port\<close>

text \<open>\<^verbatim>\<open>net.SplitHostPort\<close>; \<open>None\<close> is its error.\<close>

definition split_host_port :: "string \<Rightarrow> (string \<times> string) option" where
  "split_host_port hp = (case last_index_byte hp CHR '':'' of
     None \<Rightarrow> None
   | Some i \<Rightarrow>
       let port = drop (Suc i) hp in
       if has_prefix hp ''['' then
         (case index_byte hp CHR '']'' of
            None \<Rightarrow> None
          | Some e \<Rightarrow>
              if Suc e \<noteq> i then None
              else if contains_str (drop 1 hp) ''['' then None
              else if contains_str (drop (Suc e) hp) '']'' then None
              else Some (drop 1 (take e hp), port))
       else
         let host = take i hp in
         if contains_str host '':'' then None
         else if contains_str hp ''['' then None
         else if contains_str hp '']'' then None
         else Some (host, port))"

definition join_host_port :: "string \<Rightarrow> string \<Rightarrow> string" where
  "join_host_port host port =
     (if contains_str host '':'' then ''['' @ host @ '']:'' @ port else host @ '':'' @ port)"

definition host_chars :: "string \<Rightarrow> bool" where
  "host_chars s \<longleftrightarrow> CHR '':'' \<notin> set s \<and> CHR ''['' \<notin> set s \<and> CHR '']'' \<notin> set s"

lemma contains_byte [simp]: "contains_str s [c] \<longleftrightarrow> c \<in> set s"
  by (auto simp: contains_str_iff in_set_conv_decomp)

lemma split_host_port_plain:
  assumes "host_chars host" "host_chars port"
  shows "split_host_port (host @ '':'' @ port) = Some (host, port)"
proof -
  have "last_index_byte (host @ CHR '':'' # port) CHR '':'' = Some (length host)"
    using assms by (intro last_index_byte_append) (simp add: host_chars_def)
  moreover have "\<not> has_prefix (host @ CHR '':'' # port) ''[''"
    using assms by (cases host) (auto simp: has_prefix_iff host_chars_def)
  ultimately show ?thesis
    using assms by (simp add: split_host_port_def host_chars_def)
qed

text \<open>Joining and splitting is the identity on host names and IPv4 addresses.\<close>

lemma split_join_host_port:
  "host_chars host \<Longrightarrow> host_chars port \<Longrightarrow> split_host_port (join_host_port host port) = Some (host, port)"
  using split_host_port_plain [of host port] by (simp add: join_host_port_def host_chars_def)

section \<open>Parsing an address\<close>

text \<open>The loop of \<^verbatim>\<open>netip.parseIPv4Fields\<close>: the current field's value and number of
  digits, the finished fields, the rest of the text.\<close>

fun ipv4_fields :: "nat \<Rightarrow> nat \<Rightarrow> u8 list \<Rightarrow> string \<Rightarrow> u8 list option" where
  "ipv4_fields val dl fs [] = (if length fs < 3 then None else Some (fs @ [of_nat val]))"
| "ipv4_fields val dl fs (c # cs) =
     (case digit_val c of
        Some d \<Rightarrow>
          if dl = 1 \<and> val = 0 then None
          else if val * 10 + d > 255 then None
          else ipv4_fields (val * 10 + d) (dl + 1) fs cs
      | None \<Rightarrow>
          if c = CHR ''.'' then
            (if dl = 0 \<or> cs = [] then None
             else if length fs = 3 then None
             else ipv4_fields 0 0 (fs @ [of_nat val]) cs)
          else None)"

definition hex_val :: "char \<Rightarrow> nat option" where
  "hex_val c = (let n = of_char c in
     if 48 \<le> n \<and> n \<le> (57 :: nat) then Some (n - 48)
     else if 97 \<le> n \<and> n \<le> 102 then Some (n - 87)
     else if 65 \<le> n \<and> n \<le> 70 then Some (n - 55)
     else None)"

text \<open>One group of hexadecimal digits: how many, their value, the rest; a fifth digit is an
  error.\<close>

fun take_hex :: "nat \<Rightarrow> nat \<Rightarrow> string \<Rightarrow> (nat \<times> nat \<times> string) option" where
  "take_hex off acc [] = Some (off, acc, [])"
| "take_hex off acc (c # cs) =
     (case hex_val c of
        None \<Rightarrow> Some (off, acc, c # cs)
      | Some d \<Rightarrow> if off > 3 then None else take_hex (off + 1) (acc * 16 + d) cs)"

text \<open>The loop of \<^verbatim>\<open>netip.parseIPv6\<close>, one group an iteration and at most eight: the
  bytes so far, the position of the double colon, the rest of the text.\<close>

fun ipv6_groups :: "nat \<Rightarrow> u8 list \<Rightarrow> nat option \<Rightarrow> string \<Rightarrow> (u8 list \<times> nat option \<times> string) option" where
  "ipv6_groups 0 bs el s = Some (bs, el, s)"
| "ipv6_groups (Suc n) bs el s =
     (case take_hex 0 0 s of
        None \<Rightarrow> None
      | Some (off, acc, rest) \<Rightarrow>
          if off = 0 then None
          else if has_prefix rest ''.'' then
            (if el = None \<and> length bs \<noteq> 12 then None
             else if length bs + 4 > 16 then None
             else (case ipv4_fields 0 0 [] s of None \<Rightarrow> None | Some f \<Rightarrow> Some (bs @ f, el, [])))
          else
            (let bs' = bs @ [of_nat (acc div 256), of_nat acc] in
             case rest of
               [] \<Rightarrow> Some (bs', el, [])
             | [c] \<Rightarrow> None
             | c # d # ds \<Rightarrow>
                 if c \<noteq> CHR '':'' then None
                 else if d = CHR '':'' then
                   (if el \<noteq> None then None
                    else if ds = [] then Some (bs', Some (length bs'), [])
                    else ipv6_groups n bs' (Some (length bs')) ds)
                 else ipv6_groups n bs' el (d # ds)))"

definition expand_ellipsis :: "u8 list \<Rightarrow> nat option \<Rightarrow> u8 list option" where
  "expand_ellipsis bs el =
     (if length bs < 16 then
        (case el of None \<Rightarrow> None
         | Some e \<Rightarrow> Some (take e bs @ replicate (16 - length bs) 0 @ drop e bs))
      else if el \<noteq> None then None else Some bs)"

definition parse_ipv6 :: "string \<Rightarrow> u8 list option" where
  "parse_ipv6 s =
     (let lead = has_prefix s ''::''; rest = (if lead then drop 2 s else s) in
      if lead \<and> rest = [] then Some (replicate 16 0)
      else (case ipv6_groups 8 [] (if lead then Some 0 else None) rest of
              None \<Rightarrow> None
            | Some (bs, el, r) \<Rightarrow> if r \<noteq> [] then None else expand_ellipsis bs el))"

text \<open>An address as \<^verbatim>\<open>netip.ParseAddr\<close> reads it; both callers reject a zone, so a
  percent sign is never part of one.\<close>

datatype addr = V4 "u8 list" | V6 "u8 list"

fun addr_bits :: "addr \<Rightarrow> nat" where
  "addr_bits (V4 _) = 32"
| "addr_bits (V6 _) = 128"

definition v4_in_v6 :: "u8 list" where
  "v4_in_v6 = replicate 10 0 @ [0xFF, 0xFF]"

fun addr_as16 :: "addr \<Rightarrow> ip" where
  "addr_as16 (V4 b) = v4_in_v6 @ b"
| "addr_as16 (V6 b) = b"

definition parse_addr :: "string \<Rightarrow> addr option" where
  "parse_addr s =
     (case find (\<lambda>c. c = CHR ''.'' \<or> c = CHR '':'' \<or> c = CHR ''%'') s of
        None \<Rightarrow> None
      | Some c \<Rightarrow>
          if CHR ''%'' \<in> set s then None
          else if c = CHR ''.'' then map_option V4 (ipv4_fields 0 0 [] s)
          else map_option V6 (parse_ipv6 s))"

definition parse_ip :: "string \<Rightarrow> ip option" where
  "parse_ip s = map_option addr_as16 (parse_addr s)"

section \<open>Blocks of addresses\<close>

definition to4 :: "ip \<Rightarrow> ip option" where
  "to4 b = (if length b = 4 then Some b
            else if length b = 16 \<and> take 12 b = v4_in_v6 then Some (drop 12 b)
            else None)"

definition mask_byte :: "nat \<Rightarrow> u8" where
  "mask_byte n = (if n \<ge> 8 then 0xFF else NOT (drop_bit n 0xFF))"

definition cidr_mask :: "nat \<Rightarrow> nat \<Rightarrow> u8 list" where
  "cidr_mask ones bits = map (\<lambda>i. mask_byte (ones - 8 * i)) [0..<bits div 8]"

definition and_bytes :: "u8 list \<Rightarrow> u8 list \<Rightarrow> u8 list" where
  "and_bytes a b = map2 (AND) a b"

text \<open>\<^verbatim>\<open>net.IPNet\<close>: the masked network address and the mask.\<close>

record ipnet =
  net_ip :: ip
  net_mask :: "u8 list"

text \<open>\<^verbatim>\<open>IP.Mask\<close>, for an address of 16 bytes.\<close>

definition mask_ip :: "ip \<Rightarrow> u8 list \<Rightarrow> ip" where
  "mask_ip b m =
     (if length m = 4 \<and> take 12 b = v4_in_v6 then and_bytes (drop 12 b) m
      else if length m = length b then and_bytes b m else [])"

fun dtoi :: "nat \<Rightarrow> string \<Rightarrow> nat option" where
  "dtoi acc [] = Some acc"
| "dtoi acc (c # cs) = (case digit_val c of None \<Rightarrow> None | Some d \<Rightarrow> dtoi (acc * 10 + d) cs)"

definition net_of :: "addr \<Rightarrow> nat \<Rightarrow> ipnet" where
  "net_of a n = (let m = cidr_mask n (addr_bits a)
                 in \<lparr>net_ip = mask_ip (addr_as16 a) m, net_mask = m\<rparr>)"

definition parse_cidr :: "string \<Rightarrow> ipnet option" where
  "parse_cidr s =
     (case cut_on CHR ''/'' s of (a, m, found) \<Rightarrow>
        if \<not> found then None
        else (case parse_addr a of
                None \<Rightarrow> None
              | Some ad \<Rightarrow>
                  if m = [] then None
                  else (case dtoi 0 m of
                          None \<Rightarrow> None
                        | Some n \<Rightarrow> if n > addr_bits ad then None else Some (net_of ad n))))"

definition net_number_and_mask :: "ipnet \<Rightarrow> (ip \<times> u8 list) option" where
  "net_number_and_mask n =
     (let b = (case to4 (net_ip n) of Some x \<Rightarrow> x | None \<Rightarrow> net_ip n); m = net_mask n in
      if length b \<noteq> 4 \<and> length b \<noteq> 16 then None
      else if length m = 4 then (if length b \<noteq> 4 then None else Some (b, m))
      else if length m = 16 then Some (b, if length b = 4 then drop 12 m else m)
      else None)"

definition net_contains :: "ipnet \<Rightarrow> ip \<Rightarrow> bool" where
  "net_contains n b =
     (let x = (case to4 b of Some y \<Rightarrow> y | None \<Rightarrow> b) in
      case net_number_and_mask n of
        None \<Rightarrow> False
      | Some (nn, m) \<Rightarrow> length x = length nn \<and> and_bytes nn m = and_bytes x m)"

section \<open>Classes of addresses\<close>

definition is_private :: "ip \<Rightarrow> bool" where
  "is_private b = (case to4 b of
     Some x \<Rightarrow> x ! 0 = 10 \<or> x ! 0 = 172 \<and> x ! 1 AND 0xF0 = 16 \<or> x ! 0 = 192 \<and> x ! 1 = 168
   | None \<Rightarrow> length b = 16 \<and> b ! 0 AND 0xFE = 0xFC)"

definition is_loopback :: "ip \<Rightarrow> bool" where
  "is_loopback b = (case to4 b of
     Some x \<Rightarrow> x ! 0 = 127
   | None \<Rightarrow> b = replicate 15 0 @ [1])"

definition is_link_local_unicast :: "ip \<Rightarrow> bool" where
  "is_link_local_unicast b = (case to4 b of
     Some x \<Rightarrow> x ! 0 = 169 \<and> x ! 1 = 254
   | None \<Rightarrow> length b = 16 \<and> b ! 0 = 0xFE \<and> b ! 1 AND 0xC0 = 0x80)"

definition is_unspecified :: "ip \<Rightarrow> bool" where
  "is_unspecified b = (case to4 b of
     Some x \<Rightarrow> x = replicate 4 0
   | None \<Rightarrow> b = replicate 16 0)"


section \<open>Membership of a block, bit by bit\<close>

text \<open>Bit \<open>i\<close> of an address, counted from its first, most significant one.\<close>

definition ip_bit :: "ip \<Rightarrow> nat \<Rightarrow> bool" where
  "ip_bit b i = bit (b ! (i div 8)) (7 - i mod 8)"

lemma u8_max: "(255 :: u8) = - 1"
  by simp

lemma bit_mask_byte: "j < 8 \<Longrightarrow> bit (mask_byte n) j \<longleftrightarrow> 8 \<le> j + n"
  unfolding mask_byte_def u8_max by (auto simp: bit_not_iff bit_drop_bit_eq bit_mask_iff)

lemma and_mask_byte_eq:
  "(x :: u8) AND mask_byte n = y AND mask_byte n \<longleftrightarrow> (\<forall>j < 8. 8 \<le> j + n \<longrightarrow> bit x j = bit y j)"
proof
  assume eq: "x AND mask_byte n = y AND mask_byte n"
  show "\<forall>j < 8. 8 \<le> j + n \<longrightarrow> bit x j = bit y j"
  proof (intro allI impI)
    fix j :: nat
    assume "j < 8" "8 \<le> j + n"
    with eq have "bit (x AND mask_byte n) j = bit (y AND mask_byte n) j" by simp
    with \<open>j < 8\<close> \<open>8 \<le> j + n\<close> show "bit x j = bit y j"
      by (simp add: bit_and_iff bit_mask_byte)
  qed
next
  assume "\<forall>j < 8. 8 \<le> j + n \<longrightarrow> bit x j = bit y j"
  then show "x AND mask_byte n = y AND mask_byte n"
    by (auto intro!: bit_word_eqI simp: bit_and_iff bit_mask_byte)
qed

lemma length_and_bytes [simp]: "length (and_bytes a b) = min (length a) (length b)"
  by (simp add: and_bytes_def)

lemma nth_and_bytes [simp]:
  "i < length a \<Longrightarrow> i < length b \<Longrightarrow> and_bytes a b ! i = a ! i AND b ! i"
  by (simp add: and_bytes_def)

lemma and_bytes_idem: "length a = length m \<Longrightarrow> and_bytes (and_bytes a m) m = and_bytes a m"
  by (rule nth_equalityI) (simp_all add: and.assoc)

lemma length_cidr_mask [simp]: "length (cidr_mask n bits) = bits div 8"
  by (simp add: cidr_mask_def)

lemma nth_cidr_mask [simp]: "k < bits div 8 \<Longrightarrow> cidr_mask n bits ! k = mask_byte (n - 8 * k)"
  by (simp add: cidr_mask_def)

lemma ip_bits_bytes:
  assumes "n \<le> 8 * l"
  shows "(\<forall>k < l. \<forall>j < 8. 8 \<le> j + (n - 8 * k) \<longrightarrow> bit (a ! k) j = bit (b ! k) j)
     \<longleftrightarrow> (\<forall>i < n. ip_bit a i = ip_bit b i)" (is "?L \<longleftrightarrow> ?R")
proof
  assume ?L
  show ?R
  proof (intro allI impI)
    fix i assume "i < n"
    have i: "8 * (i div 8) + i mod 8 = i" "i mod 8 < 8" by simp_all
    have "i div 8 < l" using \<open>i < n\<close> assms i by linarith
    moreover have "8 \<le> (7 - i mod 8) + (n - 8 * (i div 8))"
      using \<open>i < n\<close> i by linarith
    moreover have "7 - i mod 8 < 8" by simp
    ultimately show "ip_bit a i = ip_bit b i"
      using \<open>?L\<close> unfolding ip_bit_def by blast
  qed
next
  assume ?R
  show ?L
  proof (intro allI impI)
    fix k j :: nat
    assume "k < l" "j < 8" "8 \<le> j + (n - 8 * k)"
    then have "8 * k + (7 - j) < n" by linarith
    with \<open>?R\<close> have "ip_bit a (8 * k + (7 - j)) = ip_bit b (8 * k + (7 - j))" by blast
    moreover have "(7 - j) div 8 = 0" "(7 - j) mod 8 = 7 - j" by simp_all
    then have "(8 * k + (7 - j)) div 8 = k" "(8 * k + (7 - j)) mod 8 = 7 - j"
      by simp_all
    moreover have "7 - (7 - j) = j" using \<open>j < 8\<close> by simp
    ultimately show "bit (a ! k) j = bit (b ! k) j" by (simp add: ip_bit_def)
  qed
qed

lemma and_cidr_mask_eq:
  assumes "length a = l" "length b = l" "n \<le> 8 * l"
  shows "and_bytes a (cidr_mask n (8 * l)) = and_bytes b (cidr_mask n (8 * l))
     \<longleftrightarrow> (\<forall>i < n. ip_bit a i = ip_bit b i)"
  unfolding ip_bits_bytes [OF assms(3), symmetric] and_mask_byte_eq [symmetric]
  using assms(1,2) by (simp add: list_eq_iff_nth_eq)

lemma to4_mapped [simp]: "length b = 4 \<Longrightarrow> to4 (v4_in_v6 @ b) = Some b"
  by (simp add: to4_def v4_in_v6_def)

lemma to4_four [simp]: "length b = 4 \<Longrightarrow> to4 b = Some b"
  by (simp add: to4_def)

lemma to4_length: "to4 x = Some y \<Longrightarrow> length y = 4"
  by (auto simp: to4_def split: if_splits)

lemma net_of_V4:
  "length b = 4 \<Longrightarrow> net_of (V4 b) n = \<lparr>net_ip = and_bytes b (cidr_mask n 32), net_mask = cidr_mask n 32\<rparr>"
  by (simp add: net_of_def mask_ip_def v4_in_v6_def Let_def)

text \<open>A block of IPv4 addresses holds the IPv4 addresses that agree with it on the prefix,
  in their 4-byte or their 16-byte form, and nothing else.\<close>

theorem net_contains_bits_v4:
  assumes "length b = 4" "n \<le> 32"
  shows "net_contains (net_of (V4 b) n) x
     \<longleftrightarrow> (\<exists>y. to4 x = Some y \<and> (\<forall>i < n. ip_bit y i = ip_bit b i))"
proof -
  let ?m = "cidr_mask n 32"
  have nm: "net_number_and_mask (net_of (V4 b) n) = Some (and_bytes b ?m, ?m)"
    using assms(1) by (simp add: net_of_V4 net_number_and_mask_def Let_def)
  have idem: "and_bytes (and_bytes b ?m) ?m = and_bytes b ?m"
    using assms(1) by (simp add: and_bytes_idem)
  show ?thesis
  proof (cases "to4 x")
    case None
    then have "length x \<noteq> 4" by auto
    with None nm assms(1) show ?thesis by (simp add: net_contains_def)
  next
    case (Some y)
    then have "length y = 4" by (rule to4_length)
    with assms have "and_bytes b ?m = and_bytes y ?m \<longleftrightarrow> (\<forall>i < n. ip_bit b i = ip_bit y i)"
      using and_cidr_mask_eq [of b 4 y n] by simp
    with Some nm idem assms(1) \<open>length y = 4\<close> show ?thesis by (auto simp: net_contains_def)
  qed
qed

text \<open>Masking never turns an IPv6 address into a mapped IPv4 one.\<close>

lemma to4_masked:
  assumes "length b = 16" "to4 b = None" "n \<le> 128"
  shows "to4 (and_bytes b (cidr_mask n 128)) = None"
proof (rule ccontr)
  let ?m = "cidr_mask n 128"
  assume "to4 (and_bytes b ?m) \<noteq> None"
  then have pre: "take 12 (and_bytes b ?m) = v4_in_v6"
    using assms(1) by (auto simp: to4_def split: if_splits)
  have at: "b ! k AND mask_byte (n - 8 * k) = v4_in_v6 ! k" if "k < 12" for k
    using arg_cong [OF pre, of "\<lambda>l. l ! k"] that assms(1) by simp
  have "b ! 11 AND mask_byte (n - 88) = 0xFF" using at [of 11] by (simp add: v4_in_v6_def nth_append)
  then have "bit (b ! 11 AND mask_byte (n - 88)) 0" by simp
  then have "8 \<le> n - 88" by (simp add: bit_and_iff bit_mask_byte del: bit_0)
  then have "96 \<le> n" by linarith
  then have "b ! k = v4_in_v6 ! k" if "k < 12" for k
  proof -
    from \<open>96 \<le> n\<close> that have "8 \<le> n - 8 * k" by linarith
    then have "mask_byte (n - 8 * k) = - 1" by (simp add: mask_byte_def)
    with at [OF that] show ?thesis by simp
  qed
  then have "take 12 b = v4_in_v6"
    using assms(1) by (intro nth_equalityI) (simp_all add: v4_in_v6_def)
  with assms(1,2) show False by (simp add: to4_def)
qed

theorem net_contains_bits_v6:
  assumes "length b = 16" "to4 b = None" "n \<le> 128" "length x = 16"
  shows "net_contains (net_of (V6 b) n) x
     \<longleftrightarrow> to4 x = None \<and> (\<forall>i < n. ip_bit x i = ip_bit b i)"
proof -
  let ?m = "cidr_mask n 128"
  have "take 12 b \<noteq> v4_in_v6" using assms(1,2) by (auto simp: to4_def)
  then have net: "net_of (V6 b) n = \<lparr>net_ip = and_bytes b ?m, net_mask = ?m\<rparr>"
    using assms(1) by (simp add: net_of_def mask_ip_def Let_def)
  have nm: "net_number_and_mask (net_of (V6 b) n) = Some (and_bytes b ?m, ?m)"
    using assms to4_masked [OF assms(1,2,3)] by (simp add: net net_number_and_mask_def Let_def)
  have idem: "and_bytes (and_bytes b ?m) ?m = and_bytes b ?m"
    using assms(1) by (simp add: and_bytes_idem)
  have "and_bytes b ?m = and_bytes x ?m \<longleftrightarrow> (\<forall>i < n. ip_bit b i = ip_bit x i)"
    using and_cidr_mask_eq [of b 16 x n] assms by simp
  with nm idem assms show ?thesis
    by (cases "to4 x") (auto simp: net_contains_def dest: to4_length)
qed

end
