(* ===== verification/Sip_Address.thy ===== *)
theory Sip_Address
  imports Sip_Message Go_Net
begin

text \<open>
  The address and header-text helpers of \<^verbatim>\<open>sbc/proxy.go\<close>: splitting a Contact into
  its address and parameters, the lifetime a REGISTER asks for and the Contact that answers
  it, parsing Contact URIs, hosts and ports, transports, hop limits and trunk source
  addresses. \<open>register_expires_granted\<close> is the round trip between the answer's Contact and
  the lifetime a client reads from it.
\<close>

section \<open>Contact values\<close>

text \<open>The loop of \<^verbatim>\<open>splitContact\<close> over the part after the address: inside quotes, the
  parameter being read, the rest. A parameter is kept when it is not blank.\<close>

definition flush_param :: "string \<Rightarrow> string list" where
  "flush_param cur = (let p = trim_space cur in if p \<noteq> [] then [p] else [])"

fun contact_params :: "bool \<Rightarrow> string \<Rightarrow> string \<Rightarrow> string list" where
  "contact_params quoted cur [] = flush_param cur"
| "contact_params quoted cur (c # cs) =
     (if c = CHR 0x22 then contact_params (\<not> quoted) (cur @ [c]) cs
      else if c = CHR '';'' \<and> \<not> quoted then flush_param cur @ contact_params quoted [] cs
      else contact_params quoted (cur @ [c]) cs)"

text \<open>The address and what follows it; \<open>None\<close> when an angle bracket is not closed.\<close>

definition contact_parts :: "string \<Rightarrow> (string \<times> string) option" where
  "contact_parts contact =
     (case index_byte contact CHR ''<'' of
        Some start \<Rightarrow>
          (case index_byte (drop start contact) CHR ''>'' of
             None \<Rightarrow> None
           | Some e \<Rightarrow> Some (take (start + e + 1) contact, drop (start + e + 1) contact))
      | None \<Rightarrow>
          (case index_byte contact CHR '';'' of
             Some i \<Rightarrow> Some (take i contact, drop i contact)
           | None \<Rightarrow> Some (contact, [])))"

definition splitContact :: "string \<Rightarrow> string \<times> string list" where
  "splitContact contact0 =
     (let contact = trim_space contact0 in
      case contact_parts contact of
        None \<Rightarrow> (contact, [])
      | Some (addr, rest) \<Rightarrow> (trim_space addr, contact_params False [] (range_text rest)))"

definition param_named :: "string \<Rightarrow> string \<Rightarrow> bool" where
  "param_named name param \<longleftrightarrow> equal_fold (trim_space (fst (cut_on CHR ''='' param))) name"

definition contactParam :: "string \<Rightarrow> string \<Rightarrow> string option" where
  "contactParam contact name =
     map_option (\<lambda>param. trim_set {CHR 0x22} (trim_space (fst (snd (cut_on CHR ''='' param)))))
       (find (param_named name) (snd (splitContact contact)))"

definition defaultRegisterExpires :: int where
  "defaultRegisterExpires = 300"

definition nonneg_int :: "string \<Rightarrow> int option" where
  "nonneg_int s = (case atoi_ok s of Some n \<Rightarrow> if 0 \<le> n then Some n else None | None \<Rightarrow> None)"

definition registerExpires :: "string \<Rightarrow> string \<Rightarrow> int" where
  "registerExpires contact expiresHeader =
     (case Option.bind (contactParam contact ''expires'') nonneg_int of
        Some n \<Rightarrow> n
      | None \<Rightarrow> (case nonneg_int (trim_space expiresHeader) of
                  Some n \<Rightarrow> n
                | None \<Rightarrow> defaultRegisterExpires))"

definition contactWithExpires :: "string \<Rightarrow> int \<Rightarrow> string" where
  "contactWithExpires contact expires =
     (case splitContact contact of (uri, params) \<Rightarrow>
        let kept = filter (\<lambda>p. \<not> param_named ''expires'' p) params @ [''expires='' @ itoa expires]
        in uri @ '';'' @ join_with '';'' kept)"

definition extractContactURI :: "string \<Rightarrow> string \<Rightarrow> string" where
  "extractContactURI value0 fallback =
     (let value = trim_space value0 in
      if value = [] then fallback
      else (case (index_byte value CHR ''<'', index_byte value CHR ''>'') of
              (Some s, Some e) \<Rightarrow>
                if e > s then drop (s + 1) (take e value)
                else (case index_byte value CHR '';'' of
                        Some i \<Rightarrow> trim_space (take i value) | None \<Rightarrow> value)
            | _ \<Rightarrow> (case index_byte value CHR '';'' of
                     Some i \<Rightarrow> trim_space (take i value) | None \<Rightarrow> value)))"

definition headerValue :: "request \<Rightarrow> string \<Rightarrow> string" where
  "headerValue r name = (case get_header (rq_headers r) name of Some h \<Rightarrow> hdr_value h | None \<Rightarrow> [])"

definition parseContactURI :: "string \<Rightarrow> uri option" where
  "parseContactURI raw =
     (let t0 = trim_space raw in
      if t0 = [] then None
      else
        let t1 = trim_set {CHR ''<'', CHR ''>''} t0;
            t2 = trim_prefix (trim_prefix t1 ''sip:'') ''sips:'';
            t3 = (case index_byte t2 CHR '';'' of Some i \<Rightarrow> take i t2 | None \<Rightarrow> t2)
        in if t3 = [] then None
           else
             let (user, hostPort) =
                   (case last_index_byte t3 CHR ''@'' of
                      Some at \<Rightarrow> (take at t3, drop (Suc at) t3)
                    | None \<Rightarrow> ([], t3));
                 (host, port) =
                   (case last_index_byte hostPort CHR '':'' of
                      Some i \<Rightarrow>
                        if contains_str (drop (Suc i) hostPort) '']'' then (hostPort, 0)
                        else (case atoi_ok (drop (Suc i) hostPort) of
                                Some n \<Rightarrow> (take i hostPort, n)
                              | None \<Rightarrow> (hostPort, 0))
                    | None \<Rightarrow> (hostPort, 0))
             in Some (mk_uri user host port))"

definition shouldRewriteContactHost :: "string \<Rightarrow> bool" where
  "shouldRewriteContactHost host \<longleftrightarrow>
     to_lower host \<in> {[], ''localhost'', ''127.0.0.1'', ''0.0.0.0''}"

definition hostPortFromAddr :: "string \<Rightarrow> string \<times> int" where
  "hostPortFromAddr addr =
     (case split_on CHR '':'' addr of
        [] \<Rightarrow> ([], 0)
      | [host] \<Rightarrow> (host, 0)
      | host # rest \<Rightarrow> (host, fst (atoi (last rest))))"

definition normalizedContactHeaderValue :: "sipgo \<Rightarrow> header option \<Rightarrow> string \<Rightarrow> string" where
  "normalizedContactHeaderValue S hdr destAddr =
     (case hdr of
        None \<Rightarrow> []
      | Some h \<Rightarrow>
          if destAddr = [] then []
          else
            let raw = extractContactURI (hdr_value h) [] in
            if raw = [] then []
            else (case parseContactURI raw of
                    None \<Rightarrow> []
                  | Some u \<Rightarrow>
                      if \<not> shouldRewriteContactHost (uri_host u) then []
                      else (case hostPortFromAddr destAddr of (host, port) \<Rightarrow>
                              if host = [] then []
                              else
                                let u1 = u\<lparr>uri_host := host\<rparr>;
                                    u2 = (if port > 0 then u1\<lparr>uri_port := port\<rparr> else u1)
                                in ''<'' @ sg_uri_text S u2 @ ''>'')))"

text \<open>\<^verbatim>\<open>requestContactURI\<close> and \<^verbatim>\<open>responseContactURI\<close>: the same code on a
  request's and a response's headers.\<close>

definition requestContactURI :: "sipgo \<Rightarrow> request \<Rightarrow> uri \<Rightarrow> string" where
  "requestContactURI S r fallback =
     (case get_header (rq_headers r) ''Contact'' of
        Some h \<Rightarrow> extractContactURI (hdr_value h) (sg_uri_text S fallback)
      | None \<Rightarrow> sg_uri_text S fallback)"

definition responseContactURI :: "sipgo \<Rightarrow> response \<Rightarrow> uri \<Rightarrow> string" where
  "responseContactURI S r fallback =
     (case get_header (rs_headers r) ''Contact'' of
        Some h \<Rightarrow> extractContactURI (hdr_value h) (sg_uri_text S fallback)
      | None \<Rightarrow> sg_uri_text S fallback)"

section \<open>Hosts, ports and transports\<close>

definition parsePort :: "string \<Rightarrow> int" where
  "parsePort addr =
     (case split_host_port addr of
        None \<Rightarrow> 5060
      | Some (h, p) \<Rightarrow> (case atoi_ok p of Some n \<Rightarrow> n | None \<Rightarrow> 5060))"

text \<open>\<^verbatim>\<open>strings.Split(addr, ":")[0]\<close> and the URI the code builds from an address.\<close>

definition addr_uri :: "string \<Rightarrow> string \<Rightarrow> uri" where
  "addr_uri user addr = mk_uri user (hd (split_on CHR '':'' addr)) (parsePort addr)"

definition stripSIPPrefix :: "string \<Rightarrow> string" where
  "stripSIPPrefix u =
     (let dest = trim_prefix (trim_prefix u ''sip:'') ''sips:''
      in if contains_str dest '':'' then dest else dest @ '':5060'')"

text \<open>\<open>lookup\<close> is \<^verbatim>\<open>net.LookupHost\<close>, \<open>None\<close> its error.\<close>

definition resolveHost :: "(string \<Rightarrow> string list option) \<Rightarrow> string \<Rightarrow> string" where
  "resolveHost lookup hostPort =
     (let parts = split2_on CHR '':'' hostPort;
          host = hd parts;
          port = (case parts of [h, p] \<Rightarrow> p | _ \<Rightarrow> ''5060'')
      in case lookup host of
           None \<Rightarrow> hostPort
         | Some [] \<Rightarrow> hostPort
         | Some (a # as) \<Rightarrow> a @ '':'' @ port)"

definition splitHostPort :: "string \<Rightarrow> int \<Rightarrow> string \<times> int" where
  "splitHostPort hostPort defaultPort =
     (case split2_on CHR '':'' hostPort of
        [h, p] \<Rightarrow> (case atoi_ok p of Some n \<Rightarrow> (h, n) | None \<Rightarrow> (h, defaultPort))
      | parts \<Rightarrow> (hd parts, defaultPort))"

definition isUDP :: "string \<Rightarrow> bool" where
  "isUDP transport \<longleftrightarrow> equal_fold transport ''udp''"

definition isWebRTCTransport :: "string \<Rightarrow> bool" where
  "isWebRTCTransport transport \<longleftrightarrow> to_lower transport \<in> {''ws'', ''wss''}"

definition isWebRTCSDP :: "string \<Rightarrow> bool" where
  "isWebRTCSDP body \<longleftrightarrow> contains_str body ''RTP/SAVPF'' \<or> contains_str body ''RTP/SAVP''
     \<or> contains_str body ''UDP/TLS/RTP/SAVPF''"

definition spoofCacheKey :: "string \<Rightarrow> string \<Rightarrow> string" where
  "spoofCacheKey callID user = callID @ ''::'' @ user"

definition containsString :: "string list \<Rightarrow> string \<Rightarrow> bool" where
  "containsString values candidate \<longleftrightarrow> list_ex (\<lambda>v. v = candidate) values"

definition sourceIPFromRequest :: "request \<Rightarrow> string" where
  "sourceIPFromRequest r =
     (if rq_source r = [] then []
      else (case split_host_port (rq_source r) of Some (h, p) \<Rightarrow> h | None \<Rightarrow> rq_source r))"

definition tooManyHops :: "request \<Rightarrow> bool" where
  "tooManyHops r = (case rq_max_forwards r of Some n \<Rightarrow> n \<le> 0 | None \<Rightarrow> False)"

definition isGlobalFailure :: "int \<Rightarrow> bool" where
  "isGlobalFailure code \<longleftrightarrow> 600 \<le> code \<and> code < 700"

definition isIPAllowed :: "string \<Rightarrow> string list \<Rightarrow> bool" where
  "isIPAllowed sourceIP allowedCIDRs =
     (if allowedCIDRs = [] then False
      else (case parse_ip sourceIP of
              None \<Rightarrow> False
            | Some a \<Rightarrow> list_ex (\<lambda>cidr. case parse_cidr cidr of
                                  None \<Rightarrow> False | Some network \<Rightarrow> net_contains network a)
                          allowedCIDRs))"

section \<open>The lifetime granted is the lifetime read back\<close>

text \<open>Whether the end of a string lies inside quotes, and whether no semicolon of it lies
  outside them.\<close>

fun quoted_after :: "bool \<Rightarrow> string \<Rightarrow> bool" where
  "quoted_after q [] \<longleftrightarrow> q"
| "quoted_after q (c # cs) \<longleftrightarrow> quoted_after (if c = CHR 0x22 then \<not> q else q) cs"

fun no_sep :: "bool \<Rightarrow> string \<Rightarrow> bool" where
  "no_sep q [] \<longleftrightarrow> True"
| "no_sep q (c # cs) \<longleftrightarrow> (if c = CHR 0x22 then no_sep (\<not> q) cs else (c = CHR '';'' \<longrightarrow> q) \<and> no_sep q cs)"

text \<open>A single parameter as the splitting leaves it.\<close>

definition param_ok :: "string \<Rightarrow> bool" where
  "param_ok p \<longleftrightarrow> p \<noteq> [] \<and> trim_space p = p \<and> no_sep False p \<and> \<not> quoted_after False p"

text \<open>A Contact in ASCII whose angle bracket is closed and whose quotes are balanced.\<close>

definition contact_wf :: "string \<Rightarrow> bool" where
  "contact_wf c \<longleftrightarrow> list_all ascii c \<and>
     (case contact_parts (trim_space c) of
        None \<Rightarrow> False
      | Some (addr, rest) \<Rightarrow> \<not> quoted_after False rest)"

lemma quoted_after_append: "quoted_after q (a @ b) = quoted_after (quoted_after q a) b"
  by (induction a arbitrary: q) auto

lemma no_sep_append: "no_sep q (a @ b) \<longleftrightarrow> no_sep q a \<and> no_sep (quoted_after q a) b"
  by (induction a arbitrary: q) auto

lemma quoted_after_noquote: "CHR 0x22 \<notin> set a \<Longrightarrow> quoted_after q a = q"
  by (induction a arbitrary: q) auto

lemma no_sep_plain: "CHR 0x22 \<notin> set a \<Longrightarrow> CHR '';'' \<notin> set a \<Longrightarrow> no_sep q a"
  by (induction a arbitrary: q) auto

lemma contact_params_no_sep:
  "no_sep q a \<Longrightarrow> contact_params q cur (a @ b) = contact_params (quoted_after q a) (cur @ a) b"
  by (induction a arbitrary: q cur) (auto split: if_splits)

lemma trim_keeps_param:
  assumes "no_sep False cur" "\<not> quoted_after False cur" "trim_space cur \<noteq> []"
  shows "param_ok (trim_space cur)"
proof -
  obtain a b where cur: "cur = a @ trim_space cur @ b"
    and ab: "\<forall>c \<in> set a \<union> set b. \<not> printable c"
    using trim_space_cuts by blast
  have "printable CHR 0x22" by (simp add: printable_def ascii_def ascii_space_def)
  with ab have "CHR 0x22 \<notin> set a" "CHR 0x22 \<notin> set b" by blast+
  then have q: "quoted_after False (a @ t @ b) = quoted_after False t"
    and n: "no_sep False (a @ t @ b) \<Longrightarrow> no_sep False t" for t
    by (simp_all add: quoted_after_append no_sep_append quoted_after_noquote)
  from assms(1,2) have "no_sep False (a @ trim_space cur @ b)"
    "\<not> quoted_after False (a @ trim_space cur @ b)"
    by (simp_all add: cur [symmetric])
  with assms(3) show ?thesis
    unfolding param_ok_def q by (simp add: n)
qed

lemma contact_params_ok:
  "no_sep False cur \<Longrightarrow> quoted_after False cur = q \<Longrightarrow> \<not> quoted_after q s
     \<Longrightarrow> list_all param_ok (contact_params q cur s)"
proof (induction q cur s rule: contact_params.induct)
  case (1 quoted cur)
  then show ?case by (auto simp: flush_param_def Let_def trim_keeps_param)
next
  case (2 quoted cur c cs)
  show ?case
  proof (cases "c = CHR 0x22 \<or> c \<noteq> CHR '';'' \<or> quoted")
    case True
    then have "no_sep False (cur @ [c])"
      and "quoted_after False (cur @ [c]) = (if c = CHR 0x22 then \<not> quoted else quoted)"
      using "2.prems" by (auto simp: no_sep_append quoted_after_append)
    with True 2 show ?thesis by (auto split: if_splits)
  next
    case False
    with 2 have "list_all param_ok (contact_params False [] cs)" by simp
    moreover have "list_all param_ok (flush_param cur)"
      using False "2.prems" by (auto simp: flush_param_def Let_def trim_keeps_param)
    ultimately show ?thesis using False by simp
  qed
qed

lemma contact_params_join:
  "list_all param_ok ps \<Longrightarrow> ps \<noteq> [] \<Longrightarrow> contact_params False [] (join_with '';'' ps) = ps"
proof (induction ps)
  case Nil
  then show ?case by simp
next
  case (Cons p ps)
  then have p: "param_ok p" by simp
  then have flush: "flush_param p = [p]" by (simp add: param_ok_def flush_param_def)
  show ?case
  proof (cases ps)
    case Nil
    with p flush show ?thesis
      using contact_params_no_sep [of False p "[]" "[]"] by (simp add: param_ok_def)
  next
    case (Cons r rs)
    with Cons.IH Cons.prems have "contact_params False [] (join_with '';'' ps) = ps" by simp
    with p flush Cons show ?thesis
      using contact_params_no_sep [of False p "[]" "CHR '';'' # join_with '';'' ps"]
      by (simp add: param_ok_def)
  qed
qed

lemma contact_params_subset: "p \<in> set (contact_params q cur s) \<Longrightarrow> set p \<subseteq> set cur \<union> set s"
proof (induction q cur s rule: contact_params.induct)
  case (1 quoted cur)
  then show ?case using set_trim_space [of cur] by (auto simp: flush_param_def Let_def split: if_splits)
next
  case (2 quoted cur c cs)
  then show ?case
    using set_trim_space [of cur] by (fastforce simp: flush_param_def Let_def split: if_splits)
qed

lemma contact_parts_SomeD:
  assumes "contact_parts t = Some (addr, rest)"
  shows "t = addr @ rest"
    and "(\<exists>x z. addr = x @ CHR ''<'' # z @ ''>'' \<and> CHR ''<'' \<notin> set x \<and> CHR ''>'' \<notin> set z)
       \<or> (CHR ''<'' \<notin> set t \<and> CHR '';'' \<notin> set addr)"
proof -
  have "t = addr @ rest \<and> ((\<exists>x z. addr = x @ CHR ''<'' # z @ ''>'' \<and> CHR ''<'' \<notin> set x \<and> CHR ''>'' \<notin> set z)
       \<or> (CHR ''<'' \<notin> set t \<and> CHR '';'' \<notin> set addr))"
  proof (cases "index_byte t CHR ''<''")
    case None
    show ?thesis
    proof (cases "index_byte t CHR '';''")
      case None
      with \<open>index_byte t CHR ''<'' = None\<close> assms show ?thesis by (auto simp: contact_parts_def)
    next
      case (Some i)
      with index_byte_split [OF Some] \<open>index_byte t CHR ''<'' = None\<close> assms
      show ?thesis by (auto simp: contact_parts_def)
    qed
  next
    case (Some start)
    then obtain x y where t: "t = x @ CHR ''<'' # y" "length x = start" "CHR ''<'' \<notin> set x"
      using index_byte_split by blast
    with Some assms obtain e where e: "index_byte (CHR ''<'' # y) CHR ''>'' = Some e"
      by (auto simp: contact_parts_def split: option.splits)
    then obtain z r where y: "y = z @ CHR ''>'' # r" "e = Suc (length z)" "CHR ''>'' \<notin> set z"
      using index_byte_split [of y "CHR ''>''" "e - 1"] by (fastforce split: if_splits)
    from Some assms e t y have "addr = x @ CHR ''<'' # z @ ''>''" "rest = r"
      by (auto simp: contact_parts_def)
    with t y show ?thesis by auto
  qed
  then show "t = addr @ rest"
    and "(\<exists>x z. addr = x @ CHR ''<'' # z @ ''>'' \<and> CHR ''<'' \<notin> set x \<and> CHR ''>'' \<notin> set z)
       \<or> (CHR ''<'' \<notin> set t \<and> CHR '';'' \<notin> set addr)" by blast+
qed

lemma contact_parts_angle:
  assumes "CHR ''<'' \<notin> set x" "CHR ''>'' \<notin> set z"
  shows "contact_parts ((x @ CHR ''<'' # z @ ''>'') @ r) = Some (x @ CHR ''<'' # z @ ''>'', r)"
proof -
  have "index_byte (x @ CHR ''<'' # (z @ CHR ''>'' # r)) CHR ''<'' = Some (length x)"
    using assms(1) by (rule index_byte_append)
  moreover have "index_byte ((CHR ''<'' # z) @ CHR ''>'' # r) CHR ''>'' = Some (Suc (length z))"
    using index_byte_append [of "CHR ''>''" "CHR ''<'' # z" r] assms(2) by simp
  ultimately show ?thesis by (simp add: contact_parts_def)
qed

lemma contact_parts_plain:
  assumes "CHR ''<'' \<notin> set addr" "CHR ''<'' \<notin> set r" "CHR '';'' \<notin> set addr"
  shows "contact_parts (addr @ CHR '';'' # r) = Some (addr, CHR '';'' # r)"
  using assms by (simp add: contact_parts_def index_byte_append)

lemma expires_param_ok: "0 \<le> e \<Longrightarrow> param_ok (''expires='' @ itoa e)"
proof -
  assume e: "0 \<le> e"
  let ?p = "''expires='' @ itoa e"
  have "printable (hd ?p)" by (simp add: printable_def ascii_def ascii_space_def)
  moreover have "printable (last ?p)"
    using e itoa_printable [OF e, of "last (itoa e)"] by simp
  ultimately have "trim_space ?p = ?p" by (intro trim_space_id) simp_all
  moreover have "CHR 0x22 \<notin> set ?p" "CHR '';'' \<notin> set ?p"
    using itoa_no [OF e] by simp_all
  then have "no_sep False ?p" "\<not> quoted_after False ?p"
    using no_sep_plain quoted_after_noquote by auto
  ultimately show ?thesis by (simp add: param_ok_def)
qed

lemma expires_param_read:
  assumes "fits64 e" "0 \<le> e"
  shows "param_named ''expires'' (''expires='' @ itoa e)"
    and "nonneg_int (trim_set {CHR 0x22} (trim_space (fst (snd (cut_on CHR ''='' (''expires='' @ itoa e))))))
       = Some e"
proof -
  have cut: "cut_on CHR ''='' (''expires='' @ itoa e) = (''expires'', itoa e, True)"
    using cut_on_append [of "CHR ''=''" "''expires''" "itoa e"] by simp
  have "trim_space ''expires'' = ''expires''"
    by (rule trim_space_id) (simp_all add: printable_def ascii_def ascii_space_def)
  then show "param_named ''expires'' (''expires='' @ itoa e)"
    unfolding param_named_def cut by simp
  have "trim_space (itoa e) = itoa e"
    using assms(2) by (intro trim_space_id) (simp_all add: itoa_printable)
  moreover have "trim_set {CHR 0x22} (itoa e) = itoa e"
    using itoa_no [OF assms(2), of "CHR 0x22"] by (intro trim_set_id) auto
  ultimately show "nonneg_int (trim_set {CHR 0x22}
      (trim_space (fst (snd (cut_on CHR ''='' (''expires='' @ itoa e)))))) = Some e"
    using assms unfolding cut by (simp add: nonneg_int_def atoi_ok_itoa)
qed

lemma find_after: "\<forall>x \<in> set xs. \<not> P x \<Longrightarrow> find P (xs @ ys) = find P ys"
  by (induction xs) auto

text \<open>The Contact value that answers a REGISTER, taken apart again.\<close>

lemma splitContact_granted:
  assumes wf: "contact_wf contact" and e: "0 \<le> e" and sp: "splitContact contact = (addr, params)"
  defines "kept \<equiv> filter (\<lambda>p. \<not> param_named ''expires'' p) params @ [''expires='' @ itoa e]"
  shows "splitContact (contactWithExpires contact e) = (addr, kept)"
proof -
  let ?t = "trim_space contact"
  let ?j = "join_with '';'' kept"
  from wf obtain a rest where parts: "contact_parts ?t = Some (a, rest)"
    and asc: "list_all ascii contact" and bal: "\<not> quoted_after False rest"
    by (auto simp: contact_wf_def split: option.splits)
  from asc set_trim_space [of contact] have asct: "\<forall>c \<in> set ?t. ascii c"
    by (auto simp: list_all_iff)
  note t = contact_parts_SomeD(1) [OF parts]
  from asct have asca: "list_all ascii a" and ascr: "list_all ascii rest"
    unfolding t by (simp_all add: list_all_iff)
  have ps: "addr = trim_space a" "params = contact_params False [] rest"
    using sp parts range_text_ascii [OF ascr] by (simp_all add: splitContact_def)
  have okk: "list_all param_ok kept" "kept \<noteq> []"
    using contact_params_ok [of "[]" False rest] bal expires_param_ok [OF e]
    by (auto simp: kept_def ps(2) list_all_iff)
  have in_kept: "p = ''expires='' @ itoa e \<or> set p \<subseteq> set rest" if "p \<in> set kept" for p
    using that contact_params_subset [of p False "[]" rest] by (auto simp: kept_def ps(2))
  let ?r = "addr @ CHR '';'' # ?j"
  have granted: "contactWithExpires contact e = ?r"
    by (simp add: contactWithExpires_def sp kept_def Let_def)
  have asce: "\<forall>c \<in> set (''expires='' @ itoa e). ascii c"
    using itoa_printable [OF e] by (auto simp: printable_def ascii_def)
  have ascj: "\<forall>c \<in> set ?j. ascii c"
    using set_join_with [of "'';''" kept] in_kept asce ascr by (fastforce simp: list_all_iff ascii_def)
  have "printable (last ?j)"
    using e itoa_printable [OF e, of "last (itoa e)"]
    by (simp add: kept_def join_with_snoc_last)
  moreover have "?j \<noteq> []" by (simp add: kept_def join_with_snoc_not_Nil)
  ultimately have "printable (last ?r)" by simp
  moreover have "printable (hd ?r)"
  proof (cases "addr = []")
    case True
    then show ?thesis by (simp add: printable_def ascii_def ascii_space_def)
  next
    case False
    with ascii_trimmed_ends(1) [OF asca] ps(1) show ?thesis by simp
  qed
  ultimately have trimmed: "trim_space ?r = ?r" by (intro trim_space_id) simp_all
  have "contact_parts ?r = Some (addr, CHR '';'' # ?j)"
    using contact_parts_SomeD(2) [OF parts]
  proof
    assume "\<exists>x z. a = x @ CHR ''<'' # z @ ''>'' \<and> CHR ''<'' \<notin> set x \<and> CHR ''>'' \<notin> set z"
    then obtain x z where a: "a = x @ CHR ''<'' # z @ ''>''"
      and xz: "CHR ''<'' \<notin> set x" "CHR ''>'' \<notin> set z" by blast
    have "?t \<noteq> []" using t a by simp
    then have "printable (hd ?t)" using ascii_trimmed_ends(1) [OF asc] by simp
    moreover have "hd ?t = hd a" using t a by (cases x) simp_all
    moreover have "printable (last a)" by (simp add: a printable_def ascii_def ascii_space_def)
    ultimately have "trim_space a = a" using a by (intro trim_space_id) simp_all
    with contact_parts_angle [OF xz, of "CHR '';'' # ?j"] show ?thesis by (simp add: ps(1) a)
  next
    assume no: "CHR ''<'' \<notin> set ?t \<and> CHR '';'' \<notin> set a"
    then have rest: "CHR ''<'' \<notin> set rest" and "CHR ''<'' \<notin> set a" by (simp_all add: t)
    with no set_trim_space [of a] have "CHR ''<'' \<notin> set addr" "CHR '';'' \<notin> set addr"
      by (auto simp: ps(1))
    moreover have "CHR ''<'' \<notin> set (''expires='' @ itoa e)" using itoa_no [OF e] by simp
    with rest in_kept set_join_with [of "'';''" kept] have "CHR ''<'' \<notin> set ?j" by fastforce
    ultimately show ?thesis by (intro contact_parts_plain)
  qed
  moreover have "range_text (CHR '';'' # ?j) = CHR '';'' # ?j"
    using ascj by (intro range_text_ascii) (simp add: list_all_iff ascii_def)
  moreover have "contact_params False [] (CHR '';'' # ?j) = kept"
    using contact_params_join [OF okk] by (simp add: flush_param_def)
  moreover have "trim_space addr = addr" by (simp add: ps(1))
  ultimately show ?thesis
    unfolding granted splitContact_def trimmed by simp
qed

text \<open>
  Property (C31). The lifetime the registrar grants survives its trip to the client and back: read from the
  Contact value that answers a REGISTER, whatever Expires header comes with it, it is the
  number that was written, for every ASCII Contact value with balanced angle brackets and
  quotes (\<open>contact_wf\<close>), whatever parameters it carries.
\<close>

theorem register_expires_granted:
  assumes "contact_wf contact" "0 \<le> e" "fits64 e"
  shows "registerExpires (contactWithExpires contact e) h = e"
proof -
  obtain addr params where sp: "splitContact contact = (addr, params)" by fastforce
  let ?x = "''expires='' @ itoa e"
  have "find (param_named ''expires'') (filter (\<lambda>p. \<not> param_named ''expires'' p) params @ [?x]) = Some ?x"
    using expires_param_read(1) [OF assms(3,2)] by (subst find_after) simp_all
  then have "Option.bind (contactParam (contactWithExpires contact e) ''expires'') nonneg_int = Some e"
    using splitContact_granted [OF assms(1,2) sp] expires_param_read(2) [OF assms(3,2)]
    by (simp add: contactParam_def)
  then show ?thesis by (simp add: registerExpires_def)
qed

lemma register_expires_granted_witness:
  "registerExpires (contactWithExpires ''<sip:6001@10.0.0.7;ob>;expires=3600;q=1'' 600) ''1800'' = 600"
  by (rule register_expires_granted) code_simp+

end
