(* ===== verification/Registrar.thy ===== *)
theory Registrar
  imports Sip_Address
begin

text \<open>
  The registrar (\<^verbatim>\<open>sbc/registrar.go\<close>) and the part of the NAT keepalive that works
  on it (\<^verbatim>\<open>sbc/nat_keepalive.go\<close>): contacts per address of record, kept under one
  mutex, so each operation is one step on the map. \<open>reg_ok\<close> is the invariant (an address
  of record holds at most one contact per source address); \<open>reg_abs\<close> forgets the order of
  the contacts, and every operation refines an operation on that abstract map
  (\<open>reg_refines\<close>), through the contract \<open>contact_store\<close>.
\<close>

section \<open>Contacts\<close>

record contact =
  ct_URI :: string
  ct_Address :: string
  ct_Transport :: string
  ct_IsWebRTC :: bool
  ct_ExpiresAt :: instant
  ct_NAT :: bool
  ct_missedPings :: int

type_synonym registrar = "(string, contact list) gomap"

abbreviation live_at :: "instant \<Rightarrow> contact \<Rightarrow> bool" where
  "live_at now c \<equiv> now < ct_ExpiresAt c"

abbreviation at_address :: "string \<Rightarrow> contact \<Rightarrow> bool" where
  "at_address address c \<equiv> ct_Address c = address"

section \<open>Operations of the registrar\<close>

text \<open>The loop of \<^verbatim>\<open>Register\<close>: replace the contact with the same address, or append.\<close>

fun replace_or_append :: "contact \<Rightarrow> contact list \<Rightarrow> contact list" where
  "replace_or_append c [] = [c]"
| "replace_or_append c (x # xs) =
     (if ct_Address x = ct_Address c then c # xs else x # replace_or_append c xs)"

definition Register :: "string \<Rightarrow> contact \<Rightarrow> registrar \<Rightarrow> registrar" where
  "Register aor c r = gm_set aor (replace_or_append c (gm_list r aor)) r"

definition Unregister :: "string \<Rightarrow> registrar \<Rightarrow> registrar" where
  "Unregister aor r = gm_del aor r"

definition UnregisterContact :: "string \<Rightarrow> string \<Rightarrow> registrar \<Rightarrow> registrar" where
  "UnregisterContact aor address r =
     (if list_ex (at_address address) (gm_list r aor)
      then gm_set aor (remove_first (at_address address) (gm_list r aor)) r
      else r)"

definition LookupAll :: "instant \<Rightarrow> registrar \<Rightarrow> string \<Rightarrow> contact list" where
  "LookupAll now r aor = filter (live_at now) (gm_list r aor)"

definition LookupByType :: "instant \<Rightarrow> registrar \<Rightarrow> string \<Rightarrow> bool \<Rightarrow> contact list" where
  "LookupByType now r aor webrtc = filter (\<lambda>c. ct_IsWebRTC c = webrtc) (LookupAll now r aor)"

definition IsRegistered :: "instant \<Rightarrow> registrar \<Rightarrow> string \<Rightarrow> bool" where
  "IsRegistered now r aor \<longleftrightarrow> length (LookupAll now r aor) > 0"

definition HasSourceIP :: "instant \<Rightarrow> registrar \<Rightarrow> string \<Rightarrow> bool" where
  "HasSourceIP now r addr \<longleftrightarrow>
     list_ex (\<lambda>(aor, cs). list_ex (\<lambda>c. case split_host_port (ct_Address c) of
                                          Some (host, port) \<Rightarrow> host = addr \<and> live_at now c
                                        | None \<Rightarrow> False) cs) r"

text \<open>\<^verbatim>\<open>reap\<close>: the addresses of record left with no contact, and what remains.\<close>

definition reap :: "instant \<Rightarrow> registrar \<Rightarrow> string list \<times> registrar" where
  "reap now r =
     (map fst (filter (\<lambda>(aor, cs). filter (live_at now) cs = []) r),
      map (\<lambda>(aor, cs). (aor, filter (live_at now) cs))
        (filter (\<lambda>(aor, cs). filter (live_at now) cs \<noteq> []) r))"

section \<open>The keepalive's operations\<close>

definition find_contact :: "registrar \<Rightarrow> string \<Rightarrow> string \<Rightarrow> contact option" where
  "find_contact r aor address = find (at_address address) (gm_list r aor)"

fun update_first :: "('a \<Rightarrow> bool) \<Rightarrow> ('a \<Rightarrow> 'a) \<Rightarrow> 'a list \<Rightarrow> 'a list" where
  "update_first P f [] = []"
| "update_first P f (x # xs) = (if P x then f x # xs else x # update_first P f xs)"

definition pingAnswered :: "string \<Rightarrow> string \<Rightarrow> registrar \<Rightarrow> registrar" where
  "pingAnswered aor address r =
     (case find_contact r aor address of
        None \<Rightarrow> r
      | Some c \<Rightarrow> gm_set aor (update_first (at_address address) (\<lambda>c. c\<lparr>ct_missedPings := 0\<rparr>) (gm_list r aor)) r)"

definition pingMissed :: "string \<Rightarrow> string \<Rightarrow> int \<Rightarrow> registrar \<Rightarrow> bool \<times> registrar" where
  "pingMissed aor address maxMissed r =
     (case find_contact r aor address of
        None \<Rightarrow> (False, r)
      | Some c \<Rightarrow>
          let missed = ct_missedPings c + 1 in
          if missed < maxMissed then
            (False, gm_set aor (update_first (at_address address) (\<lambda>c. c\<lparr>ct_missedPings := missed\<rparr>) (gm_list r aor)) r)
          else
            let kept = remove_first (at_address address) (gm_list r aor) in
            if kept = [] then (True, gm_del aor r) else (False, gm_set aor kept r))"

record natContact =
  nc_aor :: string
  nc_uri :: uri
  nc_address :: string

definition natContacts :: "sipgo \<Rightarrow> instant \<Rightarrow> registrar \<Rightarrow> natContact list" where
  "natContacts S now r =
     concat (map (\<lambda>(aor, cs).
       concat (map (\<lambda>c. if \<not> ct_NAT c \<or> \<not> live_at now c then []
                         else (case sg_parse_uri S (ct_URI c) of
                                 None \<Rightarrow> []
                               | Some u \<Rightarrow> [\<lparr>nc_aor = aor, nc_uri = u, nc_address = ct_Address c\<rparr>])) cs)) r)"

definition behindNAT :: "sipgo \<Rightarrow> string \<Rightarrow> string \<Rightarrow> bool" where
  "behindNAT S contactURI source =
     (case sg_parse_uri S contactURI of
        None \<Rightarrow> True
      | Some u \<Rightarrow>
          (case split_host_port source of
             None \<Rightarrow> True
           | Some (host, port) \<Rightarrow>
               let contactPort = (if uri_port u = 0 then 5060 else uri_port u)
               in uri_host u \<noteq> host \<or> itoa contactPort \<noteq> port))"

section \<open>The invariant\<close>

definition reg_ok :: "registrar \<Rightarrow> bool" where
  "reg_ok r \<longleftrightarrow> gm_ok r \<and> (\<forall>aor. distinct (map ct_Address (gm_list r aor)))"

text \<open>What is kept, without the order: the contact of an address of record at an address.\<close>

definition reg_abs :: "registrar \<Rightarrow> string \<Rightarrow> string \<Rightarrow> contact option" where
  "reg_abs r aor address = find_contact r aor address"

lemma find_at_address_filter:
  "find (at_address a) (filter P cs) = Some c \<Longrightarrow> c \<in> set cs \<and> P c \<and> at_address a c"
  by (auto dest: find_SomeD)

lemma find_at_address_distinct:
  "distinct (map ct_Address cs) \<Longrightarrow> find (at_address a) cs = Some c \<longleftrightarrow> c \<in> set cs \<and> ct_Address c = a"
  by (induction cs) (auto simp: image_iff)

lemma set_replace_or_append:
  "distinct (map ct_Address cs) \<Longrightarrow>
     set (replace_or_append c cs) = insert c {x \<in> set cs. ct_Address x \<noteq> ct_Address c}"
  by (induction cs) (auto simp: image_iff)

lemma addresses_replace_or_append:
  "map ct_Address (replace_or_append c cs) =
     (if ct_Address c \<in> ct_Address ` set cs then map ct_Address cs else map ct_Address cs @ [ct_Address c])"
  by (induction cs) auto

lemma distinct_replace_or_append:
  "distinct (map ct_Address cs) \<Longrightarrow> distinct (map ct_Address (replace_or_append c cs))"
  by (simp add: addresses_replace_or_append)

lemma addresses_update_first:
  "(\<And>x. ct_Address (f x) = ct_Address x) \<Longrightarrow> map ct_Address (update_first P f cs) = map ct_Address cs"
  by (induction cs) auto

lemma find_update_first:
  "(\<And>x. ct_Address (f x) = ct_Address x) \<Longrightarrow>
     find (at_address a) (update_first (at_address b) f cs) =
       (if a = b then map_option f (find (at_address a) cs) else find (at_address a) cs)"
  by (induction cs) auto

lemma find_remove_first:
  "distinct (map ct_Address cs) \<Longrightarrow>
     find (at_address a) (remove_first (at_address b) cs) = (if a = b then None else find (at_address a) cs)"
proof (induction cs)
  case Nil
  then show ?case by simp
next
  case (Cons x cs)
  have "find (at_address a) cs = None" if "a \<notin> ct_Address ` set cs"
    using that by (auto simp: find_None_iff)
  with Cons show ?case by auto
qed

lemma find_replace_or_append:
  "find (at_address a) (replace_or_append c cs) =
     (if a = ct_Address c then Some c else find (at_address a) cs)"
  by (induction cs) auto

lemma reg_okI_set:
  "reg_ok r \<Longrightarrow> distinct (map ct_Address cs) \<Longrightarrow> reg_ok (gm_set aor cs r)"
  by (simp add: reg_ok_def)

lemma reg_ok_Nil [simp]: "reg_ok []"
  by (simp add: reg_ok_def)

lemma reg_ok_Register: "reg_ok r \<Longrightarrow> reg_ok (Register aor c r)"
  by (simp add: Register_def reg_okI_set distinct_replace_or_append reg_ok_def)

lemma reg_ok_Unregister: "reg_ok r \<Longrightarrow> reg_ok (Unregister aor r)"
  by (simp add: Unregister_def reg_ok_def)

lemma distinct_remove_first:
  "distinct (map ct_Address cs) \<Longrightarrow> distinct (map ct_Address (remove_first (at_address a) cs))"
  by (simp add: remove_first_unique distinct_map_filter)

lemma reg_ok_UnregisterContact: "reg_ok r \<Longrightarrow> reg_ok (UnregisterContact aor a r)"
  by (simp add: UnregisterContact_def reg_okI_set distinct_remove_first reg_ok_def)

lemma reg_ok_pingAnswered: "reg_ok r \<Longrightarrow> reg_ok (pingAnswered aor a r)"
  by (simp add: pingAnswered_def reg_okI_set addresses_update_first reg_ok_def split: option.split)

lemma reg_ok_pingMissed: "reg_ok r \<Longrightarrow> reg_ok (snd (pingMissed aor a m r))"
  by (simp add: pingMissed_def Let_def reg_okI_set addresses_update_first distinct_remove_first
      reg_ok_def split: option.split)

section \<open>Reaping\<close>

lemma gm_list_reap:
  "gm_ok r \<Longrightarrow> gm_list (snd (reap now r)) aor = filter (live_at now) (gm_list r aor)"
proof (induction r)
  case Nil
  then show ?case by (simp add: reap_def)
next
  case (Cons e r)
  obtain a cs where e: "e = (a, cs)" by (cases e)
  with Cons.prems have ok: "gm_ok r" and "gm_get r a = None"
    by (auto simp: gm_ok_def map_of_eq_None_iff)
  then have "gm_list r a = []" by (simp add: gm_list_def)
  with Cons.IH [OF ok] show ?case
    by (auto simp: e reap_def gm_list_def filter_empty_conv)
qed

lemma gm_ok_reap: "gm_ok r \<Longrightarrow> gm_ok (snd (reap now r))"
proof -
  assume ok: "gm_ok r"
  have "map fst (snd (reap now r)) = map fst (filter (\<lambda>(aor, cs). filter (live_at now) cs \<noteq> []) r)"
    by (simp add: reap_def case_prod_unfold)
  with ok show ?thesis by (simp add: gm_ok_def distinct_map_filter)
qed

lemma reg_ok_reap: "reg_ok r \<Longrightarrow> reg_ok (snd (reap now r))"
  by (simp add: reg_ok_def gm_ok_reap gm_list_reap distinct_map_filter)

lemma reap_emptied:
  "gm_ok r \<Longrightarrow> aor \<in> set (fst (reap now r))
     \<longleftrightarrow> gm_get r aor \<noteq> None \<and> LookupAll now r aor = []"
proof -
  assume "gm_ok r"
  then have "aor \<in> set (fst (reap now r))
      \<longleftrightarrow> (\<exists>cs. gm_get r aor = Some cs \<and> filter (live_at now) cs = [])"
    by (auto simp: reap_def gm_get_in_set [symmetric] image_iff simp del: filter_empty_conv)
  then show ?thesis by (auto simp: LookupAll_def gm_list_def simp del: filter_empty_conv)
qed

section \<open>The abstract registrar\<close>

type_synonym contact_map = "string \<Rightarrow> string \<Rightarrow> contact option"

datatype reg_op =
    OpRegister string contact
  | OpUnregister string
  | OpUnregisterContact string string
  | OpReap instant
  | OpPingAnswered string string
  | OpPingMissed string string int

fun reg_step :: "reg_op \<Rightarrow> registrar \<Rightarrow> registrar" where
  "reg_step (OpRegister aor c) r = Register aor c r"
| "reg_step (OpUnregister aor) r = Unregister aor r"
| "reg_step (OpUnregisterContact aor a) r = UnregisterContact aor a r"
| "reg_step (OpReap now) r = snd (reap now r)"
| "reg_step (OpPingAnswered aor a) r = pingAnswered aor a r"
| "reg_step (OpPingMissed aor a m) r = snd (pingMissed aor a m r)"

definition put_contact :: "string \<Rightarrow> string \<Rightarrow> contact option \<Rightarrow> contact_map \<Rightarrow> contact_map" where
  "put_contact aor a c A = A(aor := (A aor)(a := c))"

text \<open>What each operation means: at most one contact per source address, the newest.\<close>

fun spec_step :: "reg_op \<Rightarrow> contact_map \<Rightarrow> contact_map" where
  "spec_step (OpRegister aor c) A = put_contact aor (ct_Address c) (Some c) A"
| "spec_step (OpUnregister aor) A = A(aor := Map.empty)"
| "spec_step (OpUnregisterContact aor a) A = put_contact aor a None A"
| "spec_step (OpReap now) A =
     (\<lambda>aor a. case A aor a of Some c \<Rightarrow> if live_at now c then Some c else None | None \<Rightarrow> None)"
| "spec_step (OpPingAnswered aor a) A =
     put_contact aor a (map_option (\<lambda>c. c\<lparr>ct_missedPings := 0\<rparr>) (A aor a)) A"
| "spec_step (OpPingMissed aor a m) A =
     put_contact aor a
       (case A aor a of
          None \<Rightarrow> None
        | Some c \<Rightarrow> if ct_missedPings c + 1 < m
                    then Some (c\<lparr>ct_missedPings := ct_missedPings c + 1\<rparr>) else None) A"

text \<open>
  The contract the proxy relies on: the store behaves as the abstract map does under every
  operation, whatever its representation.
\<close>

locale contact_store =
  fixes look :: "'s \<Rightarrow> contact_map"
    and step :: "reg_op \<Rightarrow> 's \<Rightarrow> 's"
    and ok :: "'s \<Rightarrow> bool"
  assumes look_step: "ok s \<Longrightarrow> look (step op s) = spec_step op (look s)"
    and ok_step: "ok s \<Longrightarrow> ok (step op s)"
begin

lemma run_ok: "ok s \<Longrightarrow> ok (fold step ops s)"
  by (induction ops arbitrary: s) (simp_all add: ok_step)

lemma run_look: "ok s \<Longrightarrow> look (fold step ops s) = fold spec_step ops (look s)"
  by (induction ops arbitrary: s) (simp_all add: ok_step look_step)

lemma register_read: "ok s \<Longrightarrow> look (step (OpRegister aor c) s) aor (ct_Address c) = Some c"
  by (simp add: look_step put_contact_def)

lemma other_aor_untouched:
  "ok s \<Longrightarrow> aor' \<noteq> aor \<Longrightarrow> look (step (OpRegister aor c) s) aor' = look s aor'"
  "ok s \<Longrightarrow> aor' \<noteq> aor \<Longrightarrow> look (step (OpUnregister aor) s) aor' = look s aor'"
  "ok s \<Longrightarrow> aor' \<noteq> aor \<Longrightarrow> look (step (OpUnregisterContact aor a) s) aor' = look s aor'"
  by (simp_all add: look_step put_contact_def)

end

lemma find_filter_distinct:
  "distinct (map ct_Address cs) \<Longrightarrow>
     find (at_address a) (filter P cs) =
       (case find (at_address a) cs of Some c \<Rightarrow> if P c then Some c else None | None \<Rightarrow> None)"
proof (induction cs)
  case Nil
  then show ?case by simp
next
  case (Cons x cs)
  have "find (at_address a) cs = None" if "a \<notin> ct_Address ` set cs"
    using that by (auto simp: find_None_iff)
  with Cons show ?case by (auto split: option.splits)
qed

lemma remove_first_Nil_other:
  "find (at_address a) cs = Some c \<Longrightarrow> remove_first (at_address a) cs = [] \<Longrightarrow> b \<noteq> a
     \<Longrightarrow> find (at_address b) cs = None"
  by (cases cs) (auto split: if_splits)

lemma reg_abs_pingMissed:
  assumes d: "distinct (map ct_Address (gm_list r aor))"
  shows "reg_abs (snd (pingMissed aor a m r)) = spec_step (OpPingMissed aor a m) (reg_abs r)"
proof (cases "find (at_address a) (gm_list r aor)")
  case None
  then show ?thesis
    by (intro ext) (simp add: reg_abs_def find_contact_def pingMissed_def put_contact_def)
next
  case (Some c)
  let ?kept = "remove_first (at_address a) (gm_list r aor)"
  consider "ct_missedPings c + 1 < m" | "\<not> ct_missedPings c + 1 < m" "?kept = []"
    | "\<not> ct_missedPings c + 1 < m" "?kept \<noteq> []" by blast
  then show ?thesis
  proof cases
    case 1
    with Some show ?thesis
      by (intro ext) (simp add: reg_abs_def find_contact_def pingMissed_def put_contact_def
          find_update_first)
  next
    case 2
    with Some show ?thesis
      by (intro ext) (simp add: reg_abs_def find_contact_def pingMissed_def put_contact_def
          remove_first_Nil_other)
  next
    case 3
    with Some show ?thesis
      by (intro ext) (simp add: reg_abs_def find_contact_def pingMissed_def put_contact_def
          find_remove_first [OF d])
  qed
qed

lemma reg_abs_step:
  assumes "reg_ok r"
  shows "reg_abs (reg_step op r) = spec_step op (reg_abs r)"
proof -
  have d: "distinct (map ct_Address (gm_list r aor))" for aor
    using assms by (simp add: reg_ok_def)
  have ok: "gm_ok r" using assms by (simp add: reg_ok_def)
  show ?thesis
  proof (cases op)
    case (OpRegister aor c)
    then show ?thesis
      by (intro ext) (simp add: reg_abs_def find_contact_def Register_def put_contact_def
          find_replace_or_append)
  next
    case (OpUnregister aor)
    then show ?thesis
      by (intro ext) (simp add: reg_abs_def find_contact_def Unregister_def)
  next
    case (OpUnregisterContact aor a)
    have "find (at_address a) (gm_list r aor) = None" if "\<not> list_ex (at_address a) (gm_list r aor)"
      using that by (auto simp: find_None_iff list_ex_iff)
    with OpUnregisterContact show ?thesis
      by (intro ext) (auto simp: reg_abs_def find_contact_def UnregisterContact_def
          put_contact_def find_remove_first [OF d])
  next
    case (OpReap now)
    then show ?thesis
      by (intro ext) (simp add: reg_abs_def find_contact_def gm_list_reap [OF ok]
          find_filter_distinct [OF d])
  next
    case (OpPingAnswered aor a)
    then show ?thesis
      by (intro ext) (auto simp: reg_abs_def find_contact_def pingAnswered_def put_contact_def
          find_update_first split: option.splits)
  next
    case (OpPingMissed aor a m)
    with reg_abs_pingMissed [OF d] show ?thesis by simp
  qed
qed

lemma reg_ok_step: "reg_ok r \<Longrightarrow> reg_ok (reg_step op r)"
  by (cases op) (simp_all add: reg_ok_Register reg_ok_Unregister reg_ok_UnregisterContact
      reg_ok_reap reg_ok_pingAnswered reg_ok_pingMissed)

interpretation reg: contact_store reg_abs reg_step reg_ok
  by unfold_locales (simp_all add: reg_abs_step reg_ok_step)

lemma reg_abs_Nil: "reg_abs [] = (\<lambda>_ _. None)"
  by (intro ext) (simp add: reg_abs_def find_contact_def)

section \<open>What the registrar guarantees\<close>

abbreviation reg_after :: "reg_op list \<Rightarrow> registrar" where
  "reg_after ops \<equiv> fold reg_step ops []"

text \<open>
  Property (C17). Whatever sequence of registrations, removals, reaps and keepalive results the
  registrar went through from its empty start, it holds exactly the contacts the abstract
  registrar holds (at most one per address of record and source address, the newest; gone
  once unregistered, expired at a reap or silent too often), and no address of record holds
  two contacts of the same source address.
\<close>

theorem registrar_refines_spec:
  "reg_abs (reg_after ops) = fold spec_step ops (\<lambda>_ _. None) \<and> reg_ok (reg_after ops)"
  using reg.run_look [of "[]" ops] reg.run_ok [of "[]" ops] by (simp add: reg_abs_Nil)

lemma reg_ok_after: "reg_ok (reg_after ops)"
  using reg.run_ok [of "[]" ops] by simp

lemma reg_abs_Some:
  "reg_ok r \<Longrightarrow> reg_abs r aor a = Some c \<longleftrightarrow> c \<in> set (gm_list r aor) \<and> ct_Address c = a"
  by (simp add: reg_ok_def reg_abs_def find_contact_def find_at_address_distinct)

text \<open>Operations that do not touch the contact of an address of record at an address, up to an
  instant: no registration or removal of it, no missed ping, no later reap.\<close>

fun leaves_contact :: "string \<Rightarrow> string \<Rightarrow> instant \<Rightarrow> reg_op \<Rightarrow> bool" where
  "leaves_contact aor a t (OpRegister aor' c) \<longleftrightarrow> aor' \<noteq> aor \<or> ct_Address c \<noteq> a"
| "leaves_contact aor a t (OpUnregister aor') \<longleftrightarrow> aor' \<noteq> aor"
| "leaves_contact aor a t (OpUnregisterContact aor' a') \<longleftrightarrow> aor' \<noteq> aor \<or> a' \<noteq> a"
| "leaves_contact aor a t (OpReap now) \<longleftrightarrow> now \<le> t"
| "leaves_contact aor a t (OpPingAnswered aor' a') \<longleftrightarrow> True"
| "leaves_contact aor a t (OpPingMissed aor' a' m) \<longleftrightarrow> aor' \<noteq> aor \<or> a' \<noteq> a"

definition kept_until :: "string \<Rightarrow> string \<Rightarrow> instant \<Rightarrow> bool \<Rightarrow> instant \<Rightarrow> contact_map \<Rightarrow> bool" where
  "kept_until aor a e webrtc t A \<longleftrightarrow>
     (case A aor a of None \<Rightarrow> e \<le> t | Some c \<Rightarrow> ct_ExpiresAt c = e \<and> ct_IsWebRTC c = webrtc)"

lemma kept_until_step:
  "kept_until aor a e webrtc t A \<Longrightarrow> leaves_contact aor a t op \<Longrightarrow> kept_until aor a e webrtc t (spec_step op A)"
  by (cases op) (auto simp: kept_until_def put_contact_def split: option.splits)

lemma kept_until_run:
  "kept_until aor a e webrtc t A \<Longrightarrow> list_all (leaves_contact aor a t) ops \<Longrightarrow>
     kept_until aor a e webrtc t (fold spec_step ops A)"
  by (induction ops arbitrary: A) (simp_all add: kept_until_step)

lemma lookup_kept:
  assumes "reg_ok r" "kept_until aor a e webrtc t (reg_abs r)"
  shows "(\<exists>c \<in> set (LookupByType t r aor w). ct_Address c = a) \<longleftrightarrow> w = webrtc \<and> t < e"
proof -
  have "c \<in> set (LookupByType t r aor w) \<and> ct_Address c = a \<longleftrightarrow>
      reg_abs r aor a = Some c \<and> t < ct_ExpiresAt c \<and> ct_IsWebRTC c = w" for c
    by (auto simp: reg_abs_Some [OF assms(1)] LookupByType_def LookupAll_def)
  then have "(\<exists>c \<in> set (LookupByType t r aor w). ct_Address c = a) \<longleftrightarrow>
      (\<exists>c. reg_abs r aor a = Some c \<and> t < ct_ExpiresAt c \<and> ct_IsWebRTC c = w)" by blast
  then show ?thesis
    by (rule trans) (use assms(2) in \<open>cases "reg_abs r aor a"; auto simp: kept_until_def\<close>)
qed

lemma lookup_registered_later:
  assumes r: "reg_ok r" and ops: "list_all (leaves_contact aor (ct_Address c) t) ops"
  shows "(\<exists>x \<in> set (LookupByType t (fold reg_step ops (Register aor c r)) aor w). ct_Address x = ct_Address c)
    \<longleftrightarrow> w = ct_IsWebRTC c \<and> t < ct_ExpiresAt c"
proof -
  have ok: "reg_ok (Register aor c r)" using reg.ok_step [OF r, of "OpRegister aor c"] by simp
  have "kept_until aor (ct_Address c) (ct_ExpiresAt c) (ct_IsWebRTC c) t (reg_abs (Register aor c r))"
    using reg.register_read [OF r, of aor c] by (simp add: kept_until_def)
  then show ?thesis
    using lookup_kept [OF reg.run_ok [OF ok, of ops]] kept_until_run [OF _ ops] by (simp add: reg.run_look [OF ok])
qed

text \<open>
  The contacts a call from FreeSWITCH is offered to are exactly the kept contacts of the
  address of record that have not expired and have the call's media type, each of them once.
\<close>

theorem lookup_by_type_exact:
  fixes ops :: "reg_op list"
  defines "r \<equiv> reg_after ops"
  shows "(c \<in> set (LookupByType now r aor webrtc)
          \<longleftrightarrow> reg_abs r aor (ct_Address c) = Some c \<and> now < ct_ExpiresAt c \<and> ct_IsWebRTC c = webrtc)
       \<and> distinct (map ct_Address (LookupByType now r aor webrtc))"
proof -
  have ok: "reg_ok r" by (simp add: r_def reg_ok_after)
  then have "distinct (map ct_Address (LookupByType now r aor webrtc))"
    by (simp add: LookupByType_def LookupAll_def reg_ok_def distinct_map_filter)
  then show ?thesis
    by (auto simp: reg_abs_Some [OF ok] LookupByType_def LookupAll_def)
qed

text \<open>
  A reap reports exactly the addresses of record that were stored and have no live contact
  left, each once; afterwards only live contacts remain, none was lost, and reaping again
  at the same instant reports nothing.
\<close>

theorem reap_exact:
  fixes ops :: "reg_op list"
  defines "r \<equiv> reg_after ops"
  shows "(aor \<in> set (fst (reap now r)) \<longleftrightarrow> gm_get r aor \<noteq> None \<and> \<not> IsRegistered now r aor)
       \<and> distinct (fst (reap now r))
       \<and> gm_list (snd (reap now r)) aor = LookupAll now r aor
       \<and> fst (reap now (snd (reap now r))) = []"
proof -
  have ok: "gm_ok r" using reg_ok_after [of ops] by (simp add: r_def reg_ok_def)
  have "fst (reap now (snd (reap now r))) = []"
    by (auto simp: reap_def filter_empty_conv)
  moreover have "distinct (fst (reap now r))"
    using ok by (simp add: reap_def gm_ok_def distinct_map_filter)
  ultimately show ?thesis
    using reap_emptied [OF ok] gm_list_reap [OF ok] by (simp add: IsRegistered_def LookupAll_def)
qed
text \<open>
  After a client has unregistered its only contact, the next reap reports its address of
  record as lapsed: an explicit unregistration is later announced a second time as an
  expiry.
\<close>

theorem unregistered_contact_reported_lapsed:
  "aor \<in> set (fst (reap now (reg_after [OpRegister aor c, OpUnregisterContact aor (ct_Address c)])))"
proof -
  have "UnregisterContact aor (ct_Address c) (Register aor c []) = gm_set aor [] (gm_set aor [c] [])"
    by (simp add: UnregisterContact_def Register_def)
  then show ?thesis
    using reap_emptied [of "gm_set aor [] (gm_set aor [c] [])" aor now] by (simp add: LookupAll_def)
qed

section \<open>The keepalive's counter\<close>

text \<open>Ping results of one contact, in order: answered or not.\<close>

definition ping_op :: "string \<Rightarrow> string \<Rightarrow> nat \<Rightarrow> bool \<Rightarrow> reg_op" where
  "ping_op aor a m answered = (if answered then OpPingAnswered aor a else OpPingMissed aor a (int m))"

text \<open>The counter alone: \<open>None\<close> once it reached the limit.\<close>

fun miss_count :: "nat \<Rightarrow> nat \<Rightarrow> bool list \<Rightarrow> nat option" where
  "miss_count m k [] = Some k"
| "miss_count m k (True # es) = miss_count m 0 es"
| "miss_count m k (False # es) = (if Suc k < m then miss_count m (Suc k) es else None)"

lemma run_across:
  assumes "k < m"
  shows "sublist (replicate m False) (replicate k False @ True # es) \<longleftrightarrow> sublist (replicate m False) es"
proof
  assume "sublist (replicate m False) (replicate k False @ True # es)"
  then obtain pre post where eq: "replicate k False @ True # es = pre @ replicate m False @ post"
    by (auto simp: sublist_def)
  have nth: "(pre @ replicate m False @ post) ! k = True"
    unfolding eq [symmetric] by (simp add: nth_append)
  have "k < length pre"
  proof (rule ccontr)
    assume ge: "\<not> k < length pre"
    with assms have "k - length pre < m" by linarith
    with ge have "(pre @ replicate m False @ post) ! k = False" by (simp add: nth_append)
    with nth show False by simp
  qed
  then have "drop (Suc k) (pre @ replicate m False @ post) = drop (Suc k) pre @ replicate m False @ post"
    by simp
  moreover have "drop (Suc k) (replicate k False @ True # es) = es" by simp
  ultimately show "sublist (replicate m False) es" unfolding eq by (metis sublist_appendI)
next
  assume "sublist (replicate m False) es"
  then show "sublist (replicate m False) (replicate k False @ True # es)"
    by (meson sublist_Cons_right sublist_append)
qed

lemma miss_count_None:
  "k < m \<Longrightarrow> miss_count m k es = None \<longleftrightarrow> sublist (replicate m False) (replicate k False @ es)"
proof (induction m k es rule: miss_count.induct)
  case (1 m k)
  then show ?case by (auto dest: sublist_length_le)
next
  case (2 m k es)
  then show ?case by (simp add: run_across)
next
  case (3 m k es)
  have shift: "replicate k False @ False # es = replicate (Suc k) False @ es"
    by (simp add: replicate_app_Cons_same)
  show ?case
  proof (cases "Suc k < m")
    case True
    with 3 show ?thesis by (simp only: shift miss_count.simps if_True)
  next
    case False
    with "3.prems" have "m = Suc k" by simp
    then show ?thesis by (simp only: shift) (simp add: sublist_append)
  qed
qed

lemma ping_run_counter:
  assumes "ok_r = reg_ok r" "ok_r" "reg_abs r aor a = Some c" "ct_missedPings c = int k"
  shows "map_option ct_missedPings (reg_abs (fold reg_step (map (ping_op aor a m) es) r) aor a)
       = map_option int (miss_count m k es)"
  using assms
proof (induction es arbitrary: r c k ok_r)
  case Nil
  then show ?case by simp
next
  case (Cons e es)
  let ?r = "reg_step (ping_op aor a m e) r"
  have ok: "reg_ok r" and ok': "reg_ok ?r" using Cons.prems reg_ok_step by simp_all
  have gone: "reg_abs (fold reg_step (map (ping_op aor a m) es) s) aor a = None"
    if "reg_ok s" "reg_abs s aor a = None" for s
    using that
  proof (induction es arbitrary: s)
    case Nil
    then show ?case by simp
  next
    case (Cons e es)
    have "reg_abs (reg_step (ping_op aor a m e) s) aor a = None"
      using Cons.prems reg_abs_step [of s "ping_op aor a m e"]
      by (cases e) (simp_all add: ping_op_def put_contact_def)
    with Cons show ?case by (simp add: reg_ok_step)
  qed
  show ?case
  proof (cases e)
    case True
    then have "reg_abs ?r aor a = Some (c\<lparr>ct_missedPings := 0\<rparr>)"
      using Cons.prems reg_abs_step [OF ok, of "ping_op aor a m e"] by (simp add: ping_op_def put_contact_def)
    with Cons.IH [OF refl ok', of "c\<lparr>ct_missedPings := 0\<rparr>" 0] True show ?thesis by simp
  next
    case False
    show ?thesis
    proof (cases "Suc k < m")
      case True
      with False have "reg_abs ?r aor a = Some (c\<lparr>ct_missedPings := int (Suc k)\<rparr>)"
        using Cons.prems reg_abs_step [OF ok, of "ping_op aor a m e"] by (simp add: ping_op_def put_contact_def)
      with Cons.IH [OF refl ok', of "c\<lparr>ct_missedPings := int (Suc k)\<rparr>" "Suc k"] False True
      show ?thesis by simp
    next
      case over: False
      with False have "reg_abs ?r aor a = None"
        using Cons.prems reg_abs_step [OF ok, of "ping_op aor a m e"] by (simp add: ping_op_def put_contact_def)
      with gone [OF ok'] False over show ?thesis by simp
    qed
  qed
qed

text \<open>
  Property (C30). A contact that has just registered is dropped by the keepalive exactly when some run of
  \<open>m\<close> consecutive pings went unanswered, where \<open>m\<close> is the configured limit: an answer in
  between starts the count again, whatever happened before.
\<close>

theorem keepalive_drops_after_consecutive_misses:
  assumes "0 < m" "ct_missedPings c = 0"
  shows "reg_abs (reg_after (ops @ OpRegister aor c # map (ping_op aor (ct_Address c) m) results))
           aor (ct_Address c) = None
     \<longleftrightarrow> sublist (replicate m False) results"
proof -
  let ?r = "reg_step (OpRegister aor c) (reg_after ops)"
  have ok: "reg_ok ?r" by (rule reg_ok_step) (rule reg_ok_after)
  have "reg_abs ?r aor (ct_Address c) = Some c" by (rule reg.register_read) (rule reg_ok_after)
  from ping_run_counter [OF refl ok this, of 0 m results] assms(2)
  have "map_option ct_missedPings (reg_abs (fold reg_step (map (ping_op aor (ct_Address c) m) results) ?r)
      aor (ct_Address c)) = map_option int (miss_count m 0 results)" by simp
  then have "reg_abs (fold reg_step (map (ping_op aor (ct_Address c) m) results) ?r) aor (ct_Address c) = None
      \<longleftrightarrow> miss_count m 0 results = None" by (metis map_option_is_None)
  with miss_count_None [of 0 m results] assms(1) show ?thesis by simp
qed

lemma keepalive_drops_witness:
  "reg_abs (reg_after ([] @ OpRegister ''6001'' \<lparr>ct_URI = ''sip:6001@10.0.0.1'', ct_Address = ''10.0.0.1:5060'',
       ct_Transport = ''UDP'', ct_IsWebRTC = False, ct_ExpiresAt = 3600, ct_NAT = True, ct_missedPings = 0\<rparr>
     # map (ping_op ''6001'' (ct_Address \<lparr>ct_URI = ''sip:6001@10.0.0.1'', ct_Address = ''10.0.0.1:5060'',
       ct_Transport = ''UDP'', ct_IsWebRTC = False, ct_ExpiresAt = 3600, ct_NAT = True, ct_missedPings = 0\<rparr>) 2)
         [False, True, False, False])) ''6001'' ''10.0.0.1:5060'' = None"
  using keepalive_drops_after_consecutive_misses [of 2 "\<lparr>ct_URI = ''sip:6001@10.0.0.1'', ct_Address = ''10.0.0.1:5060'',
       ct_Transport = ''UDP'', ct_IsWebRTC = False, ct_ExpiresAt = 3600, ct_NAT = True, ct_missedPings = 0\<rparr>"
       "[]" "''6001''" "[False, True, False, False]"]
  by (simp add: sublist_Cons_right numeral_2_eq_2)

end
