(* ===== verification/Dispatcher.thy ===== *)
theory Dispatcher
  imports SBC_Prelude "HOL-Library.Multiset"
begin

text \<open>
  The FreeSWITCH dispatcher (\<^verbatim>\<open>sbc/dispatcher.go\<close>) and the discovery loop of
  \<^verbatim>\<open>sbc/main.go\<close> that feeds it. The state is the list of target URIs and the 64-bit
  round-robin counter. The contract \<open>target_pool\<close> says what the pool promises (a set of
  targets, a selection from it); the discovery loop is proved against it.
\<close>

section \<open>Targets\<close>

record dispatcher =
  dp_targets :: "string list"
  dp_counter :: "64 word"

definition newDispatcher :: dispatcher where
  "newDispatcher = \<lparr>dp_targets = [], dp_counter = 0\<rparr>"

definition AddTarget :: "string \<Rightarrow> dispatcher \<Rightarrow> dispatcher" where
  "AddTarget uri d =
     (if list_ex (\<lambda>t. t = uri) (dp_targets d) then d
      else d\<lparr>dp_targets := dp_targets d @ [uri]\<rparr>)"

definition RemoveTarget :: "string \<Rightarrow> dispatcher \<Rightarrow> dispatcher" where
  "RemoveTarget uri d = d\<lparr>dp_targets := remove_first (\<lambda>t. t = uri) (dp_targets d)\<rparr>"

text \<open>The counter wraps around at 64 bits; a Go slice is always shorter than that.\<close>

definition SelectTarget :: "dispatcher \<Rightarrow> string option \<times> dispatcher" where
  "SelectTarget d =
     (if length (dp_targets d) = 0 then (None, d)
      else
        let c = dp_counter d + 1;
            idx = unat c mod length (dp_targets d)
        in (Some (dp_targets d ! idx), d\<lparr>dp_counter := c\<rparr>))"

definition fs_uri :: "string \<Rightarrow> string" where
  "fs_uri addr = ''sip:'' @ addr @ '':5070''"

definition IsFromFS :: "dispatcher \<Rightarrow> string \<Rightarrow> bool" where
  "IsFromFS d sourceIP \<longleftrightarrow> list_ex (\<lambda>t. t = fs_uri sourceIP) (dp_targets d)"

definition ListTargets :: "dispatcher \<Rightarrow> string list" where
  "ListTargets d = dp_targets d"

lemma fs_uri_inj [simp]: "fs_uri a = fs_uri b \<longleftrightarrow> a = b"
  by (simp add: fs_uri_def)

lemma remove_first_eq_set: "distinct xs \<Longrightarrow> set (remove_first (\<lambda>x. x = a) xs) = set xs - {a}"
  by (induction xs) auto

lemma remove_first_eq_distinct: "distinct xs \<Longrightarrow> distinct (remove_first (\<lambda>x. x = a) xs)"
  using remove_first_subset [of "\<lambda>x. x = a"] by (induction xs) auto

section \<open>The contract of the pool\<close>

locale target_pool =
  fixes targets :: "'s \<Rightarrow> 'u list"
    and add :: "'u \<Rightarrow> 's \<Rightarrow> 's"
    and remove :: "'u \<Rightarrow> 's \<Rightarrow> 's"
    and select :: "'s \<Rightarrow> 'u option \<times> 's"
  assumes add_targets: "distinct (targets s) \<Longrightarrow>
        distinct (targets (add u s)) \<and> set (targets (add u s)) = insert u (set (targets s))"
    and remove_targets: "distinct (targets s) \<Longrightarrow>
        distinct (targets (remove u s)) \<and> set (targets (remove u s)) = set (targets s) - {u}"
    and select_targets: "targets (snd (select s)) = targets s"
    and select_member: "case fst (select s) of
        None \<Rightarrow> targets s = [] | Some u \<Rightarrow> u \<in> set (targets s)"
begin

lemma add_many:
  "distinct (targets s) \<Longrightarrow> distinct (targets (fold add us s))
     \<and> set (targets (fold add us s)) = set us \<union> set (targets s)"
proof (induction us arbitrary: s)
  case Nil
  then show ?case by simp
next
  case (Cons u us)
  from add_targets [OF Cons.prems] Cons.IH [of "add u s"] show ?case by auto
qed

lemma remove_many:
  "distinct (targets s) \<Longrightarrow> distinct (targets (fold remove us s))
     \<and> set (targets (fold remove us s)) = set (targets s) - set us"
proof (induction us arbitrary: s)
  case Nil
  then show ?case by simp
next
  case (Cons u us)
  from remove_targets [OF Cons.prems] Cons.IH [of "remove u s"] show ?case by auto
qed

lemma select_keeps: "fst (select s) = Some u \<Longrightarrow> u \<in> set (targets (snd (select s)))"
  using select_member [of s] by (simp add: select_targets)

end

interpretation disp: target_pool dp_targets AddTarget RemoveTarget SelectTarget
proof unfold_locales
  fix s :: dispatcher and u :: string
  assume d: "distinct (dp_targets s)"
  show "distinct (dp_targets (AddTarget u s)) \<and>
      set (dp_targets (AddTarget u s)) = insert u (set (dp_targets s))"
    using d by (auto simp: AddTarget_def list_ex_iff)
  show "distinct (dp_targets (RemoveTarget u s)) \<and>
      set (dp_targets (RemoveTarget u s)) = set (dp_targets s) - {u}"
    using d by (simp add: RemoveTarget_def remove_first_eq_set remove_first_eq_distinct)
next
  fix s :: dispatcher
  show "dp_targets (snd (SelectTarget s)) = dp_targets s"
    by (simp add: SelectTarget_def Let_def)
  show "case fst (SelectTarget s) of
      None \<Rightarrow> dp_targets s = [] | Some u \<Rightarrow> u \<in> set (dp_targets s)"
    by (simp add: SelectTarget_def Let_def)
qed

section \<open>Discovery\<close>

text \<open>
  One turn of the discovery loop: \<open>addrs\<close> is the answer of \<^verbatim>\<open>net.LookupHost\<close>,
  \<open>None\<close> its error; \<open>known\<close> the map of the URIs this loop added.
\<close>

definition discover_add :: "string \<Rightarrow> dispatcher \<times> (string, bool) gomap \<Rightarrow> dispatcher \<times> (string, bool) gomap" where
  "discover_add uri st = (case st of (d, known) \<Rightarrow>
     if gm_get known uri \<noteq> Some True then (AddTarget uri d, gm_set uri True known) else (d, known))"

definition discover_drop :: "string \<Rightarrow> dispatcher \<times> (string, bool) gomap \<Rightarrow> dispatcher \<times> (string, bool) gomap" where
  "discover_drop uri st = (case st of (d, known) \<Rightarrow> (RemoveTarget uri d, gm_del uri known))"

definition discover :: "string list option \<Rightarrow> dispatcher \<times> (string, bool) gomap \<Rightarrow> dispatcher \<times> (string, bool) gomap" where
  "discover lookup st =
     (case lookup of
        None \<Rightarrow> st
      | Some addrs \<Rightarrow>
          let seen = map fs_uri addrs;
              st1 = fold discover_add seen st;
              gone = filter (\<lambda>uri. uri \<notin> set seen) (map fst (snd st1))
          in fold discover_drop gone st1)"

definition known_ok :: "(string, bool) gomap \<Rightarrow> bool" where
  "known_ok known \<longleftrightarrow> gm_ok known \<and> (\<forall>u. gm_get known u \<noteq> Some False)"

definition known_set :: "(string, bool) gomap \<Rightarrow> string set" where
  "known_set known = {u. gm_get known u = Some True}"

lemma known_set_keys: "known_ok known \<Longrightarrow> fst ` set known = known_set known"
proof -
  assume ok: "known_ok known"
  have "u \<in> fst ` set known \<longleftrightarrow> gm_get known u = Some True" for u
  proof (cases "gm_get known u")
    case None
    then have "u \<notin> fst ` set known" by (simp add: map_of_eq_None_iff)
    with None show ?thesis by simp
  next
    case (Some b)
    with ok have "b" by (cases b) (auto simp: known_ok_def)
    with Some show ?thesis by (force dest: map_of_SomeD)
  qed
  then show ?thesis by (auto simp: known_set_def)
qed

lemma discover_adds:
  fixes us :: "string list"
  assumes "distinct (dp_targets d)" "known_ok known"
  defines "st \<equiv> fold discover_add us (d, known)"
  shows "distinct (dp_targets (fst st)) \<and> known_ok (snd st)
       \<and> set (dp_targets (fst st)) = set (dp_targets d) \<union> (set us - known_set known)
       \<and> known_set (snd st) = known_set known \<union> set us"
  using assms(1,2) unfolding st_def
proof (induction us arbitrary: d known)
  case Nil
  then show ?case by simp
next
  case (Cons u us)
  show ?case
  proof (cases "gm_get known u = Some True")
    case True
    with Cons.IH [OF Cons.prems] show ?thesis by (auto simp: discover_add_def known_set_def)
  next
    case False
    have new: "known_ok (gm_set u True known)" using Cons.prems(2) by (auto simp: known_ok_def)
    then have keys: "known_set (gm_set u True known) = insert u (known_set known)"
      by (auto simp: known_set_def)
    from Cons.IH [of "AddTarget u d", OF _ new] disp.add_targets [OF Cons.prems(1), of u] False
    show ?thesis by (auto simp: discover_add_def keys known_set_def)
  qed
qed

lemma discover_drops:
  fixes us :: "string list"
  assumes "distinct (dp_targets d)" "known_ok known"
  defines "st \<equiv> fold discover_drop us (d, known)"
  shows "distinct (dp_targets (fst st)) \<and> known_ok (snd st)
       \<and> set (dp_targets (fst st)) = set (dp_targets d) - set us
       \<and> known_set (snd st) = known_set known - set us"
proof -
  have split: "fold discover_drop us (d, known) = (fold RemoveTarget us d, fold gm_del us known)"
    by (induction us arbitrary: d known) (simp_all add: discover_drop_def)
  have ok: "known_ok (fold gm_del us known)"
    using assms(2) by (simp add: known_ok_def gm.ok_del_many gm.get_del_many)
  with assms(2) have "known_set (fold gm_del us known) = known_set known - set us"
    by (auto simp: known_set_def known_ok_def gm.get_del_many)
  with ok disp.remove_many [OF assms(1), of us] show ?thesis by (simp add: st_def split)
qed

lemma discovery_run:
  assumes "distinct (dp_targets d)" "known_ok known"
  shows "(case discover lookup (d, known) of (d', known') \<Rightarrow>
      (case lookup of
         None \<Rightarrow> d' = d \<and> known' = known
       | Some addrs \<Rightarrow>
           set (dp_targets d') =
             (set (dp_targets d) \<union> (fs_uri ` set addrs - known_set known)) - (known_set known - fs_uri ` set addrs)
           \<and> known_set known' = fs_uri ` set addrs)
      \<and> distinct (dp_targets d') \<and> known_ok known')"
proof (cases lookup)
  case None
  with assms show ?thesis by (simp add: discover_def)
next
  case (Some addrs)
  let ?seen = "map fs_uri addrs"
  obtain d1 k1 where st1: "fold discover_add ?seen (d, known) = (d1, k1)" by fastforce
  from discover_adds [OF assms, of ?seen] have one: "distinct (dp_targets d1)" "known_ok k1"
    "set (dp_targets d1) = set (dp_targets d) \<union> (fs_uri ` set addrs - known_set known)"
    "known_set k1 = known_set known \<union> fs_uri ` set addrs" by (simp_all add: st1)
  define gone where "gone = filter (\<lambda>uri. uri \<notin> set ?seen) (map fst k1)"
  have gone: "set gone = known_set known - fs_uri ` set addrs" using one(4) known_set_keys [OF one(2)]
    by (auto simp: gone_def)
  have eq: "discover lookup (d, known) = fold discover_drop gone (d1, k1)"
    by (simp add: discover_def Some st1 gone_def)
  obtain d' known' where st2: "fold discover_drop gone (d1, k1) = (d', known')" by fastforce
  from discover_drops [OF one(1,2), of gone] have two: "distinct (dp_targets d')" "known_ok known'"
    "set (dp_targets d') = set (dp_targets d1) - set gone"
    "known_set known' = known_set k1 - set gone" by (simp_all add: st2)
  have "set (dp_targets d') = (set (dp_targets d) \<union> (fs_uri ` set addrs - known_set known))
      - (known_set known - fs_uri ` set addrs)" by (simp add: two one gone)
  moreover have "known_set known' = fs_uri ` set addrs" by (auto simp: two one gone)
  ultimately show ?thesis using two(1,2) eq st2 by (simp add: Some)
qed

text \<open>
  Property (C27). A turn of the discovery loop makes the targets follow the name exactly: addresses it did
  not know are added, addresses it knew and that no longer resolve are removed, targets
  added through the RPC interface are left alone, and what it knows is what resolved; a
  failed lookup changes nothing.
\<close>

theorem discovery_follows_the_name:
  assumes "distinct (dp_targets d)" "known_ok known"
  shows "(case discover lookup (d, known) of (d', known') \<Rightarrow>
      (case lookup of
         None \<Rightarrow> d' = d \<and> known' = known
       | Some addrs \<Rightarrow>
           set (dp_targets d') =
             (set (dp_targets d) \<union> (fs_uri ` set addrs - known_set known)) - (known_set known - fs_uri ` set addrs)
           \<and> known_set known' = fs_uri ` set addrs)
      \<and> distinct (dp_targets d') \<and> known_ok known')"
  using discovery_run [OF assms] .

lemma discovery_witness:
  "fst ` set (snd (discover (Some [''10.0.0.2'', ''10.0.0.3''])
     (\<lparr>dp_targets = [''sip:fs-manual:5070'', ''sip:10.0.0.1:5070'', ''sip:10.0.0.2:5070''], dp_counter = 0\<rparr>,
      [(''sip:10.0.0.1:5070'', True), (''sip:10.0.0.2:5070'', True)])))
   = {''sip:10.0.0.2:5070'', ''sip:10.0.0.3:5070''}"
proof -
  let ?d = "\<lparr>dp_targets = [''sip:fs-manual:5070'', ''sip:10.0.0.1:5070'', ''sip:10.0.0.2:5070''], dp_counter = 0\<rparr>"
  let ?k = "[(''sip:10.0.0.1:5070'', True), (''sip:10.0.0.2:5070'', True)]"
  have "distinct (dp_targets ?d)" "known_ok ?k" by (auto simp: known_ok_def gm_ok_def)
  from discovery_follows_the_name [OF this, of "Some [''10.0.0.2'', ''10.0.0.3'']"] show ?thesis
    by (auto simp: known_set_keys fs_uri_def split: prod.splits)
qed

section \<open>Round robin\<close>

fun select_many :: "nat \<Rightarrow> dispatcher \<Rightarrow> string list" where
  "select_many 0 d = []"
| "select_many (Suc n) d = (case SelectTarget d of
     (None, d') \<Rightarrow> select_many n d'
   | (Some t, d') \<Rightarrow> t # select_many n d')"

lemma select_many_eq:
  assumes "dp_targets d \<noteq> []" "unat (dp_counter d) + n < 2 ^ 64"
  shows "select_many n d =
    map (\<lambda>i. dp_targets d ! ((unat (dp_counter d) + 1 + i) mod length (dp_targets d))) [0..<n]"
  using assms
proof (induction n arbitrary: d)
  case 0
  then show ?case by simp
next
  case (Suc n)
  let ?d = "snd (SelectTarget d)"
  have c: "unat (dp_counter d + 1) = unat (dp_counter d) + 1"
    using Suc.prems(2) by (simp add: unat_plus_if' )
  have d': "dp_targets ?d = dp_targets d" "dp_counter ?d = dp_counter d + 1"
    using Suc.prems(1) by (simp_all add: SelectTarget_def Let_def)
  have head: "select_many (Suc n) d =
      dp_targets d ! ((unat (dp_counter d) + 1) mod length (dp_targets d)) # select_many n ?d"
    using Suc.prems(1) c by (simp add: SelectTarget_def Let_def)
  have "select_many n ?d =
      map (\<lambda>i. dp_targets d ! ((unat (dp_counter d) + 1 + Suc i) mod length (dp_targets d))) [0..<n]"
    using Suc.IH [of ?d] Suc.prems by (simp add: d' c)
  also have "\<dots> = map (\<lambda>i. dp_targets d ! ((unat (dp_counter d) + 1 + i) mod length (dp_targets d)))
      [Suc 0..<Suc n]"
    by (simp only: map_Suc_upt [symmetric] list.map_comp comp_def)
  finally have tail: "select_many n ?d =
      map (\<lambda>i. dp_targets d ! ((unat (dp_counter d) + 1 + i) mod length (dp_targets d))) [Suc 0..<Suc n]" .
  have "[0..<Suc n] = 0 # [Suc 0..<Suc n]" by (simp only: upt_conv_Cons [of 0 "Suc n"] zero_less_Suc)
  then show ?case unfolding head tail by (simp only: list.map add_0_right)
qed

text \<open>A window of \<open>n\<close> consecutive numbers, taken modulo \<open>n\<close>, hits every remainder once.\<close>

lemma mset_mod_window: "0 < n \<Longrightarrow> mset (map (\<lambda>i. (k + i) mod n) [0..<n]) = mset [0..<n]"
proof -
  assume n: "0 < n"
  have inj: "inj_on (\<lambda>i. (k + i) mod n) {0..<n}"
  proof (rule inj_onI)
    fix i j assume ij: "i \<in> {0..<n}" "j \<in> {0..<n}" "(k + i) mod n = (k + j) mod n"
    then have "i mod n = j mod n" by (simp add: nat_mod_eq_iff) (metis mod_less add_left_imp_eq nat_mod_eq_iff group_cancel.add1)
    with ij show "i = j" by simp
  qed
  have "(\<lambda>i. (k + i) mod n) ` {0..<n} \<subseteq> {0..<n}" using n by auto
  with inj have img: "(\<lambda>i. (k + i) mod n) ` {0..<n} = {0..<n}"
    by (intro card_subset_eq) (simp_all add: card_image)
  have "mset (map (\<lambda>i. (k + i) mod n) [0..<n]) = image_mset (\<lambda>i. (k + i) mod n) (mset_set {0..<n})"
    by simp
  also have "\<dots> = mset_set {0..<n}" by (simp add: image_mset_mset_set [OF inj] img)
  finally show ?thesis by simp
qed

text \<open>
  Property (C28). As many consecutive selections as there are targets use every target exactly once,
  whatever the counter stands at (unless it wraps around 64 bits meanwhile).
\<close>

theorem round_robin_fair:
  assumes "unat (dp_counter d) + length (dp_targets d) < 2 ^ 64"
  shows "mset (select_many (length (dp_targets d)) d) = mset (dp_targets d)"
proof (cases "dp_targets d = []")
  case True
  then show ?thesis by simp
next
  case False
  let ?n = "length (dp_targets d)" and ?k = "unat (dp_counter d) + 1"
  have "mset (select_many ?n d) =
      image_mset ((!) (dp_targets d)) (mset (map (\<lambda>i. (?k + i) mod ?n) [0..<?n]))"
    by (simp only: select_many_eq [OF False assms] mset_map image_mset.compositionality comp_def)
  also have "\<dots> = mset (map ((!) (dp_targets d)) [0..<?n])"
    using False by (subst mset_mod_window) simp_all
  also have "\<dots> = mset (dp_targets d)" by (simp only: map_nth)
  finally show ?thesis .
qed

lemma round_robin_fair_witness:
  "mset (select_many 3 \<lparr>dp_targets = [''sip:10.0.0.1:5070'', ''sip:10.0.0.2:5070'', ''sip:10.0.0.3:5070''],
      dp_counter = 7\<rparr>) = {#''sip:10.0.0.1:5070'', ''sip:10.0.0.2:5070'', ''sip:10.0.0.3:5070''#}"
  using round_robin_fair [of "\<lparr>dp_targets = [''sip:10.0.0.1:5070'', ''sip:10.0.0.2:5070'', ''sip:10.0.0.3:5070''],
      dp_counter = 7\<rparr>"] by (simp add: numeral_3_eq_3)

section \<open>Every history of the pool\<close>

datatype pool_op =
    PoolAdd string
  | PoolRemove string
  | PoolSelect
  | PoolDiscover "string list option"

fun pool_step :: "pool_op \<Rightarrow> dispatcher \<times> (string, bool) gomap \<Rightarrow> dispatcher \<times> (string, bool) gomap" where
  "pool_step (PoolAdd u) (d, known) = (AddTarget u d, known)"
| "pool_step (PoolRemove u) (d, known) = (RemoveTarget u d, known)"
| "pool_step PoolSelect (d, known) = (snd (SelectTarget d), known)"
| "pool_step (PoolDiscover lookup) (d, known) = discover lookup (d, known)"

abbreviation pool_after :: "pool_op list \<Rightarrow> dispatcher \<times> (string, bool) gomap" where
  "pool_after ops \<equiv> fold pool_step ops (newDispatcher, [])"

definition pool_ok :: "dispatcher \<times> (string, bool) gomap \<Rightarrow> bool" where
  "pool_ok st \<longleftrightarrow> distinct (dp_targets (fst st)) \<and> known_ok (snd st)"

lemma pool_ok_step: "pool_ok st \<Longrightarrow> pool_ok (pool_step op st)"
proof -
  assume ok: "pool_ok st"
  obtain d known where st: "st = (d, known)" by (cases st)
  from ok have d: "distinct (dp_targets d)" and k: "known_ok known" by (simp_all add: pool_ok_def st)
  show ?thesis
  proof (cases op)
    case (PoolDiscover lookup)
    with discovery_run [OF d k, of lookup] show ?thesis
      by (cases "discover lookup (d, known)") (simp add: pool_ok_def st)
  qed (simp_all add: pool_ok_def st k d disp.add_targets disp.remove_targets disp.select_targets)
qed

lemma pool_ok_after: "pool_ok (pool_after ops)"
proof -
  have "pool_ok st \<Longrightarrow> pool_ok (fold pool_step ops st)" for st
    by (induction ops arbitrary: st) (simp_all add: pool_ok_step)
  then show ?thesis by (simp add: pool_ok_def newDispatcher_def known_ok_def)
qed

text \<open>
  Whatever was added, removed, discovered and selected before, in any order, the pool never
  holds a target twice, a call is refused (503) only when there is no target at all, the
  target a call is sent to is one of the pool's, and a source counts as FreeSWITCH exactly
  when its \<^verbatim>\<open>sip:IP:5070\<close> is one of them.
\<close>

theorem dispatcher_selects_members:
  fixes ops :: "pool_op list"
  defines "d \<equiv> fst (pool_after ops)"
  shows "distinct (dp_targets d)
       \<and> (fst (SelectTarget d) = None \<longleftrightarrow> ListTargets d = [])
       \<and> (case fst (SelectTarget d) of None \<Rightarrow> True | Some u \<Rightarrow> u \<in> set (ListTargets d))
       \<and> (IsFromFS d addr \<longleftrightarrow> ''sip:'' @ addr @ '':5070'' \<in> set (ListTargets d))"
proof -
  have "distinct (dp_targets d)" using pool_ok_after [of ops] by (simp add: pool_ok_def d_def)
  moreover have "fst (SelectTarget d) = None \<longleftrightarrow> ListTargets d = []"
    by (simp add: SelectTarget_def ListTargets_def Let_def)
  moreover have "case fst (SelectTarget d) of None \<Rightarrow> True | Some u \<Rightarrow> u \<in> set (ListTargets d)"
    using disp.select_member [of d] by (simp add: ListTargets_def split: option.splits)
  moreover have "IsFromFS d addr \<longleftrightarrow> ''sip:'' @ addr @ '':5070'' \<in> set (ListTargets d)"
    by (simp only: IsFromFS_def ListTargets_def fs_uri_def list_ex_iff) blast
  ultimately show ?thesis by blast
qed

section \<open>The RPC interface\<close>

text \<open>
  \<^verbatim>\<open>handleRPC\<close>: the request as the JSON decoder delivers it (\<open>None\<close> when it fails),
  the reply as the JSON value that is encoded. \<open>fmt_v\<close> is \<^verbatim>\<open>fmt.Sprintf("%v", \<dots>)\<close> on a decoded
  value, of which the model knows only the type \<open>'j\<close>.
\<close>

datatype 'j json =
    JString string
  | JArray "'j json list"
  | JObject "(string \<times> 'j json) list"
  | JValue 'j

record 'j rpcRequest =
  rpc_JSONRPC :: string
  rpc_Method :: string
  rpc_Params :: "'j list"
  rpc_ID :: 'j

datatype 'j http_reply = HttpError string nat | HttpJSON "'j json"

definition rpc_ok_reply :: "'j \<Rightarrow> 'j json" where
  "rpc_ok_reply i = JObject [(''jsonrpc'', JString ''2.0''), (''result'', JString ''OK''), (''id'', JValue i)]"

definition rpc_records :: "string list \<Rightarrow> 'j json" where
  "rpc_records targets =
     JArray (if length targets > 0
             then [JObject [(''SET'', JObject [(''TARGETS'',
                     JArray (map (\<lambda>t. JObject [(''DEST'', JObject [(''URI'', JString t)])]) targets))])]]
             else [])"

definition rpc_list_reply :: "string list \<Rightarrow> 'j \<Rightarrow> 'j json" where
  "rpc_list_reply targets i =
     JObject [(''jsonrpc'', JString ''2.0''),
              (''result'', JObject [(''RECORDS'', rpc_records targets)]),
              (''id'', JValue i)]"

definition handleRPC ::
  "('j \<Rightarrow> string) \<Rightarrow> string \<Rightarrow> string \<Rightarrow> 'j rpcRequest option \<Rightarrow> dispatcher \<Rightarrow> 'j http_reply \<times> dispatcher" where
  "handleRPC fmt_v expectedToken token body d =
     (if token = [] \<or> token \<noteq> expectedToken then (HttpError ''Unauthorized'' 401, d)
      else case body of
        None \<Rightarrow> (HttpError ''Bad Request'' 400, d)
      | Some req \<Rightarrow>
          if rpc_Method req = ''dispatcher.add'' then
            (HttpJSON (rpc_ok_reply (rpc_ID req)),
             if length (rpc_Params req) \<ge> 2 then AddTarget (fmt_v (rpc_Params req ! 1)) d else d)
          else if rpc_Method req = ''dispatcher.remove'' then
            (HttpJSON (rpc_ok_reply (rpc_ID req)),
             if length (rpc_Params req) \<ge> 2 then RemoveTarget (fmt_v (rpc_Params req ! 1)) d else d)
          else if rpc_Method req = ''dispatcher.list'' then
            (HttpJSON (rpc_list_reply (ListTargets d) (rpc_ID req)), d)
          else (HttpError ''Method not found'' 404, d))"

text \<open>
  Property (C29). Only a request with the configured, non-empty token changes the pool, and the only change
  is the addition or removal of the second parameter's target that the method names; with
  no token configured nobody gets in, and every request without the token is answered 401.
\<close>

theorem rpc_guarded:
  fixes body :: "'j rpcRequest option"
  assumes "distinct (dp_targets d)"
  shows "(case handleRPC fmt_v expected token body d of (reply, d') \<Rightarrow>
      (d' \<noteq> d \<longrightarrow> token = expected \<and> expected \<noteq> [] \<and>
         (\<exists>req. body = Some req \<and> 2 \<le> length (rpc_Params req) \<and>
            (let u = fmt_v (rpc_Params req ! 1) in
               rpc_Method req = ''dispatcher.add'' \<and> u \<notin> set (dp_targets d)
                 \<and> set (dp_targets d') = insert u (set (dp_targets d))
             \<or> rpc_Method req = ''dispatcher.remove'' \<and> u \<in> set (dp_targets d)
                 \<and> set (dp_targets d') = set (dp_targets d) - {u})))
      \<and> (reply = HttpError ''Unauthorized'' 401 \<longleftrightarrow> token = [] \<or> token \<noteq> expected))"
proof -
  have add: "AddTarget u d \<noteq> d \<Longrightarrow> u \<notin> set (dp_targets d)" for u
    by (auto simp: AddTarget_def list_ex_iff split: if_splits)
  have rem: "u \<in> set (dp_targets d)" if "RemoveTarget u d \<noteq> d" for u
  proof (rule ccontr)
    assume "u \<notin> set (dp_targets d)"
    then have "remove_first (\<lambda>t. t = u) (dp_targets d) = dp_targets d"
      by (intro remove_first_none) auto
    with that show False by (simp add: RemoveTarget_def)
  qed
  show ?thesis
    using add rem disp.add_targets [OF assms] disp.remove_targets [OF assms]
    by (simp add: handleRPC_def Let_def split: option.splits) blast
qed

lemma rpc_guarded_witness:
  "fst (handleRPC id ''s3cret'' ''guess'' (Some \<lparr>rpc_JSONRPC = ''2.0'', rpc_Method = ''dispatcher.remove'',
      rpc_Params = [''1'', ''sip:10.0.0.1:5070''], rpc_ID = ''1''\<rparr>)
    \<lparr>dp_targets = [''sip:10.0.0.1:5070''], dp_counter = 0\<rparr>) = HttpError ''Unauthorized'' 401"
  using rpc_guarded [where d = "\<lparr>dp_targets = [''sip:10.0.0.1:5070''], dp_counter = 0\<rparr>"
      and fmt_v = id and expected = "''s3cret''" and token = "''guess''"
      and body = "Some \<lparr>rpc_JSONRPC = ''2.0'', rpc_Method = ''dispatcher.remove'',
        rpc_Params = [''1'', ''sip:10.0.0.1:5070''], rpc_ID = ''1''\<rparr>"]
  by (simp split: prod.splits)

end
