(* ===== verification/Ttl_Store.thy ===== *)
theory Ttl_Store
  imports SBC_Prelude
begin

text \<open>
  The contract of the stores that remember something for a while: the rejected Call-IDs
  (\<^verbatim>\<open>sbc/ip_ban.go\<close>) and the credential and trunk caches (\<^verbatim>\<open>sbc/api.go\<close>). Time
  does not run backwards: an entry is read no earlier than it was written.
\<close>

locale ttl_store =
  fixes empty_store :: 's
    and put :: "instant \<Rightarrow> 'k \<Rightarrow> 'v \<Rightarrow> 's \<Rightarrow> 's"
    and get :: "instant \<Rightarrow> 's \<Rightarrow> 'k \<Rightarrow> 'v option"
    and ttl :: "'v \<Rightarrow> duration"
    and ok :: "'s \<Rightarrow> bool"
  assumes ok_empty: "ok empty_store"
    and ok_put: "ok s \<Longrightarrow> ok (put t k v s)"
    and get_empty: "get now empty_store k = None"
    and get_same: "ok s \<Longrightarrow> t \<le> now \<Longrightarrow> get now (put t k v s) k = (if now < t + ttl v then Some v else None)"
    and get_other: "ok s \<Longrightarrow> t \<le> now \<Longrightarrow> k' \<noteq> k \<Longrightarrow> get now (put t k v s) k' = get now s k'"
begin

text \<open>The last entry written under a key, from a history in the order it happened.\<close>

fun last_put :: "(instant \<times> 'k \<times> 'v) list \<Rightarrow> 'k \<Rightarrow> (instant \<times> 'v) option" where
  "last_put [] k = None"
| "last_put ((t, k', v) # h) k =
     (case last_put h k of Some e \<Rightarrow> Some e | None \<Rightarrow> if k' = k then Some (t, v) else None)"

definition run :: "(instant \<times> 'k \<times> 'v) list \<Rightarrow> 's \<Rightarrow> 's" where
  "run h s = fold (\<lambda>(t, k, v). put t k v) h s"

lemma run_simps: "run [] s = s" "run ((t, k, v) # h) s = run h (put t k v s)"
  by (simp_all add: run_def)

lemma run_ok: "ok s \<Longrightarrow> ok (run h s)"
  by (induction h arbitrary: s) (auto simp: run_simps ok_put)

lemma get_run:
  "ok s \<Longrightarrow> \<forall>(t, k', v) \<in> set h. t \<le> now \<Longrightarrow>
     get now (run h s) k =
       (case last_put h k of
          Some (t, v) \<Rightarrow> if now < t + ttl v then Some v else None
        | None \<Rightarrow> get now s k)"
proof (induction h arbitrary: s)
  case Nil
  then show ?case by (simp add: run_simps)
next
  case (Cons e h)
  obtain t k' v where e: "e = (t, k', v)" by (cases e)
  have "t \<le> now" using Cons.prems(2) by (simp add: e)
  with Cons.prems Cons.IH [OF ok_put [OF Cons.prems(1)]] show ?case
    by (auto simp: e run_simps get_same get_other split: option.splits)
qed

theorem history:
  "\<forall>(t, k', v) \<in> set h. t \<le> now \<Longrightarrow>
     get now (run h empty_store) k =
       (case last_put h k of
          Some (t, v) \<Rightarrow> if now < t + ttl v then Some v else None
        | None \<Rightarrow> None)"
  by (simp add: get_run [OF ok_empty] get_empty split: option.split)

end

text \<open>
  A cache in front of a server: a lookup reads the clock, takes a fresh entry if there is
  one, and otherwise asks the server (\<open>'e\<close> stands for all it may answer), reads the clock
  again and may store what it learned.
\<close>

locale lookup_cache = ttl_store empty_store put get ttl ok
  for empty_store :: 's
    and put :: "instant \<Rightarrow> 'k \<Rightarrow> 'v \<Rightarrow> 's \<Rightarrow> 's"
    and get :: "instant \<Rightarrow> 's \<Rightarrow> 'k \<Rightarrow> 'v option"
    and ttl :: "'v \<Rightarrow> duration"
    and ok :: "'s \<Rightarrow> bool" +
  fixes look_up :: "'e \<Rightarrow> instant \<Rightarrow> instant \<Rightarrow> 'k \<Rightarrow> 's \<Rightarrow> 's"
  assumes ok_look_up: "ok s \<Longrightarrow> ok (look_up e t t' k s)"
    and look_up_hit: "get t s k = Some v \<Longrightarrow> look_up e t t' k s = s"
    and look_up_other: "ok s \<Longrightarrow> t \<le> now \<Longrightarrow> t' \<le> now \<Longrightarrow> k' \<noteq> k \<Longrightarrow>
          get now (look_up e t t' k s) k' = get now s k'"
    and get_earlier: "get now s k = Some v \<Longrightarrow> t \<le> now \<Longrightarrow> get t s k = Some v"
begin

text \<open>A fresh entry survives every lookup that happens before it expires.\<close>

lemma fresh_entry_stays:
  "ok s \<Longrightarrow> get now s k = Some v \<Longrightarrow> \<forall>(e, t, t', k') \<in> set h. t \<le> now \<and> t' \<le> now \<Longrightarrow>
     ok (fold (\<lambda>(e, t, t', k'). look_up e t t' k') h s)
     \<and> get now (fold (\<lambda>(e, t, t', k'). look_up e t t' k') h s) k = Some v"
proof (induction h arbitrary: s)
  case Nil
  then show ?case by simp
next
  case (Cons x h)
  obtain e t t' k' where x: "x = (e, t, t', k')" by (cases x)
  have t: "t \<le> now" "t' \<le> now" using Cons.prems(3) by (auto simp: x)
  have "get now (look_up e t t' k' s) k = Some v"
  proof (cases "k' = k")
    case True
    with get_earlier [OF Cons.prems(2) t(1)] Cons.prems(2) show ?thesis by (simp add: look_up_hit)
  next
    case False
    with look_up_other [OF Cons.prems(1) t, of k k' e] Cons.prems(2) show ?thesis by simp
  qed
  with Cons.IH [OF ok_look_up [OF Cons.prems(1)]] Cons.prems(3) show ?case by (simp add: x)
qed

end

end
