(* ===== verification/Config.thy ===== *)
theory Config
  imports Go_Strconv
begin

text \<open>
  The configuration (\<^verbatim>\<open>sbc/config.go\<close>): the record \<^verbatim>\<open>Config\<close> and its
  loading from the environment. The environment is a function from names to values, the
  empty string for a variable that is not set, as \<^verbatim>\<open>os.Getenv\<close> reports it.
\<close>

record config =
  PublicIP :: string
  PrivateIP :: string
  PublicSIPPort :: int
  PrivateSIPPort :: int
  InternalAPIBaseURL :: string
  InternalAPIUser :: string
  InternalAPIPass :: string
  RPCAPIToken :: string
  SIPUserRootDomain :: string
  WSSCertPath :: string
  WSSKeyPath :: string
  WSSPort :: int
  NATPingInterval :: duration
  NATPingMaxMissed :: int
  NATMaxExpires :: int
  BanFailures :: int
  BanWindow :: duration
  BanTime :: duration

definition envOrDefault :: "(string \<Rightarrow> string) \<Rightarrow> string \<Rightarrow> string \<Rightarrow> string" where
  "envOrDefault env key def = (if env key \<noteq> [] then env key else def)"

definition envIntOrDefault :: "(string \<Rightarrow> string) \<Rightarrow> string \<Rightarrow> int \<Rightarrow> int" where
  "envIntOrDefault env key def =
     (if env key \<noteq> [] then (case atoi_ok (env key) of Some n \<Rightarrow> n | None \<Rightarrow> def) else def)"

definition loadConfig :: "(string \<Rightarrow> string) \<Rightarrow> config" where
  "loadConfig env = \<lparr>
     PublicIP = envOrDefault env ''PUBLIC_IP'' ''127.0.0.1'',
     PrivateIP = envOrDefault env ''PRIVATE_IP'' ''127.0.0.1'',
     PublicSIPPort = envIntOrDefault env ''PUBLIC_SIP_PORT'' 5060,
     PrivateSIPPort = envIntOrDefault env ''PRIVATE_SIP_PORT'' 5065,
     InternalAPIBaseURL = envOrDefault env ''INTERNAL_API_BASE_URL'' ''http://server:4000/internal-api'',
     InternalAPIUser = envOrDefault env ''INTERNAL_API_USERNAME'' '''',
     InternalAPIPass = envOrDefault env ''INTERNAL_API_PASSWORD'' '''',
     RPCAPIToken = envOrDefault env ''RPC_API_TOKEN'' '''',
     SIPUserRootDomain = envOrDefault env ''SIP_USER_ROOT_DOMAIN'' ''example.com'',
     WSSCertPath = env ''WSS_CERT_PATH'',
     WSSKeyPath = env ''WSS_KEY_PATH'',
     WSSPort = envIntOrDefault env ''WSS_PORT'' 443,
     NATPingInterval = seconds (envIntOrDefault env ''NAT_PING_INTERVAL'' 20),
     NATPingMaxMissed = envIntOrDefault env ''NAT_PING_MAX_MISSED'' 3,
     NATMaxExpires = envIntOrDefault env ''NAT_MAX_EXPIRES'' 600,
     BanFailures = envIntOrDefault env ''BAN_FAILURES'' 10,
     BanWindow = seconds (envIntOrDefault env ''BAN_WINDOW'' 60),
     BanTime = seconds (envIntOrDefault env ''BAN_TIME'' 900)\<rparr>"

lemma envIntOrDefault_fits: "fits64 def \<Longrightarrow> fits64 (envIntOrDefault env key def)"
  by (auto simp: envIntOrDefault_def dest: atoi_ok_range split: option.splits)

lemma envIntOrDefault_itoa: "fits64 n \<Longrightarrow> env key = itoa n \<Longrightarrow> envIntOrDefault env key def = n"
  by (simp add: envIntOrDefault_def atoi_ok_itoa)

text \<open>With nothing set, the defaults the comments of the source name.\<close>

lemma loadConfig_empty:
  "BanFailures (loadConfig (\<lambda>_. [])) = 10"
  "BanWindow (loadConfig (\<lambda>_. [])) = 60000000000"
  "BanTime (loadConfig (\<lambda>_. [])) = 900000000000"
  "NATPingInterval (loadConfig (\<lambda>_. [])) = 20000000000"
  "PublicSIPPort (loadConfig (\<lambda>_. [])) = 5060"
  by (simp_all add: loadConfig_def envIntOrDefault_def seconds_small)

end
