(* ===== verification/Internal_Api.thy ===== *)
theory Internal_Api
  imports Ttl_Store Config Sip_Address "HOL-Library.List_Lexorder"
begin

text \<open>
  The client of the server's internal API (\<^verbatim>\<open>sbc/api.go\<close>): credentials and trunks
  with their caches, the networks of every trunk seen, presence updates.

  The HTTP exchange itself is a parameter: \<open>http_do\<close> takes the request that \<^verbatim>\<open>post\<close>
  builds to the status and body of the answer, or to an error; \<open>json_p\<close> and \<open>json_trunk\<close>
  are the JSON decoding of the two bodies the program reads. The clock is read before the
  cache is consulted (\<open>now\<close>) and again when an answer is stored (\<open>later\<close>).
\<close>

section \<open>Requests\<close>

datatype api_error = NotFound | ApiFailure

record http_request =
  hr_method :: string
  hr_url :: string
  hr_basic_user :: string
  hr_basic_pass :: string
  hr_content_type :: string
  hr_body :: string

datatype http_answer = HttpNoAnswer | HttpAnswer int string

record trunkData =
  td_InboundIPs :: "string list"
  td_OutboundContact :: string
  td_OutboundUser :: string
  td_OutboundPass :: string

record http_env =
  http_do :: "http_request \<Rightarrow> http_answer"
  json_p :: "string \<Rightarrow> string option"
  json_trunk :: "string \<Rightarrow> trunkData option"

text \<open>\<^verbatim>\<open>url.Values.Encode\<close>: the pairs sorted by key, both parts query-escaped.\<close>

definition query_plain :: "char \<Rightarrow> bool" where
  "query_plain c \<longleftrightarrow> (let n = (of_char c :: nat) in
     (48 \<le> n \<and> n \<le> 57) \<or> (65 \<le> n \<and> n \<le> 90) \<or> (97 \<le> n \<and> n \<le> 122)
     \<or> c \<in> {CHR ''-'', CHR ''_'', CHR ''.'', CHR ''~''})"

definition query_escape :: "string \<Rightarrow> string" where
  "query_escape s = concat (map (\<lambda>c.
     if query_plain c then [c]
     else if c = CHR '' '' then ''+''
     else CHR ''%'' # to_upper (hex_byte (of_char c))) s)"

definition form_encode :: "(string \<times> string) list \<Rightarrow> string" where
  "form_encode kvs = join_with ''&''
     (map (\<lambda>(k, v). query_escape k @ ''='' @ query_escape v)
        (sort_key (\<lambda>(k, v). map (of_char :: char \<Rightarrow> nat) k) kvs))"

section \<open>State\<close>

record credCacheEntry =
  cc_password :: string
  cc_expiresAt :: instant

record trunkCacheEntry =
  tc_data :: "trunkData option"
  tc_expiresAt :: instant

record internalAPI =
  ia_baseURL :: string
  ia_username :: string
  ia_password :: string
  ia_credCache :: "(string, credCacheEntry) gomap"
  ia_trunkCache :: "(string, trunkCacheEntry) gomap"
  ia_trunkNets :: "(string, ipnet) gomap"

definition cacheTTL :: duration where
  "cacheTTL = 5 * 60 * 1000000000"

definition unknownTrunkTTL :: duration where
  "unknownTrunkTTL = 60 * 1000000000"

definition newInternalAPI :: "config \<Rightarrow> internalAPI" where
  "newInternalAPI cfg = \<lparr>ia_baseURL = InternalAPIBaseURL cfg, ia_username = InternalAPIUser cfg,
     ia_password = InternalAPIPass cfg, ia_credCache = [], ia_trunkCache = [], ia_trunkNets = []\<rparr>"

definition post_request :: "internalAPI \<Rightarrow> string \<Rightarrow> (string \<times> string) list \<Rightarrow> http_request" where
  "post_request a path form = \<lparr>hr_method = ''POST'', hr_url = ia_baseURL a @ path,
     hr_basic_user = ia_username a, hr_basic_pass = ia_password a,
     hr_content_type = ''application/x-www-form-urlencoded'', hr_body = form_encode form\<rparr>"

section \<open>Credentials\<close>

definition cred_key :: "string \<Rightarrow> string \<Rightarrow> string" where
  "cred_key username domain = username @ ''@'' @ domain"

definition cred_get :: "instant \<Rightarrow> (string, credCacheEntry) gomap \<Rightarrow> string \<Rightarrow> string option" where
  "cred_get now m key =
     (case gm_get m key of
        None \<Rightarrow> None
      | Some e \<Rightarrow> if now < cc_expiresAt e then Some (cc_password e) else None)"

definition cred_put :: "instant \<Rightarrow> string \<Rightarrow> string \<Rightarrow> (string, credCacheEntry) gomap \<Rightarrow> (string, credCacheEntry) gomap" where
  "cred_put t key p m = gm_set key \<lparr>cc_password = p, cc_expiresAt = t + cacheTTL\<rparr> m"

text \<open>Asking the server: the password, or why there is none.\<close>

definition fetch_credentials :: "http_env \<Rightarrow> internalAPI \<Rightarrow> string \<Rightarrow> string \<Rightarrow> api_error + string" where
  "fetch_credentials E a username domain =
     (case http_do E (post_request a ''/user/credentials'' [(''username'', username), (''domain'', domain)]) of
        HttpNoAnswer \<Rightarrow> Inl ApiFailure
      | HttpAnswer status body \<Rightarrow>
          if status = 404 then Inl NotFound
          else if status \<noteq> 200 then Inl ApiFailure
          else (case json_p E body of
                  None \<Rightarrow> Inl ApiFailure
                | Some p \<Rightarrow> if p = [] then Inl ApiFailure else Inr p))"

definition GetUserPassword ::
  "http_env \<Rightarrow> instant \<Rightarrow> instant \<Rightarrow> string \<Rightarrow> string \<Rightarrow> internalAPI \<Rightarrow> (api_error + string) \<times> internalAPI" where
  "GetUserPassword E now later username domain a =
     (let key = cred_key username domain in
      case cred_get now (ia_credCache a) key of
        Some p \<Rightarrow> (Inr p, a)
      | None \<Rightarrow>
          let a1 = a\<lparr>ia_credCache := gm_del key (ia_credCache a)\<rparr> in
          (case fetch_credentials E a1 username domain of
             Inl e \<Rightarrow> (Inl e, a1)
           | Inr p \<Rightarrow> (Inr p, a1\<lparr>ia_credCache := cred_put later key p (ia_credCache a1)\<rparr>)))"

section \<open>Trunks\<close>

text \<open>The cache's answer for a number: \<open>Some None\<close> is a number known not to exist.\<close>

definition trunk_get :: "instant \<Rightarrow> (string, trunkCacheEntry) gomap \<Rightarrow> string \<Rightarrow> trunkData option option" where
  "trunk_get now m number =
     (case gm_get m number of
        None \<Rightarrow> None
      | Some e \<Rightarrow> if now < tc_expiresAt e then Some (tc_data e) else None)"

definition trunk_ttl :: "trunkData option \<Rightarrow> duration" where
  "trunk_ttl d = (case d of None \<Rightarrow> unknownTrunkTTL | Some _ \<Rightarrow> cacheTTL)"

definition trunk_put :: "instant \<Rightarrow> string \<Rightarrow> trunkData option \<Rightarrow> (string, trunkCacheEntry) gomap \<Rightarrow> (string, trunkCacheEntry) gomap" where
  "trunk_put t number d m = gm_set number \<lparr>tc_data = d, tc_expiresAt = t + trunk_ttl d\<rparr> m"

definition fetch_trunk :: "http_env \<Rightarrow> internalAPI \<Rightarrow> string \<Rightarrow> api_error + trunkData" where
  "fetch_trunk E a number =
     (case http_do E (post_request a ''/number/sip-trunk'' [(''number'', number)]) of
        HttpNoAnswer \<Rightarrow> Inl ApiFailure
      | HttpAnswer status body \<Rightarrow>
          if status = 404 then Inl NotFound
          else if status \<noteq> 200 then Inl ApiFailure
          else (case json_trunk E body of None \<Rightarrow> Inl ApiFailure | Some d \<Rightarrow> Inr d))"

definition remember_net :: "string \<Rightarrow> (string, ipnet) gomap \<Rightarrow> (string, ipnet) gomap" where
  "remember_net cidr nets =
     (case gm_get nets cidr of
        Some _ \<Rightarrow> nets
      | None \<Rightarrow> (case parse_cidr cidr of None \<Rightarrow> nets | Some network \<Rightarrow> gm_set cidr network nets))"

definition rememberTrunkNets :: "string list \<Rightarrow> internalAPI \<Rightarrow> internalAPI" where
  "rememberTrunkNets cidrs a = a\<lparr>ia_trunkNets := fold remember_net cidrs (ia_trunkNets a)\<rparr>"

definition GetSIPTrunk ::
  "http_env \<Rightarrow> instant \<Rightarrow> instant \<Rightarrow> string \<Rightarrow> internalAPI \<Rightarrow> (api_error + trunkData) \<times> internalAPI" where
  "GetSIPTrunk E now later number a =
     (case trunk_get now (ia_trunkCache a) number of
        Some None \<Rightarrow> (Inl NotFound, a)
      | Some (Some d) \<Rightarrow> (Inr d, a)
      | None \<Rightarrow>
          let a1 = a\<lparr>ia_trunkCache := gm_del number (ia_trunkCache a)\<rparr> in
          (case fetch_trunk E a1 number of
             Inl NotFound \<Rightarrow>
               (Inl NotFound, a1\<lparr>ia_trunkCache := trunk_put later number None (ia_trunkCache a1)\<rparr>)
           | Inl ApiFailure \<Rightarrow> (Inl ApiFailure, a1)
           | Inr d \<Rightarrow>
               (Inr d, rememberTrunkNets (td_InboundIPs d)
                  (a1\<lparr>ia_trunkCache := trunk_put later number (Some d) (ia_trunkCache a1)\<rparr>))))"

definition IsTrunkIP :: "internalAPI \<Rightarrow> string \<Rightarrow> bool" where
  "IsTrunkIP a addr =
     (case parse_ip addr of
        None \<Rightarrow> False
      | Some parsed \<Rightarrow> list_ex (\<lambda>(cidr, network). net_contains network parsed) (ia_trunkNets a))"

section \<open>Presence and invalidation\<close>

text \<open>The presence update only logs the outcome: what it does is send this request.\<close>

definition UpdateUserPresence :: "internalAPI \<Rightarrow> string \<Rightarrow> string \<Rightarrow> string \<Rightarrow> http_request" where
  "UpdateUserPresence a subdomain action username =
     post_request a ''/user/presence'' [(''subdomain'', subdomain), (''action'', action), (''username'', username)]"

definition InvalidateCredCache :: "string \<Rightarrow> string \<Rightarrow> internalAPI \<Rightarrow> internalAPI" where
  "InvalidateCredCache username domain a =
     a\<lparr>ia_credCache := gm_del (cred_key username domain) (ia_credCache a)\<rparr>"

definition InvalidateTrunkCache :: "string \<Rightarrow> internalAPI \<Rightarrow> internalAPI" where
  "InvalidateTrunkCache number a = a\<lparr>ia_trunkCache := gm_del number (ia_trunkCache a)\<rparr>"

section \<open>The caches as stores\<close>

lemma cred_get_put [simp]:
  "cred_get now (cred_put t k p m) k' =
     (if k' = k then if now < t + cacheTTL then Some p else None else cred_get now m k')"
  by (simp add: cred_get_def cred_put_def)

lemma cred_get_del [simp]: "cred_get now (gm_del k m) k' = (if k' = k then None else cred_get now m k')"
  by (simp add: cred_get_def)

lemma trunk_get_put [simp]:
  "trunk_get now (trunk_put t k d m) k' =
     (if k' = k then if now < t + trunk_ttl d then Some d else None else trunk_get now m k')"
  by (simp add: trunk_get_def trunk_put_def)

lemma trunk_get_del [simp]: "trunk_get now (gm_del k m) k' = (if k' = k then None else trunk_get now m k')"
  by (simp add: trunk_get_def)

lemma cred_get_earlier: "cred_get now m k = Some p \<Longrightarrow> t \<le> now \<Longrightarrow> cred_get t m k = Some p"
  by (auto simp: cred_get_def split: option.splits if_splits)

lemma trunk_get_earlier: "trunk_get now m k = Some d \<Longrightarrow> t \<le> now \<Longrightarrow> trunk_get t m k = Some d"
  by (auto simp: trunk_get_def split: option.splits if_splits)

lemma fetch_irrelevant [simp]:
  "fetch_credentials E (a\<lparr>ia_credCache := m\<rparr>) u d = fetch_credentials E a u d"
  "fetch_trunk E (a\<lparr>ia_trunkCache := n\<rparr>) number = fetch_trunk E a number"
  by (simp_all add: fetch_credentials_def fetch_trunk_def post_request_def)

definition cred_look_up :: "api_error + string \<Rightarrow> instant \<Rightarrow> instant \<Rightarrow> string \<Rightarrow>
    (string, credCacheEntry) gomap \<Rightarrow> (string, credCacheEntry) gomap" where
  "cred_look_up answer now later key m =
     (case cred_get now m key of
        Some p \<Rightarrow> m
      | None \<Rightarrow> (case answer of Inl e \<Rightarrow> gm_del key m | Inr p \<Rightarrow> cred_put later key p (gm_del key m)))"

definition trunk_look_up :: "api_error + trunkData \<Rightarrow> instant \<Rightarrow> instant \<Rightarrow> string \<Rightarrow>
    (string, trunkCacheEntry) gomap \<Rightarrow> (string, trunkCacheEntry) gomap" where
  "trunk_look_up answer now later number m =
     (case trunk_get now m number of
        Some d \<Rightarrow> m
      | None \<Rightarrow> (case answer of
                   Inl NotFound \<Rightarrow> trunk_put later number None (gm_del number m)
                 | Inl ApiFailure \<Rightarrow> gm_del number m
                 | Inr d \<Rightarrow> trunk_put later number (Some d) (gm_del number m)))"

interpretation creds: lookup_cache "[]" cred_put cred_get "\<lambda>_. cacheTTL" "\<lambda>_. True" cred_look_up
proof unfold_locales
  fix s t t' now e and k k' :: string
  assume "k' \<noteq> k"
  then show "cred_get now (cred_look_up e t t' k s) k' = cred_get now s k'"
    by (simp add: cred_look_up_def split: option.split sum.split)
qed (auto simp: cred_get_def [of _ "[]"] cred_look_up_def intro: cred_get_earlier)

interpretation trunks: lookup_cache "[]" trunk_put trunk_get trunk_ttl "\<lambda>_. True" trunk_look_up
proof unfold_locales
  fix s t t' now e and k k' :: string
  assume "k' \<noteq> k"
  then show "trunk_get now (trunk_look_up e t t' k s) k' = trunk_get now s k'"
    by (simp add: trunk_look_up_def split: option.split sum.split api_error.split)
qed (auto simp: trunk_get_def [of _ "[]"] trunk_look_up_def intro: trunk_get_earlier)

lemma GetUserPassword_cache:
  "ia_credCache (snd (GetUserPassword E now later u d a)) =
     cred_look_up (fetch_credentials E a u d) now later (cred_key u d) (ia_credCache a)"
  by (simp add: GetUserPassword_def cred_look_up_def Let_def split: option.split sum.split)

lemma GetSIPTrunk_cache:
  "ia_trunkCache (snd (GetSIPTrunk E now later number a)) =
     trunk_look_up (fetch_trunk E a number) now later number (ia_trunkCache a)"
  by (simp add: GetSIPTrunk_def trunk_look_up_def Let_def rememberTrunkNets_def
      split: option.split sum.split api_error.split)

section \<open>Histories of lookups\<close>

text \<open>A lookup: what the network and server do meanwhile, the two instants, what is asked.\<close>

datatype api_call =
    AskPassword http_env instant instant string string
  | AskTrunk http_env instant instant string

fun api_step :: "api_call \<Rightarrow> internalAPI \<Rightarrow> internalAPI" where
  "api_step (AskPassword E now later u d) a = snd (GetUserPassword E now later u d a)"
| "api_step (AskTrunk E now later number) a = snd (GetSIPTrunk E now later number a)"

fun call_before :: "instant \<Rightarrow> api_call \<Rightarrow> bool" where
  "call_before t (AskPassword E now later u d) \<longleftrightarrow> now \<le> t \<and> later \<le> t"
| "call_before t (AskTrunk E now later number) \<longleftrightarrow> now \<le> t \<and> later \<le> t"

lemma password_stays:
  "cred_get now (ia_credCache a) key = Some p \<Longrightarrow> list_all (call_before now) h \<Longrightarrow>
     cred_get now (ia_credCache (fold api_step h a)) key = Some p"
proof (induction h arbitrary: a)
  case Nil
  then show ?case by simp
next
  case (Cons c h)
  have "cred_get now (ia_credCache (api_step c a)) key = Some p"
  proof (cases c)
    case (AskPassword E t t' u d)
    with Cons.prems creds.fresh_entry_stays [where s = "ia_credCache a" and now = now and k = key and v = p and h = "[(fetch_credentials E a u d, t, t', cred_key u d)]"]
    show ?thesis by (simp add: GetUserPassword_cache)
  next
    case (AskTrunk E t t' number)
    with Cons.prems(1) show ?thesis
      by (simp add: GetSIPTrunk_def rememberTrunkNets_def Let_def split: option.split sum.split api_error.split)
  qed
  with Cons show ?case by simp
qed

lemma trunk_stays:
  "trunk_get now (ia_trunkCache a) number = Some d \<Longrightarrow> list_all (call_before now) h \<Longrightarrow>
     trunk_get now (ia_trunkCache (fold api_step h a)) number = Some d"
proof (induction h arbitrary: a)
  case Nil
  then show ?case by simp
next
  case (Cons c h)
  have "trunk_get now (ia_trunkCache (api_step c a)) number = Some d"
  proof (cases c)
    case (AskTrunk E t t' n)
    with Cons.prems trunks.fresh_entry_stays [where s = "ia_trunkCache a" and now = now and k = number and v = d and h = "[(fetch_trunk E a n, t, t', n)]"]
    show ?thesis by (simp add: GetSIPTrunk_cache)
  next
    case (AskPassword E t t' u d)
    with Cons.prems(1) show ?thesis
      by (simp add: GetUserPassword_def Let_def split: option.split sum.split)
  qed
  with Cons show ?case by simp
qed

text \<open>
  Property (C33). What the server said is believed for a while and not asked again: once a password was
  fetched it is returned for five minutes, once a trunk was fetched it is returned for five
  minutes, and once a number was unknown it stays unknown for a minute, whatever other
  lookups happen in between and whatever the server would answer now (\<open>E'\<close>).
\<close>

theorem answers_are_cached:
  assumes "list_all (call_before now) h"
  shows "(\<forall>p. fst (GetUserPassword E t later u d a) = Inr p \<and> now < later + 5 * 60 * 1000000000
              \<and> cred_get t (ia_credCache a) (cred_key u d) = None \<longrightarrow>
            fst (GetUserPassword E' now later' u d (fold api_step h (api_step (AskPassword E t later u d) a))) = Inr p)
       \<and> (\<forall>td. fst (GetSIPTrunk E t later number a) = Inr td \<and> now < later + 5 * 60 * 1000000000
              \<and> trunk_get t (ia_trunkCache a) number = None \<longrightarrow>
            fst (GetSIPTrunk E' now later' number (fold api_step h (api_step (AskTrunk E t later number) a))) = Inr td)
       \<and> (fst (GetSIPTrunk E t later number a) = Inl NotFound \<and> now < later + 60 * 1000000000
              \<and> trunk_get t (ia_trunkCache a) number = None \<longrightarrow>
            fst (GetSIPTrunk E' now later' number (fold api_step h (api_step (AskTrunk E t later number) a))) = Inl NotFound)"
proof (intro conjI allI impI; elim conjE)
  fix p
  assume fetched: "fst (GetUserPassword E t later u d a) = Inr p" "cred_get t (ia_credCache a) (cred_key u d) = None"
    and soon: "now < later + 5 * 60 * 1000000000"
  then have "cred_get now (ia_credCache (api_step (AskPassword E t later u d) a)) (cred_key u d) = Some p"
    by (auto simp: GetUserPassword_def Let_def cacheTTL_def split: sum.splits)
  from password_stays [OF this assms]
  show "fst (GetUserPassword E' now later' u d (fold api_step h (api_step (AskPassword E t later u d) a))) = Inr p"
    unfolding GetUserPassword_def [of E'] by (simp add: Let_def)
next
  fix td
  assume fetched: "fst (GetSIPTrunk E t later number a) = Inr td" "trunk_get t (ia_trunkCache a) number = None"
    and soon: "now < later + 5 * 60 * 1000000000"
  then have "trunk_get now (ia_trunkCache (api_step (AskTrunk E t later number) a)) number = Some (Some td)"
    by (auto simp: GetSIPTrunk_def Let_def trunk_ttl_def cacheTTL_def rememberTrunkNets_def
        split: sum.splits api_error.splits)
  from trunk_stays [OF this assms]
  show "fst (GetSIPTrunk E' now later' number (fold api_step h (api_step (AskTrunk E t later number) a))) = Inr td"
    unfolding GetSIPTrunk_def [of E'] by (simp add: Let_def)
next
  assume fetched: "fst (GetSIPTrunk E t later number a) = Inl NotFound" "trunk_get t (ia_trunkCache a) number = None"
    and soon: "now < later + 60 * 1000000000"
  then have "trunk_get now (ia_trunkCache (api_step (AskTrunk E t later number) a)) number = Some None"
    by (auto simp: GetSIPTrunk_def Let_def trunk_ttl_def unknownTrunkTTL_def rememberTrunkNets_def
        split: sum.splits api_error.splits)
  from trunk_stays [OF this assms]
  show "fst (GetSIPTrunk E' now later' number (fold api_step h (api_step (AskTrunk E t later number) a))) = Inl NotFound"
    unfolding GetSIPTrunk_def [of E'] by (simp add: Let_def)
qed

section \<open>Where the answers come from\<close>

text \<open>What the server told the program during a history: fetched passwords with the instant
  they were stored, and fetched trunks.\<close>

fun passwords_told :: "api_call list \<Rightarrow> internalAPI \<Rightarrow> (instant \<times> string \<times> string) list" where
  "passwords_told [] a = []"
| "passwords_told (AskPassword E now later u d # h) a =
     (if cred_get now (ia_credCache a) (cred_key u d) = None
      then (case fetch_credentials E a u d of Inr p \<Rightarrow> [(later, cred_key u d, p)] | Inl e \<Rightarrow> []) else [])
     @ passwords_told h (api_step (AskPassword E now later u d) a)"
| "passwords_told (AskTrunk E now later number # h) a =
     passwords_told h (api_step (AskTrunk E now later number) a)"

fun trunks_told :: "api_call list \<Rightarrow> internalAPI \<Rightarrow> trunkData list" where
  "trunks_told [] a = []"
| "trunks_told (AskTrunk E now later number # h) a =
     (if trunk_get now (ia_trunkCache a) number = None
      then (case fetch_trunk E a number of Inr d \<Rightarrow> [d] | Inl e \<Rightarrow> []) else [])
     @ trunks_told h (api_step (AskTrunk E now later number) a)"
| "trunks_told (AskPassword E now later u d # h) a =
     trunks_told h (api_step (AskPassword E now later u d) a)"

lemma cred_cache_step:
  assumes "gm_get (ia_credCache (api_step (AskPassword E now later u d) a)) key = Some e"
  shows "gm_get (ia_credCache a) key = Some e
    \<or> (later, key, cc_password e) \<in> set (passwords_told [AskPassword E now later u d] a)
        \<and> cc_expiresAt e = later + cacheTTL"
proof (cases "cred_get now (ia_credCache a) (cred_key u d)")
  case (Some p)
  with assms show ?thesis by (simp add: GetUserPassword_cache cred_look_up_def)
next
  case None
  with assms show ?thesis
    by (cases "fetch_credentials E a u d")
      (auto simp: GetUserPassword_cache cred_look_up_def cred_put_def split: if_splits)
qed

lemma cred_cache_told:
  "gm_get (ia_credCache (fold api_step h a)) key = Some e \<Longrightarrow>
     gm_get (ia_credCache a) key = Some e
     \<or> (\<exists>t. (t, key, cc_password e) \<in> set (passwords_told h a) \<and> cc_expiresAt e = t + cacheTTL)"
proof (induction h a rule: passwords_told.induct)
  case (1 a)
  then show ?case by simp
next
  case (2 E now later u d h a)
  from "2.prems" have "gm_get (ia_credCache (fold api_step h (api_step (AskPassword E now later u d) a))) key = Some e"
    by simp
  note IH = "2.IH" [OF this]
  have "passwords_told (AskPassword E now later u d # h) a =
      passwords_told [AskPassword E now later u d] a @ passwords_told h (api_step (AskPassword E now later u d) a)"
    by simp
  then have told: "set (passwords_told (AskPassword E now later u d # h) a) =
      set (passwords_told [AskPassword E now later u d] a)
      \<union> set (passwords_told h (api_step (AskPassword E now later u d) a))"
    by (simp only: set_append)
  show ?case unfolding told using IH cred_cache_step [of E now later u d a key e] by blast
next
  case (3 E now later number h a)
  from "3.IH" "3.prems" show ?case
    by (auto simp: GetSIPTrunk_def Let_def rememberTrunkNets_def
        split: option.splits sum.splits api_error.splits)
qed

lemma fetched_nonempty: "fetch_credentials E a u d = Inr p \<Longrightarrow> p \<noteq> []"
  by (auto simp: fetch_credentials_def split: http_answer.splits if_splits option.splits)

text \<open>
  Property (C34). A password the program uses was told by the server for that user: either in answer to
  this very lookup, or, in the history since startup, less than five minutes before.
\<close>

theorem passwords_come_from_the_server:
  assumes "fst (GetUserPassword E now later u d (fold api_step h (newInternalAPI cfg))) = Inr p"
  shows "fetch_credentials E (newInternalAPI cfg) u d = Inr p
       \<or> (\<exists>t. (t, u @ ''@'' @ d, p) \<in> set (passwords_told h (newInternalAPI cfg))
              \<and> now < t + 5 * 60 * 1000000000)"
proof -
  let ?a = "fold api_step h (newInternalAPI cfg)"
  have same: "fetch_credentials E (fold api_step h a) u d = fetch_credentials E a u d" for a
  proof (induction h arbitrary: a)
    case (Cons c h)
    have "fetch_credentials E (api_step c a) u d = fetch_credentials E a u d"
      by (cases c) (auto simp: fetch_credentials_def post_request_def GetUserPassword_def GetSIPTrunk_def
          Let_def rememberTrunkNets_def split: option.split sum.split api_error.split)
    with Cons show ?case by simp
  qed simp
  show ?thesis
  proof (cases "cred_get now (ia_credCache ?a) (cred_key u d)")
    case None
    with assms same [of "newInternalAPI cfg"] show ?thesis
      by (auto simp: GetUserPassword_def Let_def split: sum.splits)
  next
    case (Some q)
    with assms have "q = p" by (simp add: GetUserPassword_def Let_def)
    with Some obtain e where e: "gm_get (ia_credCache ?a) (cred_key u d) = Some e"
      and "now < cc_expiresAt e" "cc_password e = p"
      by (auto simp: cred_get_def split: option.splits if_splits)
    with cred_cache_told [OF e] show ?thesis
      by (auto simp: newInternalAPI_def cacheTTL_def cred_key_def)
  qed
qed

definition nets_hold :: "string list \<Rightarrow> (string, ipnet) gomap \<Rightarrow> bool" where
  "nets_hold cidrs nets \<longleftrightarrow> gm_ok nets \<and> (\<forall>cidr. gm_get nets cidr = (if cidr \<in> set cidrs then parse_cidr cidr else None))"

lemma nets_hold_cong: "set cidrs = set cidrs' \<Longrightarrow> nets_hold cidrs nets = nets_hold cidrs' nets"
  by (simp add: nets_hold_def)

lemma nets_hold_one: "nets_hold cidrs nets \<Longrightarrow> nets_hold (cidr # cidrs) (remember_net cidr nets)"
  by (auto simp: nets_hold_def remember_net_def split: option.split)

lemma nets_hold_many: "nets_hold cidrs nets \<Longrightarrow> nets_hold (rev new @ cidrs) (fold remember_net new nets)"
  by (induction new arbitrary: cidrs nets) (simp_all add: nets_hold_one)

lemma nets_hold_run:
  "nets_hold cidrs (ia_trunkNets a) \<Longrightarrow>
     nets_hold (cidrs @ concat (map td_InboundIPs (trunks_told h a))) (ia_trunkNets (fold api_step h a))"
proof (induction h a arbitrary: cidrs rule: trunks_told.induct)
  case (1 a)
  then show ?case by simp
next
  case (2 E now later number h a)
  let ?a = "api_step (AskTrunk E now later number) a"
  let ?new = "if trunk_get now (ia_trunkCache a) number = None
      then (case fetch_trunk E a number of Inr d \<Rightarrow> td_InboundIPs d | Inl e \<Rightarrow> []) else []"
  have "ia_trunkNets ?a = fold remember_net ?new (ia_trunkNets a)"
    by (auto simp: GetSIPTrunk_def Let_def rememberTrunkNets_def split: option.split sum.split api_error.split)
  with nets_hold_many [OF "2.prems", of ?new] have "nets_hold (cidrs @ ?new) (ia_trunkNets ?a)"
    using nets_hold_cong [of "rev ?new @ cidrs" "cidrs @ ?new"] by (simp only: set_append set_rev Un_commute)
  from "2.IH" [OF this] show ?case by (auto split: sum.splits if_splits)
next
  case (3 E now later u d h a)
  then show ?case by (simp add: GetUserPassword_def Let_def split: option.splits sum.splits)
qed

lemma list_ex_option:
  "list_ex (\<lambda>c. case f c of None \<Rightarrow> False | Some n \<Rightarrow> P n) xs \<longleftrightarrow> (\<exists>c \<in> set xs. \<exists>n. f c = Some n \<and> P n)"
  by (induction xs) (auto split: option.splits)

text \<open>
  Property (C35). A source counts as a trunk exactly when it lies in the inbound networks of some trunk the
  server described since startup: the networks outlive the five minutes of the cache, and a
  trunk's own check (\<open>isIPAllowed\<close>) admits no source that would not be exempt from bans.
\<close>

theorem trunk_networks_are_remembered:
  "IsTrunkIP (fold api_step h (newInternalAPI cfg)) addr
     \<longleftrightarrow> isIPAllowed addr (concat (map td_InboundIPs (trunks_told h (newInternalAPI cfg))))"
proof -
  define cidrs where "cidrs = concat (map td_InboundIPs (trunks_told h (newInternalAPI cfg)))"
  let ?nets = "ia_trunkNets (fold api_step h (newInternalAPI cfg))"
  have "nets_hold [] (ia_trunkNets (newInternalAPI cfg))" by (simp add: nets_hold_def newInternalAPI_def)
  from nets_hold_run [OF this, of h] have hold: "nets_hold cidrs ?nets" by (simp add: cidrs_def)
  have "(cidr, n) \<in> set ?nets \<longleftrightarrow> cidr \<in> set cidrs \<and> parse_cidr cidr = Some n" for cidr n
    using hold gm_get_in_set [of ?nets cidr n] by (auto simp: nets_hold_def)
  then have "list_ex (\<lambda>(cidr, network). net_contains network x) ?nets
      \<longleftrightarrow> (\<exists>cidr \<in> set cidrs. \<exists>n. parse_cidr cidr = Some n \<and> net_contains n x)" for x
    by (fastforce simp: list_ex_iff)
  also have "\<dots> x \<longleftrightarrow> list_ex (\<lambda>cidr. case parse_cidr cidr of None \<Rightarrow> False | Some n \<Rightarrow> net_contains n x) cidrs" for x
    by (simp only: list_ex_option)
  finally have nets: "list_ex (\<lambda>(cidr, network). net_contains network x) ?nets \<longleftrightarrow>
      list_ex (\<lambda>cidr. case parse_cidr cidr of None \<Rightarrow> False | Some n \<Rightarrow> net_contains n x) cidrs" for x .
  show ?thesis
    unfolding cidrs_def [symmetric] IsTrunkIP_def isIPAllowed_def nets by (simp split: option.split)
qed

section \<open>Witnesses\<close>

text \<open>A server that knows everything, one that knows nothing, and one that does not answer.\<close>

definition demo_trunk :: trunkData where
  "demo_trunk = \<lparr>td_InboundIPs = [''198.51.100.0/24''], td_OutboundContact = ''sip.example.net'',
     td_OutboundUser = ''u'', td_OutboundPass = ''p''\<rparr>"

definition demo_server :: http_env where
  "demo_server = \<lparr>http_do = (\<lambda>_. HttpAnswer 200 ''s3cret''), json_p = Some, json_trunk = (\<lambda>_. Some demo_trunk)\<rparr>"

definition unknown_server :: http_env where
  "unknown_server = \<lparr>http_do = (\<lambda>_. HttpAnswer 404 []), json_p = (\<lambda>_. None), json_trunk = (\<lambda>_. None)\<rparr>"

definition silent_server :: http_env where
  "silent_server = \<lparr>http_do = (\<lambda>_. HttpNoAnswer), json_p = (\<lambda>_. None), json_trunk = (\<lambda>_. None)\<rparr>"

abbreviation demo_api :: internalAPI where
  "demo_api \<equiv> newInternalAPI (loadConfig (\<lambda>_. []))"

lemma demo_answers [simp]:
  "fetch_credentials demo_server a u d = Inr ''s3cret''"
  "fetch_trunk demo_server a number = Inr demo_trunk"
  "fetch_trunk unknown_server a number = Inl NotFound"
  by (simp_all add: fetch_credentials_def fetch_trunk_def demo_server_def unknown_server_def)

lemma demo_empty [simp]: "cred_get t (ia_credCache demo_api) k = None" "trunk_get t (ia_trunkCache demo_api) n = None"
  by (simp_all add: newInternalAPI_def cred_get_def trunk_get_def)

lemma answers_are_cached_witness:
  "fst (GetUserPassword silent_server 200 201 ''6001'' ''a.example.com''
      (fold api_step [AskTrunk silent_server 50 51 ''100'']
        (api_step (AskPassword demo_server 1 2 ''6001'' ''a.example.com'') demo_api))) = Inr ''s3cret''
   \<and> fst (GetSIPTrunk silent_server 200 201 ''200''
      (fold api_step [AskTrunk silent_server 50 51 ''100'']
        (api_step (AskTrunk demo_server 1 2 ''200'') demo_api))) = Inr demo_trunk
   \<and> fst (GetSIPTrunk demo_server 200 201 ''200''
      (fold api_step [AskTrunk silent_server 50 51 ''100'']
        (api_step (AskTrunk unknown_server 1 2 ''200'') demo_api))) = Inl NotFound"
proof -
  let ?h = "[AskTrunk silent_server 50 51 ''100'']"
  have before: "list_all (call_before 200) ?h" by simp
  have told: "fst (GetUserPassword demo_server 1 2 ''6001'' ''a.example.com'' demo_api) = Inr ''s3cret''"
    "fst (GetSIPTrunk demo_server 1 2 ''200'' demo_api) = Inr demo_trunk"
    "fst (GetSIPTrunk unknown_server 1 2 ''200'' demo_api) = Inl NotFound"
    by (simp_all add: GetUserPassword_def GetSIPTrunk_def Let_def)
  from told
    answers_are_cached [OF before, of demo_server 1 2 "''6001''" "''a.example.com''" demo_api silent_server 201 "''200''"]
    answers_are_cached [OF before, of unknown_server 1 2 "''6001''" "''a.example.com''" demo_api demo_server 201 "''200''"]
  show ?thesis by (simp del: api_step.simps fold_simps)
qed

lemma passwords_come_from_the_server_witness:
  "fetch_credentials demo_server demo_api ''6001'' ''a.example.com'' = Inr ''s3cret''
   \<or> (\<exists>t. (t, ''6001'' @ ''@'' @ ''a.example.com'', ''s3cret'') \<in> set (passwords_told [] demo_api)
          \<and> 1 < t + 5 * 60 * 1000000000)"
  by (rule passwords_come_from_the_server [where later = 2]) (simp add: GetUserPassword_def Let_def)

end
