(* ===== verification/Go_Md5.thy ===== *)
theory Go_Md5
  imports Go_Net
begin

text \<open>
  Go's \<^verbatim>\<open>crypto/md5\<close> (RFC 1321), on which the digest authentication of SIP
  rests: padding, the 64 steps on four 32-bit words that wrap around, and the 16-byte sum.
\<close>

type_synonym u32 = "32 word"
type_synonym md5_state = "u32 \<times> u32 \<times> u32 \<times> u32"

definition md5_init :: md5_state where
  "md5_init = (0x67452301, 0xefcdab89, 0x98badcfe, 0x10325476)"

definition md5_table :: "u32 list" where
  "md5_table =
    [0xd76aa478, 0xe8c7b756, 0x242070db, 0xc1bdceee, 0xf57c0faf, 0x4787c62a, 0xa8304613, 0xfd469501,
     0x698098d8, 0x8b44f7af, 0xffff5bb1, 0x895cd7be, 0x6b901122, 0xfd987193, 0xa679438e, 0x49b40821,
     0xf61e2562, 0xc040b340, 0x265e5a51, 0xe9b6c7aa, 0xd62f105d, 0x02441453, 0xd8a1e681, 0xe7d3fbc8,
     0x21e1cde6, 0xc33707d6, 0xf4d50d87, 0x455a14ed, 0xa9e3e905, 0xfcefa3f8, 0x676f02d9, 0x8d2a4c8a,
     0xfffa3942, 0x8771f681, 0x6d9d6122, 0xfde5380c, 0xa4beea44, 0x4bdecfa9, 0xf6bb4b60, 0xbebfbc70,
     0x289b7ec6, 0xeaa127fa, 0xd4ef3085, 0x04881d05, 0xd9d4d039, 0xe6db99e5, 0x1fa27cf8, 0xc4ac5665,
     0xf4292244, 0x432aff97, 0xab9423a7, 0xfc93a039, 0x655b59c3, 0x8f0ccc92, 0xffeff47d, 0x85845dd1,
     0x6fa87e4f, 0xfe2ce6e0, 0xa3014314, 0x4e0811a1, 0xf7537e82, 0xbd3af235, 0x2ad7d2bb, 0xeb86d391]"

definition md5_shift :: "nat \<Rightarrow> nat" where
  "md5_shift i =
    (if i < 16 then [7, 12, 17, 22] ! (i mod 4)
     else if i < 32 then [5, 9, 14, 20] ! (i mod 4)
     else if i < 48 then [4, 11, 16, 23] ! (i mod 4)
     else [6, 10, 15, 21] ! (i mod 4))"

definition rotl32 :: "nat \<Rightarrow> u32 \<Rightarrow> u32" where
  "rotl32 n w = push_bit n w OR drop_bit (32 - n) w"

definition md5_step :: "u32 list \<Rightarrow> nat \<Rightarrow> md5_state \<Rightarrow> md5_state" where
  "md5_step blk i st =
     (case st of (a, b, c, d) \<Rightarrow>
       let (f, g) =
         (if i < 16 then (b AND c OR NOT b AND d, i)
          else if i < 32 then (d AND b OR NOT d AND c, (5 * i + 1) mod 16)
          else if i < 48 then (b XOR c XOR d, (3 * i + 5) mod 16)
          else (c XOR (b OR NOT d), 7 * i mod 16))
       in (d, b + rotl32 (md5_shift i) (f + a + md5_table ! i + blk ! g), b, c))"

definition md5_block :: "u32 list \<Rightarrow> md5_state \<Rightarrow> md5_state" where
  "md5_block blk st =
     (case st of (a, b, c, d) \<Rightarrow>
        case fold (md5_step blk) [0..<64] st of (a', b', c', d') \<Rightarrow>
          (a + a', b + b', c + c', d + d'))"

fun le_words :: "nat list \<Rightarrow> u32 list" where
  "le_words (a # b # c # d # bs) = of_nat (a + 256 * (b + 256 * (c + 256 * d))) # le_words bs"
| "le_words _ = []"

fun le_bytes :: "nat \<Rightarrow> nat \<Rightarrow> nat list" where
  "le_bytes 0 n = []"
| "le_bytes (Suc k) n = n mod 256 # le_bytes k (n div 256)"

definition md5_pad :: "nat list \<Rightarrow> nat list" where
  "md5_pad bs =
     (let n = length bs
      in bs @ [128] @ replicate ((119 - n mod 64) mod 64) 0 @ le_bytes 8 ((8 * n) mod 2 ^ 64))"

fun md5_blocks :: "nat \<Rightarrow> u32 list \<Rightarrow> md5_state \<Rightarrow> md5_state" where
  "md5_blocks 0 ws st = st"
| "md5_blocks (Suc n) ws st = md5_blocks n (drop 16 ws) (md5_block (take 16 ws) st)"

definition md5_sum :: "nat list \<Rightarrow> nat list" where
  "md5_sum bs =
     (let p = md5_pad bs in
      case md5_blocks (length p div 64) (le_words p) md5_init of (a, b, c, d) \<Rightarrow>
        concat (map (\<lambda>w. le_bytes 4 (unat w)) [a, b, c, d]))"

definition md5_text :: "string \<Rightarrow> string" where
  "md5_text s = hex_text (md5_sum (map of_char s))"

lemma length_le_bytes [simp]: "length (le_bytes k n) = k"
  by (induction k arbitrary: n) simp_all

text \<open>The padding makes whole blocks of 64 bytes, and the sum has 16.\<close>

lemma md5_pad_blocks: "64 dvd length (md5_pad bs)"
proof -
  define n r where "n = length bs" and "r = n mod 64"
  then have r: "r < 64" by simp
  have "64 dvd r + (9 + (119 - r) mod 64)"
  proof (cases "r \<le> 55")
    case True
    then have "119 - r = (55 - r) + 64" by simp
    then have "(119 - r) mod 64 = 55 - r" by (simp only: mod_add_self2) simp
    with True show ?thesis by simp
  next
    case False
    with r have "(119 - r) mod 64 = 119 - r" by simp
    with r show ?thesis by simp
  qed
  then have "64 dvd 64 * (n div 64) + (r + (9 + (119 - r) mod 64))" by simp
  also have "64 * (n div 64) + (r + (9 + (119 - r) mod 64)) = n + (9 + (119 - r) mod 64)"
    by (simp add: r_def)
  finally have "64 dvd n + (9 + (119 - n mod 64) mod 64)" unfolding r_def .
  then show ?thesis by (simp add: md5_pad_def Let_def n_def)
qed

lemma length_md5_sum: "length (md5_sum bs) = 16"
  by (simp add: md5_sum_def Let_def split: prod.splits)

lemma length_md5_text: "length (md5_text s) = 32"
  by (simp add: md5_text_def length_md5_sum)

end
