(* ===== verification/Digest_Auth.thy ===== *)
theory Digest_Auth
  imports Sip_Message Go_Md5 "HOL-Library.Multiset"
begin

text \<open>
  Digest authentication (\<^verbatim>\<open>sbc/auth.go\<close>): the challenge, the parsing of the
  Authorization parameters and their check. The 16 random bytes of a nonce are an argument.
\<close>

section \<open>Definitions\<close>

definition md5Hex :: "string \<Rightarrow> string" where
  "md5Hex s = md5_text s"

definition generateNonce :: "nat list \<Rightarrow> string" where
  "generateNonce random = hex_text random"

definition challenge_value :: "string \<Rightarrow> string \<Rightarrow> string" where
  "challenge_value realm nonce =
     ''Digest realm='' @ [CHR 0x22] @ realm @ [CHR 0x22] @ '', nonce='' @ [CHR 0x22] @ nonce @ [CHR 0x22]
       @ '', algorithm=MD5, qop='' @ [CHR 0x22] @ ''auth'' @ [CHR 0x22]"

text \<open>The response \<^verbatim>\<open>sendAuthChallenge\<close> sends.\<close>

definition sendAuthChallenge :: "sipgo \<Rightarrow> nat list \<Rightarrow> request \<Rightarrow> string \<Rightarrow> response" where
  "sendAuthChallenge S random req realm =
     (let nonce = generateNonce random;
          resp = sg_new_response S req 401 ''Unauthorized'' []
      in resp\<lparr>rs_headers := sg_append S (HText ''WWW-Authenticate'' (challenge_value realm nonce)) (rs_headers resp)\<rparr>)"

definition parse_param :: "string \<Rightarrow> (string, string) gomap \<Rightarrow> (string, string) gomap" where
  "parse_param part0 params =
     (let part = trim_space part0 in
      case index_byte part CHR ''='' of
        None \<Rightarrow> params
      | Some i \<Rightarrow>
          let key = trim_space (take i part);
              val = trim_set {CHR 0x22} (trim_space (drop (i + 1) part))
          in gm_set key val params)"

definition parseDigestParams :: "string \<Rightarrow> (string, string) gomap" where
  "parseDigestParams s = fold parse_param (split_on CHR '','' s) []"

text \<open>Reading a key that is not there yields the empty string.\<close>

definition param_of :: "(string, string) gomap \<Rightarrow> string \<Rightarrow> string" where
  "param_of params k = (case gm_get params k of None \<Rightarrow> [] | Some v \<Rightarrow> v)"

definition digest_response :: "string \<Rightarrow> (string, string) gomap \<Rightarrow> string \<Rightarrow> string" where
  "digest_response meth params password =
     (let ha1 = md5Hex (param_of params ''username'' @ '':'' @ param_of params ''realm'' @ '':'' @ password);
          ha2 = md5Hex (meth @ '':'' @ param_of params ''uri'')
      in if param_of params ''qop'' = ''auth''
         then md5Hex (ha1 @ '':'' @ param_of params ''nonce'' @ '':'' @ param_of params ''nc'' @ '':''
                @ param_of params ''cnonce'' @ '':'' @ param_of params ''qop'' @ '':'' @ ha2)
         else md5Hex (ha1 @ '':'' @ param_of params ''nonce'' @ '':'' @ ha2))"

definition validateDigestAuth :: "request \<Rightarrow> string \<Rightarrow> bool" where
  "validateDigestAuth req password =
     (case get_header (rq_headers req) ''Authorization'' of
        None \<Rightarrow> False
      | Some h \<Rightarrow>
          if \<not> has_prefix (hdr_value h) ''Digest '' then False
          else
            let params = parseDigestParams (drop 7 (hdr_value h))
            in digest_response (rq_method req) params password = param_of params ''response'')"

section \<open>Reading back what a client wrote\<close>

text \<open>A parameter as clients write it: name, whether the value is quoted, value.\<close>

type_synonym digest_param = "string \<times> bool \<times> string"

fun param_text :: "digest_param \<Rightarrow> string" where
  "param_text (k, True, v) = k @ ''='' @ [CHR 0x22] @ v @ [CHR 0x22]"
| "param_text (k, False, v) = k @ ''='' @ v"

definition params_text :: "digest_param list \<Rightarrow> string" where
  "params_text ps = join_with '', '' (map param_text ps)"

definition param_wf :: "digest_param \<Rightarrow> bool" where
  "param_wf p \<longleftrightarrow> (case p of (k, q, v) \<Rightarrow>
     k \<noteq> [] \<and> list_all (\<lambda>c. printable c \<and> c \<notin> {CHR '','', CHR ''=''}) k
     \<and> list_all (\<lambda>c. c \<notin> {CHR '','', CHR 0x22}) v
     \<and> (\<not> q \<longrightarrow> v \<noteq> [] \<and> printable (hd v) \<and> printable (last v)))"

lemma dropWhile_none: "\<forall>c \<in> set s. \<not> P c \<Longrightarrow> dropWhile P s = s"
  by (cases s) auto

lemma trim_space_lead: "trim_space (CHR '' '' # s) = trim_space s"
  by (simp add: trim_space_def space_len_def ascii_space_def)

lemma param_text_eq: "param_text (k, q, v) = k @ CHR ''='' # (if q then CHR 0x22 # v @ [CHR 0x22] else v)"
  by (cases q) simp_all

lemma printable_quote: "printable CHR 0x22" "printable CHR ''=''"
  by (simp_all add: printable_def ascii_def ascii_space_def)

lemma parse_param_text:
  assumes "param_wf (k, q, v)"
  shows "trim_space (param_text (k, q, v)) = param_text (k, q, v)"
    and "parse_param (param_text (k, q, v)) m = gm_set k v m"
    and "CHR '','' \<notin> set (param_text (k, q, v))"
proof -
  let ?w = "if q then CHR 0x22 # v @ [CHR 0x22] else v"
  from assms have k: "k \<noteq> []" "\<forall>c \<in> set k. printable c \<and> c \<noteq> CHR '','' \<and> c \<noteq> CHR ''=''"
    and v: "\<forall>c \<in> set v. c \<noteq> CHR '','' \<and> c \<noteq> CHR 0x22"
    and nq: "\<not> q \<longrightarrow> v \<noteq> [] \<and> printable (hd v) \<and> printable (last v)"
    by (simp_all add: param_wf_def list_all_iff)
  have ends: "printable (hd k)" "printable (last k)" using k by simp_all
  have w: "?w \<noteq> []" "printable (hd ?w)" "printable (last ?w)" using nq printable_quote by simp_all
  show trimmed: "trim_space (param_text (k, q, v)) = param_text (k, q, v)"
    by (rule trim_space_id) (use k ends w in \<open>simp_all add: param_text_eq\<close>)
  have "index_byte (k @ CHR ''='' # ?w) CHR ''='' = Some (length k)"
    using k by (intro index_byte_append) auto
  moreover have "trim_space k = k" using k ends by (intro trim_space_id)
  moreover have "trim_space ?w = ?w" using w by (intro trim_space_id)
  moreover have "trim_set {CHR 0x22} ?w = v"
  proof (cases q)
    case True
    have stop: "dropWhile (\<lambda>c. c = CHR 0x22) (v @ [CHR 0x22]) = v @ [CHR 0x22]" if "v \<noteq> []"
      using that v by (cases v) auto
    have "dropWhile (\<lambda>c. c = CHR 0x22) (rev v) = rev v"
      using v by (intro dropWhile_none) simp
    with True stop show ?thesis by (cases "v = []") (auto simp: trim_set_def)
  next
    case False
    with v show ?thesis by (auto intro!: trim_set_id)
  qed
  ultimately show "parse_param (param_text (k, q, v)) m = gm_set k v m"
    unfolding parse_param_def Let_def trimmed by (simp add: param_text_eq)
  show "CHR '','' \<notin> set (param_text (k, q, v))" using k v by (auto simp: param_text_eq)
qed

lemma parse_param_lead: "parse_param (CHR '' '' # s) m = parse_param s m"
  by (simp add: parse_param_def trim_space_lead)

lemma parse_params_text:
  assumes "list_all param_wf ps" "ps \<noteq> []"
  shows "fold parse_param (split_on CHR '','' (params_text ps)) m = fold (\<lambda>(k, q, v). gm_set k v) ps m"
  using assms
proof (induction ps arbitrary: m)
  case Nil
  then show ?case by simp
next
  case (Cons p ps)
  obtain k q v where p: "p = (k, q, v)" by (cases p)
  with Cons.prems have wf: "param_wf (k, q, v)" by simp
  note one = parse_param_text [OF wf]
  show ?case
  proof (cases "ps = []")
    case True
    with one show ?thesis by (simp add: p params_text_def split_on_no_sep)
  next
    case False
    have "params_text (p # ps) = param_text p @ CHR '','' # CHR '' '' # params_text ps"
      using False by (simp add: params_text_def join_with_Cons)
    then have "split_on CHR '','' (params_text (p # ps)) =
        param_text p # split_on CHR '','' (CHR '' '' # params_text ps)"
      using one(3) by (simp add: p split_on_append)
    moreover obtain y ys where ys: "split_on CHR '','' (params_text ps) = y # ys"
      by (cases "split_on CHR '','' (params_text ps)") simp_all
    ultimately have "fold parse_param (split_on CHR '','' (params_text (p # ps))) m =
        fold parse_param (split_on CHR '','' (params_text ps)) (gm_set k v m)"
      using one(2) by (simp add: p parse_param_lead)
    then show ?thesis using Cons.IH [of "gm_set k v m"] Cons.prems False by (simp add: p)
  qed
qed

lemma get_fold_set:
  "distinct (map fst ps) \<Longrightarrow> gm_get (fold (\<lambda>(k, q, v). gm_set k v) ps m) x =
     (case find (\<lambda>p. fst p = x) ps of None \<Rightarrow> gm_get m x | Some p \<Rightarrow> Some (snd (snd p)))"
proof (induction ps arbitrary: m)
  case (Cons p ps)
  have "find (\<lambda>p'. fst p' = fst p) ps = None"
  proof -
    have "fst p \<notin> fst ` set ps" using Cons.prems by simp
    then show ?thesis by (fastforce simp: find_None_iff image_iff)
  qed
  with Cons show ?case by (auto split: prod.splits option.splits)
qed simp

lemma parse_params_get:
  assumes "list_all param_wf ps" "distinct (map fst ps)" "ps \<noteq> []"
  shows "param_of (parseDigestParams (params_text ps)) x =
    (case find (\<lambda>p. fst p = x) ps of None \<Rightarrow> [] | Some p \<Rightarrow> snd (snd p))"
  using parse_params_text [OF assms(1,3), of "[]"] get_fold_set [OF assms(2), of "[]" x]
  by (auto simp: parseDigestParams_def param_of_def split: option.splits prod.splits)

section \<open>What is accepted\<close>

text \<open>What the parameters a client writes say: the value under a name, the empty text without.\<close>

definition value_of :: "digest_param list \<Rightarrow> string \<Rightarrow> string" where
  "value_of ps k = (case find (\<lambda>p. fst p = k) ps of None \<Rightarrow> [] | Some (k', q, v) \<Rightarrow> v)"

lemma parse_params_value:
  assumes "list_all param_wf ps" "distinct (map fst ps)" "ps \<noteq> []"
  shows "param_of (parseDigestParams (params_text ps)) x = value_of ps x"
  by (auto simp: parse_params_get [OF assms] value_of_def split: option.split)

text \<open>The Authorization value of a client (RFC 2617, with or without quality of protection)
  that sends the response \<open>resp\<close>.\<close>

definition client_params :: "string \<Rightarrow> string \<Rightarrow> string \<Rightarrow> string \<Rightarrow> string \<Rightarrow> (string \<times> string) option \<Rightarrow> digest_param list" where
  "client_params user realm nonce u resp qop =
     [(''username'', True, user), (''realm'', True, realm), (''nonce'', True, nonce), (''uri'', True, u),
      (''response'', True, resp), (''algorithm'', False, ''MD5'')]
     @ (case qop of None \<Rightarrow> []
        | Some (cnonce, nc) \<Rightarrow> [(''cnonce'', True, cnonce), (''qop'', False, ''auth''), (''nc'', True, nc)])"

definition plain_value :: "string \<Rightarrow> bool" where
  "plain_value v \<longleftrightarrow> list_all (\<lambda>c. c \<notin> {CHR '','', CHR 0x22}) v"

text \<open>The response RFC 2617 prescribes.\<close>

definition rfc_response :: "string \<Rightarrow> string \<Rightarrow> string \<Rightarrow> string \<Rightarrow> string \<Rightarrow> string \<Rightarrow> (string \<times> string) option \<Rightarrow> string" where
  "rfc_response meth user realm password nonce u qop =
     (let ha1 = md5_text (user @ '':'' @ realm @ '':'' @ password); ha2 = md5_text (meth @ '':'' @ u)
      in case qop of
           None \<Rightarrow> md5_text (ha1 @ '':'' @ nonce @ '':'' @ ha2)
         | Some (cnonce, nc) \<Rightarrow>
             md5_text (ha1 @ '':'' @ nonce @ '':'' @ nc @ '':'' @ cnonce @ '':'' @ ''auth'' @ '':'' @ ha2))"

lemma client_params_wf:
  assumes "list_all plain_value [user, realm, nonce, u, resp]"
    "case qop of None \<Rightarrow> True | Some (cnonce, nc) \<Rightarrow> plain_value cnonce \<and> plain_value nc"
  shows "list_all param_wf (client_params user realm nonce u resp qop)"
    and "distinct (map fst (client_params user realm nonce u resp qop))"
    and "client_params user realm nonce u resp qop \<noteq> []"
  using assms by (auto simp: client_params_def param_wf_def plain_value_def printable_def ascii_def
      ascii_space_def split: option.splits)

text \<open>The response RFC 2617 prescribes for the parameters sent.\<close>

abbreviation rfc_expects :: "string \<Rightarrow> digest_param list \<Rightarrow> string \<Rightarrow> string" where
  "rfc_expects meth ps password \<equiv>
     rfc_response meth (value_of ps ''username'') (value_of ps ''realm'') password (value_of ps ''nonce'') (value_of ps ''uri'')
       (if value_of ps ''qop'' = ''auth'' then Some (value_of ps ''cnonce'', value_of ps ''nc'') else None)"

lemma digest_checked:
  assumes h: "get_header (rq_headers req) ''Authorization'' = Some h" "hdr_value h = ''Digest '' @ params_text ps"
    and ps: "list_all param_wf ps" "distinct (map fst ps)" "ps \<noteq> []"
  shows "validateDigestAuth req password \<longleftrightarrow> value_of ps ''response'' = rfc_expects (rq_method req) ps password"
proof -
  have "has_prefix (hdr_value h) ''Digest ''" "drop 7 (hdr_value h) = params_text ps"
    by (simp_all add: h(2) has_prefix_def)
  then show ?thesis
    by (auto simp: validateDigestAuth_def h(1) digest_response_def parse_params_value [OF ps] md5Hex_def rfc_response_def Let_def)
qed

lemma client_params_value:
  "value_of (client_params user realm nonce u resp qop) ''username'' = user"
  "value_of (client_params user realm nonce u resp qop) ''realm'' = realm"
  "value_of (client_params user realm nonce u resp qop) ''nonce'' = nonce"
  "value_of (client_params user realm nonce u resp qop) ''uri'' = u"
  "value_of (client_params user realm nonce u resp qop) ''response'' = resp"
  "value_of (client_params user realm nonce u resp qop) ''qop'' = (case qop of None \<Rightarrow> [] | Some _ \<Rightarrow> ''auth'')"
  "value_of (client_params user realm nonce u resp qop) ''cnonce'' = (case qop of None \<Rightarrow> [] | Some (cnonce, nc) \<Rightarrow> cnonce)"
  "value_of (client_params user realm nonce u resp qop) ''nc'' = (case qop of None \<Rightarrow> [] | Some (cnonce, nc) \<Rightarrow> nc)"
  by (auto simp: client_params_def value_of_def split: option.split)

lemma digest_accepted:
  assumes "get_header (rq_headers req) ''Authorization'' = Some h"
    and "hdr_value h = ''Digest '' @ params_text (client_params user realm nonce u resp qop)"
    and "list_all plain_value [user, realm, nonce, u, resp]"
    and "case qop of None \<Rightarrow> True | Some (cnonce, nc) \<Rightarrow> plain_value cnonce \<and> plain_value nc"
  shows "validateDigestAuth req password
     \<longleftrightarrow> resp = rfc_response (rq_method req) user realm password nonce u qop"
  using digest_checked [OF assms(1,2) client_params_wf [OF assms(3,4)], of password]
  by (auto simp: client_params_value split: option.split)


text \<open>
  A comma inside a quoted value is taken for the end of the parameter: a user name that has one
  is cut there, and the response that is accepted is the one for the name before the comma.
\<close>

lemma parse_params_lead:
  "fold parse_param (split_on CHR '','' (CHR '' '' # s)) m = fold parse_param (split_on CHR '','' s) m"
proof -
  obtain y ys where "split_on CHR '','' s = y # ys" by (cases "split_on CHR '','' s") simp_all
  then show ?thesis by (simp add: parse_param_lead)
qed

lemma parse_cut_parameter:
  assumes k: "param_wf (k, True, v)" and v: "v \<noteq> []" "printable (last v)" and w: "list_all (\<lambda>x. x \<notin> {CHR '','', CHR 0x22, CHR ''=''}) w"
    and ps: "ps \<noteq> []"
  shows "parseDigestParams (k @ ''='' @ [CHR 0x22] @ v @ '','' @ w @ [CHR 0x22] @ '', '' @ params_text ps)
    = parseDigestParams (params_text ((k, True, v) # ps))"
proof -
  let ?first = "k @ CHR ''='' # CHR 0x22 # v" and ?second = "w @ [CHR 0x22]"
  note one = parse_param_text [OF k]
  from k have kk: "k \<noteq> []" "\<forall>c \<in> set k. printable c \<and> c \<noteq> CHR '','' \<and> c \<noteq> CHR ''=''" and vv: "\<forall>c \<in> set v. c \<noteq> CHR '','' \<and> c \<noteq> CHR 0x22"
    by (simp_all add: param_wf_def list_all_iff)
  have "CHR '','' \<notin> set ?first" "CHR '','' \<notin> set ?second" using kk vv w by (auto simp: list_all_iff)
  then have split: "split_on CHR '','' (k @ ''='' @ [CHR 0x22] @ v @ '','' @ w @ [CHR 0x22] @ '', '' @ params_text ps) =
      ?first # ?second # split_on CHR '','' (CHR '' '' # params_text ps)"
    using split_on_append [of "CHR '',''" ?first "?second @ CHR '','' # CHR '' '' # params_text ps"]
      split_on_append [of "CHR '',''" ?second "CHR '' '' # params_text ps"] by simp
  have first: "parse_param ?first m = gm_set k v m" for m
  proof -
    have ends: "printable (hd k)" "printable (last k)" using kk by simp_all
    have "trim_space ?first = ?first" by (rule trim_space_id) (use kk(1) v ends in simp_all)
    moreover have "trim_space k = k" by (rule trim_space_id [OF kk(1) ends])
    moreover have "trim_space (CHR 0x22 # v) = CHR 0x22 # v"
      by (rule trim_space_id) (use v printable_quote in simp_all)
    moreover have "trim_set {CHR 0x22} (CHR 0x22 # v) = v"
    proof -
      have "dropWhile (\<lambda>c. c = CHR 0x22) (rev v @ [CHR 0x22]) = rev v @ [CHR 0x22]"
        using vv v(1) by (cases "rev v") auto
      moreover have "dropWhile (\<lambda>c. c = CHR 0x22) v = v" using vv by (intro dropWhile_none) simp
      moreover have "dropWhile (\<lambda>c. c = CHR 0x22) (rev v) = rev v" using vv by (intro dropWhile_none) simp
      ultimately show ?thesis by (simp add: trim_set_def)
    qed
    moreover have "index_byte ?first CHR ''='' = Some (length k)" using kk by (intro index_byte_append) auto
    ultimately show ?thesis by (simp add: parse_param_def)
  qed
  have second: "parse_param ?second m = m" for m
  proof -
    obtain a b where "?second = a @ trim_space ?second @ b" using trim_space_infix by blast
    then have "set (trim_space ?second) \<subseteq> set ?second" by (metis Un_iff set_append subsetI)
    moreover have "CHR ''='' \<notin> set ?second" using w by (auto simp: list_all_iff)
    ultimately have "index_byte (trim_space ?second) CHR ''='' = None" by (intro index_byte_absent) blast
    then show ?thesis by (simp add: parse_param_def)
  qed
  have "params_text ((k, True, v) # ps) = param_text (k, True, v) @ CHR '','' # CHR '' '' # params_text ps"
    using ps by (simp add: params_text_def join_with_Cons)
  then have "parseDigestParams (params_text ((k, True, v) # ps)) =
      fold parse_param (split_on CHR '','' (CHR '' '' # params_text ps)) (gm_set k v [])"
    unfolding parseDigestParams_def using split_on_append [OF one(3), of "CHR '' '' # params_text ps"]
    by (simp only: fold_simps one(2))
  then show ?thesis unfolding parseDigestParams_def split by (simp only: fold_simps first second)
qed

theorem comma_in_the_user_is_cut:
  assumes h: "get_header (rq_headers req) ''Authorization'' = Some h"
    and v: "hdr_value h = ''Digest username='' @ [CHR 0x22] @ user @ '','' @ rest @ [CHR 0x22] @ '', ''
        @ params_text (tl (client_params user realm nonce u resp qop))"
    and plain: "list_all plain_value [user, realm, nonce, u, resp]" "user \<noteq> []" "printable (last user)"
      "list_all (\<lambda>x. x \<notin> {CHR '','', CHR 0x22, CHR ''=''}) rest"
      "case qop of None \<Rightarrow> True | Some (cnonce, nc) \<Rightarrow> plain_value cnonce \<and> plain_value nc"
  shows "validateDigestAuth req password
     \<longleftrightarrow> resp = rfc_response (rq_method req) user realm password nonce u qop"
proof -
  let ?ps = "client_params user realm nonce u resp qop"
  note wf = client_params_wf [OF plain(1,5)]
  have hd: "?ps = (''username'', True, user) # tl ?ps" "tl ?ps \<noteq> []" by (simp_all add: client_params_def)
  with wf(1) have k: "param_wf (''username'', True, user)" by (metis list.pred_inject(2))
  have "drop 7 (hdr_value h) = ''username='' @ [CHR 0x22] @ user @ '','' @ rest @ [CHR 0x22] @ '', '' @ params_text (tl ?ps)"
    "has_prefix (hdr_value h) ''Digest ''" by (simp_all add: v has_prefix_def)
  moreover have "parseDigestParams (''username='' @ [CHR 0x22] @ user @ '','' @ rest @ [CHR 0x22] @ '', '' @ params_text (tl ?ps))
      = parseDigestParams (params_text ?ps)"
    using parse_cut_parameter [OF k plain(2-4) hd(2)] hd(1) by simp
  ultimately show ?thesis
    by (auto simp: validateDigestAuth_def h digest_response_def parse_params_value [OF wf] md5Hex_def
        rfc_response_def client_params_value Let_def split: option.split)
qed

text \<open>The challenge as a list of parameters, and its reading by the same parser.\<close>

lemma challenge_value_params:
  "challenge_value realm nonce = ''Digest '' @ params_text [(''realm'', True, realm), (''nonce'', True, nonce),
     (''algorithm'', False, ''MD5''), (''qop'', True, ''auth'')]"
  by (simp add: challenge_value_def params_text_def)

lemma hex_digit_char: "d < 16 \<Longrightarrow> hex_digit d \<in> set ''0123456789abcdef''"
  unfolding hex_digit_def by (intro nth_mem) simp

lemma hex_text_chars: "list_all (\<lambda>b. b < 256) bs \<Longrightarrow> set (hex_text bs) \<subseteq> set ''0123456789abcdef''"
proof (induction bs)
  case (Cons b bs)
  then have "b div 16 < 16" "b mod 16 < 16" by (simp_all add: less_mult_imp_div_less)
  from this [THEN hex_digit_char] Cons show ?case by (simp add: hex_text_def hex_byte_def)
qed (simp add: hex_text_def)

lemma hex_text_plain: "list_all (\<lambda>b. b < 256) bs \<Longrightarrow> plain_value (hex_text bs)"
  using hex_text_chars [of bs] by (fastforce simp: plain_value_def list_all_iff)

lemma generateNonce_plain: "list_all (\<lambda>b. b < 256) random \<Longrightarrow> plain_value (generateNonce random)"
  by (simp add: generateNonce_def hex_text_plain)

lemma le_bytes_256: "list_all (\<lambda>b. b < 256) (le_bytes k n)"
  by (induction k n rule: le_bytes.induct) simp_all

lemma md5_text_chars: "set (md5_text s) \<subseteq> set ''0123456789abcdef''"
  unfolding md5_text_def
  by (rule hex_text_chars) (simp add: md5_sum_def Let_def le_bytes_256 split: prod.splits)

lemma md5_text_plain: "plain_value (md5_text s)"
  using md5_text_chars [of s] by (fastforce simp: plain_value_def list_all_iff)

lemma rfc_response_plain: "plain_value (rfc_response meth user realm password nonce u qop)"
  by (simp add: rfc_response_def md5_text_plain Let_def split: option.split prod.split)

text \<open>The order of the parameters and their quoting do not matter.\<close>

lemma value_of_mset:
  assumes "distinct (map fst ps)" "mset (map (\<lambda>(k, q, v). (k, v)) ps) = mset (map (\<lambda>(k, q, v). (k, v)) ps')"
  shows "distinct (map fst ps')" "value_of ps x = value_of ps' x"
proof -
  let ?kv = "\<lambda>qs. map (\<lambda>(k, q :: bool, v). (k, v)) (qs :: digest_param list)"
  have keys: "map fst (?kv qs) = map fst qs" for qs by (simp add: case_prod_unfold)
  have val: "value_of qs x = (case map_of (?kv qs) x of None \<Rightarrow> [] | Some v \<Rightarrow> v)" for qs
    by (induction qs) (auto simp: value_of_def)
  have "mset (map fst qs) = image_mset fst (mset (?kv qs))" for qs by (simp only: mset_map [symmetric] keys)
  with assms(2) have "mset (map fst ps) = mset (map fst ps')" by simp
  with assms(1) show d: "distinct (map fst ps')" by (metis mset_eq_imp_distinct_iff)
  have "set (?kv ps) = set (?kv ps')" using assms(2) by (rule mset_eq_setD)
  then have "map_of (?kv ps) = map_of (?kv ps')"
    by (subst map_of_inject_set) (simp_all only: keys assms(1) d)
  then show "value_of ps x = value_of ps' x" by (simp add: val)
qed

lemma reordered:
  assumes "mset (map (\<lambda>(k, q, v). (k, v)) ps) = mset (map (\<lambda>(k, q, v). (k, v)) (client_params user realm nonce u resp qop))"
  shows "distinct (map fst ps)" "ps \<noteq> []" "value_of ps x = value_of (client_params user realm nonce u resp qop) x"
proof -
  have d: "distinct (map fst (client_params user realm nonce u resp qop))"
    by (auto simp: client_params_def split: option.splits)
  from value_of_mset [OF d assms [symmetric]] show "distinct (map fst ps)"
    "value_of ps x = value_of (client_params user realm nonce u resp qop) x" by simp_all
  show "ps \<noteq> []" using assms by (auto simp: client_params_def)
qed

lemma digest_reordered:
  assumes "get_header (rq_headers req) ''Authorization'' = Some h" "hdr_value h = ''Digest '' @ params_text ps"
    and same: "mset (map (\<lambda>(k, q, v). (k, v)) ps) = mset (map (\<lambda>(k, q, v). (k, v)) (client_params user realm nonce u resp qop))"
    and wf: "list_all param_wf ps"
  shows "validateDigestAuth req password \<longleftrightarrow> resp = rfc_response (rq_method req) user realm password nonce u qop"
proof -
  have "(if (case qop of None \<Rightarrow> [] | Some _ \<Rightarrow> ''auth'') = ''auth''
      then Some (case qop of None \<Rightarrow> [] | Some (cnonce, nc) \<Rightarrow> cnonce, case qop of None \<Rightarrow> [] | Some (cnonce, nc) \<Rightarrow> nc) else None) = qop"
    by (cases qop) auto
  then show ?thesis
    unfolding digest_checked [OF assms(1,2) wf reordered(1,2) [OF same]] reordered(3) [OF same] client_params_value
    by (simp only:)
qed

text \<open>The ways a client may answer the challenge, which offers \<^verbatim>\<open>qop="auth"\<close>: without quality of
  protection, or with a client nonce and a count of 8 characters.\<close>

definition answers :: "(string \<times> string) option \<Rightarrow> bool" where
  "answers qop \<longleftrightarrow> (case qop of None \<Rightarrow> True
     | Some (cnonce, nc) \<Rightarrow> cnonce \<noteq> [] \<and> plain_value cnonce \<and> length nc = 8 \<and> plain_value nc)"


section \<open>Witnesses\<close>

definition demo_register :: "string \<Rightarrow> request" where
  "demo_register authorization = \<lparr>rq_method = ''REGISTER'', rq_uri = mk_uri [] ''a.example.com'' 0,
     rq_headers = [HText ''Authorization'' authorization], rq_body = [], rq_source = ''203.0.113.9:5060'',
     rq_dest = [], rq_transport = ''UDP''\<rparr>"

lemma demo_register_header:
  "get_header (rq_headers (demo_register v)) ''Authorization'' = Some (HText ''Authorization'' v)"
  by (simp add: demo_register_def get_header_def named_def)



end
