(* ===== verification/Ip_Ban.thy ===== *)
theory Ip_Ban
  imports Ttl_Store Sip_Address Config
begin

text \<open>
  Banning of sources that fail too often, the memory of rejected calls and the filter on
  the SIP library's log (\<^verbatim>\<open>sbc/ip_ban.go\<close>). Each operation is one step under the
  component's mutex; the instant it reads from the clock is an argument. The decision which
  sources are exempt belongs to the proxy and is an argument too.
\<close>

section \<open>Bans\<close>

definition maxBanTime :: duration where
  "maxBanTime = 24 * 3600 * 1000000000"

record ipBanRecord =
  bn_failures :: int
  bn_windowStart :: instant
  bn_bans :: int
  bn_bannedUntil :: instant

definition new_record :: ipBanRecord where
  "new_record = \<lparr>bn_failures = 0, bn_windowStart = zero_time, bn_bans = 0, bn_bannedUntil = zero_time\<rparr>"

record ipban =
  ib_maxFailures :: int
  ib_window :: duration
  ib_banTime :: duration
  ib_sources :: "(string, ipBanRecord) gomap"
  ib_lastSweep :: instant

text \<open>\<open>None\<close> is the nil pointer, which bans nothing.\<close>

definition newIPBan :: "int \<Rightarrow> duration \<Rightarrow> duration \<Rightarrow> ipban option" where
  "newIPBan maxFailures window banTime =
     (if maxFailures \<le> 0 \<or> window \<le> 0 \<or> banTime \<le> 0 then None
      else Some \<lparr>ib_maxFailures = maxFailures, ib_window = window, ib_banTime = banTime,
                 ib_sources = [], ib_lastSweep = zero_time\<rparr>)"

definition Banned :: "instant \<Rightarrow> ipban option \<Rightarrow> string \<Rightarrow> bool" where
  "Banned now b addr =
     (case b of
        None \<Rightarrow> False
      | Some b \<Rightarrow> (case gm_get (ib_sources b) addr of
                    None \<Rightarrow> False
                  | Some r \<Rightarrow> now < bn_bannedUntil r))"

text \<open>The doubling loop, by the iterations that are left.\<close>

fun double_ban :: "nat \<Rightarrow> duration \<Rightarrow> duration" where
  "double_ban 0 ban = ban"
| "double_ban (Suc n) ban = (if ban < maxBanTime then double_ban n (wrap64 (ban * 2)) else ban)"

definition sweep :: "instant \<Rightarrow> ipban \<Rightarrow> ipban" where
  "sweep now b =
     (if time_sub now (ib_lastSweep b) < ib_window b then b
      else b\<lparr>ib_lastSweep := now,
             ib_sources := gm_filter (\<lambda>addr r.
               \<not> (time_sub now (bn_windowStart r) \<ge> ib_window b \<and>
                  (bn_bans r = 0 \<or> time_sub now (bn_bannedUntil r) \<ge> maxBanTime))) (ib_sources b)\<rparr>)"

text \<open>What \<^verbatim>\<open>Fail\<close> does to the record of the source, in the order of the code: nothing
  during a ban; forget old bans; start a new window; count; ban at the limit.\<close>

definition count_failure :: "instant \<Rightarrow> int \<Rightarrow> duration \<Rightarrow> duration \<Rightarrow> ipBanRecord \<Rightarrow> ipBanRecord" where
  "count_failure now maxFailures window banTime r0 =
     (if now < bn_bannedUntil r0 then r0
      else
        let r1 = (if bn_bans r0 > 0 \<and> time_sub now (bn_bannedUntil r0) \<ge> maxBanTime
                  then r0\<lparr>bn_bans := 0\<rparr> else r0);
            r2 = (if time_sub now (bn_windowStart r1) \<ge> window
                  then r1\<lparr>bn_failures := 0, bn_windowStart := now\<rparr> else r1);
            r3 = r2\<lparr>bn_failures := bn_failures r2 + 1\<rparr>
        in if bn_failures r3 < maxFailures then r3
           else
             let ban = min (double_ban (nat (bn_bans r3)) banTime) maxBanTime
             in r3\<lparr>bn_bans := bn_bans r3 + 1, bn_bannedUntil := now + ban, bn_failures := 0\<rparr>)"

definition Fail :: "instant \<Rightarrow> (string \<Rightarrow> bool) \<Rightarrow> string \<Rightarrow> ipban option \<Rightarrow> ipban option" where
  "Fail now neverBan addr b0 =
     (case b0 of
        None \<Rightarrow> None
      | Some b0 \<Rightarrow>
          if addr = [] \<or> neverBan addr then Some b0
          else
            let b = sweep now b0;
                r = (case gm_get (ib_sources b) addr of None \<Rightarrow> new_record | Some r \<Rightarrow> r)
            in Some (b\<lparr>ib_sources := gm_set addr
                 (count_failure now (ib_maxFailures b) (ib_window b) (ib_banTime b) r) (ib_sources b)\<rparr>))"

section \<open>Rejected calls\<close>

definition rejectedCallTTL :: duration where
  "rejectedCallTTL = 60 * 1000000000"

record rejectedCalls =
  rj_ids :: "(string, instant) gomap"
  rj_lastSweep :: instant

definition newRejectedCalls :: rejectedCalls where
  "newRejectedCalls = \<lparr>rj_ids = [], rj_lastSweep = zero_time\<rparr>"

definition remember_call :: "instant \<Rightarrow> string \<Rightarrow> rejectedCalls \<Rightarrow> rejectedCalls" where
  "remember_call now callID r =
     (let r1 = (if time_sub now (rj_lastSweep r) \<ge> rejectedCallTTL
                then r\<lparr>rj_lastSweep := now,
                       rj_ids := gm_filter (\<lambda>i at. \<not> time_sub now at \<ge> rejectedCallTTL) (rj_ids r)\<rparr>
                else r)
      in r1\<lparr>rj_ids := gm_set callID now (rj_ids r1)\<rparr>)"

definition rejected_add :: "instant \<Rightarrow> request \<Rightarrow> rejectedCalls \<Rightarrow> rejectedCalls" where
  "rejected_add now req r =
     (if rq_method req \<noteq> ''INVITE'' then r
      else (case rq_call_id req of None \<Rightarrow> r | Some callID \<Rightarrow> remember_call now callID r))"

definition rejected_has :: "instant \<Rightarrow> rejectedCalls \<Rightarrow> string \<Rightarrow> bool" where
  "rejected_has now r callID =
     (case gm_get (rj_ids r) callID of
        None \<Rightarrow> False
      | Some at \<Rightarrow> time_sub now at < rejectedCallTTL)"

section \<open>The log filter\<close>

text \<open>\<open>enabled\<close> is the wrapped handler's \<^verbatim>\<open>Enabled\<close>; the result is the record that
  reaches it, if any. Levels are slog's numbers: Debug is -4.\<close>

record log_record =
  lr_message :: string
  lr_level :: int

definition LevelDebug :: int where
  "LevelDebug = - 4"

definition quietHandle :: "(int \<Rightarrow> bool) \<Rightarrow> log_record \<Rightarrow> log_record option" where
  "quietHandle enabled r =
     (if lr_message r = ''ACK missed'' then
        let r' = r\<lparr>lr_level := LevelDebug\<rparr>
        in if \<not> enabled (lr_level r') then None else Some r'
      else Some r)"

section \<open>The length of a ban\<close>

lemma double_ban_eq:
  "0 < ban \<Longrightarrow> ban \<le> max_int64 \<Longrightarrow> min (double_ban n ban) maxBanTime = min (ban * 2 ^ n) maxBanTime"
proof (induction n arbitrary: ban)
  case 0
  then show ?case by simp
next
  case (Suc n)
  show ?case
  proof (cases "ban < maxBanTime")
    case True
    then have "ban * 2 \<le> max_int64" by (simp add: maxBanTime_def)
    with Suc.IH [of "ban * 2"] Suc.prems True show ?thesis
      by (simp add: wrap64_id fits64_def mult.assoc)
  next
    case False
    have "(1::int) \<le> 2 ^ Suc n" by (rule one_le_power) simp
    then have "ban * 1 \<le> ban * 2 ^ Suc n" using Suc.prems by (intro mult_left_mono) simp_all
    with False show ?thesis by simp
  qed
qed

lemma ban_pos: "0 < ban \<Longrightarrow> ban \<le> max_int64 \<Longrightarrow> 0 < min (double_ban n ban) maxBanTime"
  by (simp add: double_ban_eq) (simp add: maxBanTime_def)

section \<open>Histories\<close>

text \<open>A history of failed requests: instant, source, and whether the source was exempt.\<close>

type_synonym failure_history = "(instant \<times> string \<times> bool) list"

definition fail_all :: "failure_history \<Rightarrow> ipban option \<Rightarrow> ipban option" where
  "fail_all h b = fold (\<lambda>(now, addr, exempt). Fail now (\<lambda>_. exempt) addr) h b"

definition failure_times :: "string \<Rightarrow> failure_history \<Rightarrow> instant list" where
  "failure_times addr h = map fst (filter (\<lambda>(now, a, exempt). a = addr \<and> \<not> exempt \<and> a \<noteq> []) h)"

lemma fail_all_simps:
  "fail_all [] b = b"
  "fail_all ((now, addr, exempt) # h) b = fail_all h (Fail now (\<lambda>_. exempt) addr b)"
  by (simp_all add: fail_all_def)

section \<open>What can be observed of a record\<close>

text \<open>
  A record read at \<open>now\<close>: what the code would still take into account. Old bans are
  forgotten after a day of quiet, an elapsed window counts nothing. Times are instants since
  1970 and do not run backwards.
\<close>

locale ban_settings =
  fixes maxFailures :: int and window :: duration and banTime :: duration
  assumes limit_pos: "0 < maxFailures"
    and window_pos: "0 < window" and window_max: "window \<le> max_int64"
    and time_pos: "0 < banTime" and time_max: "banTime \<le> max_int64"
begin

abbreviation failed_at :: "instant \<Rightarrow> ipBanRecord \<Rightarrow> ipBanRecord" where
  "failed_at now \<equiv> count_failure now maxFailures window banTime"

definition quiet :: "instant \<Rightarrow> ipBanRecord \<Rightarrow> bool" where
  "quiet now r \<longleftrightarrow> bn_bannedUntil r + maxBanTime \<le> now"

definition over :: "instant \<Rightarrow> ipBanRecord \<Rightarrow> bool" where
  "over now r \<longleftrightarrow> bn_windowStart r + window \<le> now"

definition view :: "instant \<Rightarrow> ipBanRecord \<Rightarrow> ipBanRecord" where
  "view now r =
     (if now < bn_bannedUntil r then r
      else let bans = (if quiet now r then 0 else bn_bans r) in
        \<lparr>bn_failures = (if over now r then 0 else bn_failures r),
         bn_windowStart = (if over now r then zero_time else bn_windowStart r),
         bn_bans = bans,
         bn_bannedUntil = (if bans = 0 then zero_time else bn_bannedUntil r)\<rparr>)"

definition rec_ok :: "instant \<Rightarrow> ipBanRecord \<Rightarrow> bool" where
  "rec_ok now r \<longleftrightarrow> 0 \<le> bn_bans r \<and> 0 \<le> bn_failures r \<and> bn_failures r < maxFailures
     \<and> (bn_bans r = 0 \<longrightarrow> bn_bannedUntil r \<le> now)"

lemma time_sub_window: "time_sub now (bn_windowStart r) \<ge> window \<longleftrightarrow> over now r"
  by (simp add: over_def window_pos window_max)

lemma time_sub_quiet: "time_sub now (bn_bannedUntil r) \<ge> maxBanTime \<longleftrightarrow> quiet now r"
  by (simp add: quiet_def) (simp add: maxBanTime_def)

lemma zero_over: "0 \<le> now \<Longrightarrow> zero_time + window \<le> now"
  using window_max by (simp add: zero_time_def)

lemma zero_quiet: "0 \<le> now \<Longrightarrow> zero_time + maxBanTime \<le> now"
  by (simp add: zero_time_def maxBanTime_def)

lemma zero_past: "0 \<le> now \<Longrightarrow> zero_time \<le> now"
  by (simp add: zero_time_def)

lemma rec_ok_new: "0 \<le> now \<Longrightarrow> rec_ok now new_record"
  using limit_pos by (simp add: rec_ok_def new_record_def zero_past)

lemma rec_ok_mono: "rec_ok now r \<Longrightarrow> now \<le> t \<Longrightarrow> rec_ok t r"
  by (auto simp: rec_ok_def)

lemma view_new: "0 \<le> now \<Longrightarrow> view now new_record = new_record"
  using zero_past [of now] by (simp add: view_def new_record_def Let_def)

text \<open>The result of a counted failure: what is left of the old bans and of the window.\<close>

definition left_bans :: "instant \<Rightarrow> ipBanRecord \<Rightarrow> int" where
  "left_bans now r = (if bn_bans r > 0 \<and> quiet now r then 0 else bn_bans r)"

definition left_start :: "instant \<Rightarrow> ipBanRecord \<Rightarrow> instant" where
  "left_start now r = (if over now r then now else bn_windowStart r)"

definition left_failures :: "instant \<Rightarrow> ipBanRecord \<Rightarrow> int" where
  "left_failures now r = (if over now r then 0 else bn_failures r)"

definition ban_until :: "instant \<Rightarrow> ipBanRecord \<Rightarrow> instant" where
  "ban_until now r = now + min (double_ban (nat (left_bans now r)) banTime) maxBanTime"

lemma failed_at_eq:
  "failed_at now r =
     (if now < bn_bannedUntil r then r
      else if left_failures now r + 1 < maxFailures
      then \<lparr>bn_failures = left_failures now r + 1, bn_windowStart = left_start now r,
            bn_bans = left_bans now r, bn_bannedUntil = bn_bannedUntil r\<rparr>
      else \<lparr>bn_failures = 0, bn_windowStart = left_start now r,
            bn_bans = left_bans now r + 1, bn_bannedUntil = ban_until now r\<rparr>)"
  by (simp add: count_failure_def Let_def time_sub_window time_sub_quiet over_def quiet_def
      left_bans_def left_start_def left_failures_def ban_until_def)

lemma left_bans_nonneg: "rec_ok now r \<Longrightarrow> 0 \<le> left_bans now r"
  by (simp add: left_bans_def rec_ok_def)

lemma left_failures_range: "rec_ok now r \<Longrightarrow> 0 \<le> left_failures now r \<and> left_failures now r < maxFailures"
  using limit_pos by (simp add: left_failures_def rec_ok_def)

lemma rec_ok_failed: "rec_ok now r \<Longrightarrow> rec_ok now (failed_at now r)"
  using limit_pos left_bans_nonneg [of now r] left_failures_range [of now r]
  by (auto simp: failed_at_eq rec_ok_def)

lemma view_view: "now \<le> t \<Longrightarrow> 0 \<le> now \<Longrightarrow> view t (view now r) = view t r"
  using zero_over [of t] zero_quiet [of t] zero_past [of t]
  by (auto simp: view_def Let_def quiet_def over_def)

lemma view_banned: "now \<le> t \<Longrightarrow> 0 \<le> now \<Longrightarrow> bn_bans r = 0 \<longrightarrow> bn_bannedUntil r \<le> now \<Longrightarrow>
    t < bn_bannedUntil (view now r) \<longleftrightarrow> t < bn_bannedUntil r"
  using zero_past [of t] by (auto simp: view_def Let_def quiet_def maxBanTime_def)

lemma left_view:
  assumes "0 \<le> now" "rec_ok now r" "\<not> now < bn_bannedUntil r"
  shows "left_bans now (view now r) = left_bans now r"
    and "left_start now (view now r) = left_start now r"
    and "left_failures now (view now r) = left_failures now r"
    and "ban_until now (view now r) = ban_until now r"
    and "\<not> now < bn_bannedUntil (view now r)"
    and "left_bans now r \<noteq> 0 \<Longrightarrow> bn_bannedUntil (view now r) = bn_bannedUntil r"
proof -
  show bans: "left_bans now (view now r) = left_bans now r"
    using assms by (auto simp: left_bans_def view_def quiet_def Let_def rec_ok_def)
  show "left_start now (view now r) = left_start now r"
    using assms zero_over [of now] by (simp add: left_start_def view_def over_def Let_def)
  show "left_failures now (view now r) = left_failures now r"
    using assms zero_over [of now] by (simp add: left_failures_def view_def over_def Let_def)
  show "ban_until now (view now r) = ban_until now r" by (simp add: ban_until_def bans)
  show "\<not> now < bn_bannedUntil (view now r)"
    using assms zero_past [of now] by (simp add: view_def Let_def)
  show "bn_bannedUntil (view now r) = bn_bannedUntil r" if "left_bans now r \<noteq> 0"
    using assms that by (simp add: view_def Let_def left_bans_def rec_ok_def split: if_splits)
qed

lemma view_cong:
  assumes "bn_bans r = bn_bans r'" "bn_failures r = bn_failures r'" "bn_windowStart r = bn_windowStart r'"
    and "bn_bans r = 0 \<longrightarrow> bn_bannedUntil r \<le> t \<and> bn_bannedUntil r' \<le> t"
    and "bn_bans r \<noteq> 0 \<longrightarrow> bn_bannedUntil r = bn_bannedUntil r'"
  shows "view t r = view t r'"
proof (cases "bn_bans r = 0")
  case True
  with assms show ?thesis by (auto simp: view_def Let_def over_def)
next
  case False
  with assms have "r = r'" by (cases r; cases r') simp
  then show ?thesis by simp
qed

lemma view_failed:
  assumes t: "now \<le> t" "0 \<le> now" and ok: "rec_ok now r"
  shows "view t (failed_at now (view now r)) = view t (failed_at now r)"
proof (cases "now < bn_bannedUntil r")
  case True
  then show ?thesis by (simp add: view_def)
next
  case False
  note eqs = left_view [OF t(2) ok False]
  show ?thesis
    by (rule view_cong) (use t False eqs left_bans_nonneg [OF ok] in \<open>auto simp: failed_at_eq\<close>)
qed

definition record_of :: "ipban \<Rightarrow> string \<Rightarrow> ipBanRecord" where
  "record_of b addr = (case gm_get (ib_sources b) addr of None \<Rightarrow> new_record | Some r \<Rightarrow> r)"

definition sim :: "instant \<Rightarrow> ipban \<Rightarrow> (string \<Rightarrow> ipBanRecord) \<Rightarrow> bool" where
  "sim now b S \<longleftrightarrow> ib_maxFailures b = maxFailures \<and> ib_window b = window \<and> ib_banTime b = banTime
     \<and> gm_ok (ib_sources b)
     \<and> (\<forall>a. rec_ok now (record_of b a) \<and> rec_ok now (S a) \<and> view now (record_of b a) = view now (S a))"

lemma simD:
  assumes "sim now b S"
  shows "rec_ok now (record_of b a)" "rec_ok now (S a)" "view now (record_of b a) = view now (S a)"
  using assms by (simp_all add: sim_def)

lemma rec_ok_bans: "rec_ok now r \<Longrightarrow> bn_bans r = 0 \<longrightarrow> bn_bannedUntil r \<le> now"
  by (simp add: rec_ok_def)

lemma sim_mono:
  assumes "sim now b S" "now \<le> t" "0 \<le> now"
  shows "sim t b S"
proof -
  have "view t (record_of b a) = view t (S a)" for a
  proof -
    have "view t (record_of b a) = view t (view now (record_of b a))"
      using assms(2,3) by (simp add: view_view)
    also have "\<dots> = view t (view now (S a))" using assms(1) by (simp add: sim_def)
    also have "\<dots> = view t (S a)" using assms(2,3) by (simp add: view_view)
    finally show ?thesis .
  qed
  moreover have "rec_ok t (record_of b a)" "rec_ok t (S a)" for a
    using simD(1,2) [OF assms(1), of a] rec_ok_mono [OF _ assms(2)] by simp_all
  ultimately show ?thesis using assms(1) by (simp add: sim_def)
qed

lemma swept_view:
  assumes "rec_ok now r" "over now r" "bn_bans r = 0 \<or> quiet now r" "0 \<le> now"
  shows "view now r = new_record"
proof -
  have "\<not> now < bn_bannedUntil r"
    using assms by (auto simp: rec_ok_def quiet_def maxBanTime_def)
  with assms show ?thesis by (auto simp: view_def new_record_def Let_def)
qed

lemma sim_sweep:
  assumes "sim now b S" "0 \<le> now"
  shows "sim now (sweep now b) S"
proof -
  have ok: "gm_ok (ib_sources b)" and w: "ib_window b = window"
    and rec: "\<And>a. rec_ok now (record_of b a)" using assms(1) by (simp_all add: sim_def)
  have "rec_ok now (record_of (sweep now b) a) \<and> view now (record_of (sweep now b) a) = view now (record_of b a)" for a
  proof (cases "gm_get (ib_sources b) a")
    case None
    with rec [of a] ok show ?thesis by (simp add: sweep_def record_of_def gm_get_filter)
  next
    case (Some r)
    then have r: "record_of b a = r" by (simp add: record_of_def)
    show ?thesis
    proof (cases "time_sub now (ib_lastSweep b) < window \<or> \<not> (over now r \<and> (bn_bans r = 0 \<or> quiet now r))")
      case True
      then have "record_of (sweep now b) a = r"
        using Some ok by (auto simp: sweep_def record_of_def gm_get_filter w time_sub_window time_sub_quiet)
      with r rec [of a] show ?thesis by simp
    next
      case False
      then have "record_of (sweep now b) a = new_record"
        using Some ok by (auto simp: sweep_def record_of_def gm_get_filter w time_sub_window time_sub_quiet)
      moreover have "view now r = new_record" using False rec [of a] r assms(2) by (intro swept_view) auto
      ultimately show ?thesis using assms(2) r by (simp add: rec_ok_new view_new)
    qed
  qed
  with assms(1) show ?thesis by (auto simp: sim_def sweep_def)
qed

lemma sim_fail:
  assumes "sim now b S" "0 \<le> now" "addr \<noteq> []" "\<not> neverBan addr"
  shows "\<exists>b'. Fail now neverBan addr (Some b) = Some b' \<and> sim now b' (S(addr := failed_at now (S addr)))"
proof -
  let ?b = "sweep now b"
  let ?b' = "?b\<lparr>ib_sources := gm_set addr (failed_at now (record_of ?b addr)) (ib_sources ?b)\<rparr>"
  have s: "sim now ?b S" by (rule sim_sweep) (use assms in auto)
  then have run: "Fail now neverBan addr (Some b) = Some ?b'"
    using assms(3,4) by (simp add: Fail_def Let_def record_of_def sim_def)
  have rec: "record_of ?b' a = (if a = addr then failed_at now (record_of ?b addr) else record_of ?b a)" for a
    by (simp add: record_of_def)
  have "view now (failed_at now (record_of ?b addr)) = view now (failed_at now (view now (record_of ?b addr)))"
    by (rule view_failed [OF order_refl assms(2) simD(1) [OF s], symmetric])
  also have "\<dots> = view now (failed_at now (view now (S addr)))" by (simp only: simD(3) [OF s])
  also have "\<dots> = view now (failed_at now (S addr))"
    by (rule view_failed [OF order_refl assms(2) simD(2) [OF s]])
  finally have "sim now ?b' (S(addr := failed_at now (S addr)))"
    using s by (simp add: sim_def rec rec_ok_failed)
  with run show ?thesis by blast
qed

lemma sim_run:
  assumes "sim t0 b S" "0 \<le> t0" "sorted (t0 # map fst h @ [now])"
  shows "\<exists>b'. fail_all h (Some b) = Some b' \<and>
           sim now b' (\<lambda>a. fold failed_at (failure_times a h) (S a))"
  using assms
proof (induction h arbitrary: t0 b S)
  case Nil
  then show ?case using sim_mono by (fastforce simp: fail_all_simps failure_times_def)
next
  case (Cons e h)
  obtain t addr exempt where e: "e = (t, addr, exempt)" by (cases e)
  from Cons.prems have t: "t0 \<le> t" "0 \<le> t" "sorted (t # map fst h @ [now])" by (auto simp: e)
  from sim_mono [OF Cons.prems(1) t(1) Cons.prems(2)] have s: "sim t b S" .
  show ?case
  proof (cases "exempt \<or> addr = []")
    case True
    then have "Fail t (\<lambda>_. exempt) addr (Some b) = Some b" by (auto simp: Fail_def)
    moreover have "failure_times a (e # h) = failure_times a h" for a
      using True by (auto simp: failure_times_def e)
    ultimately show ?thesis using Cons.IH [OF s t(2,3)] by (simp add: fail_all_simps e)
  next
    case False
    then obtain b1 where "Fail t (\<lambda>_. exempt) addr (Some b) = Some b1"
      and s1: "sim t b1 (S(addr := failed_at t (S addr)))"
      using sim_fail [OF s t(2), of addr "\<lambda>_. exempt"] by auto
    moreover have "fold failed_at (failure_times a (e # h)) (S a) =
        fold failed_at (failure_times a h) ((S(addr := failed_at t (S addr))) a)" for a
      using False by (simp add: failure_times_def e)
    ultimately show ?thesis using Cons.IH [OF s1 t(2,3)] by (simp add: fail_all_simps e)
  qed
qed

lemma sim_new: "0 \<le> t \<Longrightarrow> newIPBan maxFailures window banTime = Some b \<Longrightarrow> sim t b (\<lambda>_. new_record)"
  by (auto simp: newIPBan_def sim_def record_of_def rec_ok_new split: if_splits)

lemma banned_after:
  assumes new: "newIPBan maxFailures window banTime = Some b" and t: "sorted (0 # map fst h @ [now])"
  shows "Banned now (fail_all h (Some b)) addr
     \<longleftrightarrow> now < bn_bannedUntil (fold failed_at (failure_times addr h) new_record)"
proof -
  obtain b' where b': "fail_all h (Some b) = Some b'"
    and s: "sim now b' (\<lambda>a. fold failed_at (failure_times a h) new_record)"
    using sim_run [OF sim_new [OF _ new] _ t] by auto
  have now: "0 \<le> now" using t by simp
  have "Banned now (Some b') addr \<longleftrightarrow> now < bn_bannedUntil (record_of b' addr)"
    using zero_past [OF now] by (simp add: Banned_def record_of_def new_record_def split: option.split)
  also have "\<dots> \<longleftrightarrow> now < bn_bannedUntil (view now (record_of b' addr))"
    by (rule view_banned [OF order_refl now rec_ok_bans [OF simD(1) [OF s]], symmetric])
  also have "\<dots> \<longleftrightarrow> now < bn_bannedUntil (view now (fold failed_at (failure_times addr h) new_record))"
    by (simp only: simD(3) [OF s])
  also have "\<dots> \<longleftrightarrow> now < bn_bannedUntil (fold failed_at (failure_times addr h) new_record)"
    by (rule view_banned [OF order_refl now rec_ok_bans [OF simD(2) [OF s]]])
  finally show ?thesis by (simp add: b')
qed

text \<open>How many of the failures fall into the window that starts at \<open>t0\<close>.\<close>

definition in_window :: "instant \<Rightarrow> instant list \<Rightarrow> int" where
  "in_window t0 ts = int (length (filter (\<lambda>t. t0 \<le> t \<and> t < t0 + window) ts))"

abbreviation after_failures :: "instant list \<Rightarrow> ipBanRecord" where
  "after_failures ts \<equiv> fold failed_at ts new_record"

lemma in_window_append: "in_window t0 (ts @ [t]) = in_window t0 ts + (if t0 \<le> t \<and> t < t0 + window then 1 else 0)"
  by (simp add: in_window_def)

lemma in_window_nonneg: "0 \<le> in_window t0 ts"
  by (simp add: in_window_def)

lemma justified:
  assumes "sorted (0 # ts)"
  defines "r \<equiv> after_failures ts"
  shows "bn_failures r \<le> in_window (bn_windowStart r) ts
       \<and> (bn_windowStart r = zero_time \<or> bn_windowStart r \<in> set ts)
       \<and> (bn_bannedUntil r = zero_time \<or> (\<exists>t0. maxFailures \<le> in_window t0 ts))"
  using assms(1) unfolding r_def
proof (induction ts rule: rev_induct)
  case Nil
  then show ?case by (simp add: new_record_def in_window_nonneg)
next
  case (snoc t ts)
  let ?r = "after_failures ts"
  from snoc.prems have "sorted (0 # ts)" and t: "0 \<le> t" "\<forall>s \<in> set ts. s \<le> t"
    by (auto simp: sorted_append)
  from snoc.IH [OF this(1)] have IH: "bn_failures ?r \<le> in_window (bn_windowStart ?r) ts"
    "bn_windowStart ?r = zero_time \<or> bn_windowStart ?r \<in> set ts"
    "bn_bannedUntil ?r = zero_time \<or> (\<exists>t0. maxFailures \<le> in_window t0 ts)" by simp_all
  have start: "bn_windowStart ?r \<le> t" using IH(2) t zero_past [OF t(1)] by auto
  have ex: "\<exists>t0. maxFailures \<le> in_window t0 (ts @ [t])" if "maxFailures \<le> in_window t0 ts" for t0
    using that by (intro exI [of _ t0]) (simp add: in_window_append)
  have counted: "left_failures t ?r + 1 \<le> in_window (left_start t ?r) (ts @ [t])"
    using IH(1) start window_pos in_window_nonneg [of t ts]
    by (simp add: left_failures_def left_start_def in_window_append over_def)
  have from_ts: "left_start t ?r = zero_time \<or> left_start t ?r \<in> set (ts @ [t])"
    using IH(2) by (auto simp: left_start_def)
  have step: "after_failures (ts @ [t]) = failed_at t ?r" by simp
  consider "t < bn_bannedUntil ?r" | "\<not> t < bn_bannedUntil ?r" "left_failures t ?r + 1 < maxFailures"
    | "\<not> t < bn_bannedUntil ?r" "\<not> left_failures t ?r + 1 < maxFailures" by blast
  then show ?case
  proof cases
    case 1
    then have "failed_at t ?r = ?r" by (subst failed_at_eq) simp
    moreover have "bn_failures ?r \<le> in_window (bn_windowStart ?r) (ts @ [t])"
      using IH(1) by (simp add: in_window_append)
    ultimately show ?thesis unfolding step using IH(2,3) ex by auto
  next
    case 2
    then have "failed_at t ?r = \<lparr>bn_failures = left_failures t ?r + 1, bn_windowStart = left_start t ?r,
            bn_bans = left_bans t ?r, bn_bannedUntil = bn_bannedUntil ?r\<rparr>"
      by (subst failed_at_eq) simp
    with IH(3) ex counted from_ts show ?thesis unfolding step by auto
  next
    case 3
    then have "failed_at t ?r = \<lparr>bn_failures = 0, bn_windowStart = left_start t ?r,
            bn_bans = left_bans t ?r + 1, bn_bannedUntil = ban_until t ?r\<rparr>"
      by (subst failed_at_eq) simp
    moreover from 3 counted have "maxFailures \<le> in_window (left_start t ?r) (ts @ [t])" by simp
    ultimately show ?thesis unfolding step using from_ts in_window_nonneg by auto
  qed
qed

lemma first_offence:
  assumes "sorted (0 # ts)" "ts \<noteq> []" "\<forall>t \<in> set ts. t < hd ts + window" "int (length ts) \<le> maxFailures"
  shows "after_failures ts =
    (if int (length ts) < maxFailures
     then \<lparr>bn_failures = int (length ts), bn_windowStart = hd ts, bn_bans = 0, bn_bannedUntil = zero_time\<rparr>
     else \<lparr>bn_failures = 0, bn_windowStart = hd ts, bn_bans = 1,
           bn_bannedUntil = last ts + min banTime maxBanTime\<rparr>)"
  using assms
proof (induction ts rule: rev_induct)
  case Nil
  then show ?case by simp
next
  case (snoc t ts)
  have t: "0 \<le> t" using snoc.prems(1) by (simp add: sorted_append)
  show ?case
  proof (cases "ts = []")
    case True
    with zero_over [OF t] zero_past [OF t] show ?thesis
      by (simp add: failed_at_eq new_record_def left_bans_def left_start_def left_failures_def
          over_def ban_until_def)
  next
    case False
    then have hd: "hd (ts @ [t]) = hd ts" by simp
    have IH: "after_failures ts =
        \<lparr>bn_failures = int (length ts), bn_windowStart = hd ts, bn_bans = 0, bn_bannedUntil = zero_time\<rparr>"
      using snoc False by (auto simp: sorted_append hd)
    have "\<not> over t (after_failures ts)" using snoc.prems(3) False by (simp add: IH over_def)
    then have left: "left_failures t (after_failures ts) = int (length ts)"
      "left_start t (after_failures ts) = hd ts" "left_bans t (after_failures ts) = 0"
      by (simp_all add: left_failures_def left_start_def left_bans_def IH)
    have "\<not> t < bn_bannedUntil (after_failures ts)" using zero_past [OF t] by (simp add: IH)
    then have "\<not> t < zero_time" by (simp add: IH)
    moreover have "after_failures (ts @ [t]) = failed_at t (after_failures ts)" by simp
    ultimately show ?thesis
      using left [unfolded IH] False by (simp only: IH) (simp add: failed_at_eq ban_until_def)
  qed
qed

end

text \<open>The settings the program runs with, and the defaults.\<close>

lemma ban_settings_new:
  "newIPBan maxFailures window banTime = Some b \<Longrightarrow> fits64 window \<Longrightarrow> fits64 banTime \<Longrightarrow>
     ban_settings maxFailures window banTime"
  by (unfold_locales) (auto simp: newIPBan_def fits64_def split: if_splits)

interpretation default_ban: ban_settings "BanFailures (loadConfig (\<lambda>_. []))"
    "BanWindow (loadConfig (\<lambda>_. []))" "BanTime (loadConfig (\<lambda>_. []))"
  by unfold_locales (simp_all add: loadConfig_empty)

text \<open>
  Each source is judged by its own counted failures alone: whatever other sources did in
  between and whenever the sweep ran, a source is banned exactly when counting its failures
  one after the other, with nothing ever forgotten by a sweep, says so. Exempt failures do
  not count.
\<close>

theorem sweep_and_others_do_not_matter:
  assumes "newIPBan maxFailures window banTime = Some b" "fits64 window" "fits64 banTime"
    and "sorted (0 # map fst h @ [now])"
  shows "Banned now (fail_all h (Some b)) addr
     \<longleftrightarrow> now < bn_bannedUntil (fold (\<lambda>t. count_failure t maxFailures window banTime)
                                (failure_times addr h) new_record)"
  by (rule ban_settings.banned_after [OF ban_settings_new [OF assms(1-3)] assms(1,4)])

text \<open>
  Property (C19). No source is ever banned without cause: a banned source failed at least the configured
  number of times, while not exempt, within one window.
\<close>

theorem banned_only_after_failures:
  assumes "newIPBan maxFailures window banTime = Some b" "fits64 window" "fits64 banTime"
    and "sorted (0 # map fst h @ [now])"
    and "Banned now (fail_all h (Some b)) addr"
  shows "\<exists>t0. maxFailures \<le> int (length (filter (\<lambda>t. t0 \<le> t \<and> t < t0 + window) (failure_times addr h)))"
proof -
  note set = ban_settings_new [OF assms(1-3)]
  have sorted: "sorted (0 # failure_times addr h)"
    using assms(4) by (auto simp: failure_times_def sorted_append sorted_filter)
  have "now < bn_bannedUntil (ban_settings.after_failures maxFailures window banTime (failure_times addr h))"
    using ban_settings.banned_after [OF set assms(1,4)] assms(5) by simp
  moreover have "zero_time \<le> now" using assms(4) by (simp add: zero_time_def)
  ultimately show ?thesis
    using ban_settings.justified [OF set sorted] by (auto simp: ban_settings.in_window_def [OF set])
qed

text \<open>
  The first ban of a source comes exactly with the configured number of failures within one
  window, neither earlier nor later, and lasts for the configured time, a day at most.
\<close>

theorem first_ban_exact:
  assumes "newIPBan maxFailures window banTime = Some b" "fits64 window" "fits64 banTime"
    and "sorted (0 # map fst h @ [now])"
    and "failure_times addr h = ts" "ts \<noteq> []" "\<forall>t \<in> set ts. t < hd ts + window"
    and "int (length ts) \<le> maxFailures"
  shows "Banned now (fail_all h (Some b)) addr
     \<longleftrightarrow> int (length ts) = maxFailures \<and> now < last ts + min banTime (24 * 3600 * 1000000000)"
proof -
  note set = ban_settings_new [OF assms(1-3)]
  have sorted: "sorted (0 # ts)"
    using assms(4,5) by (auto simp: failure_times_def sorted_append sorted_filter)
  have "zero_time \<le> now" using assms(4) by (simp add: zero_time_def)
  then show ?thesis
    unfolding ban_settings.banned_after [OF set assms(1,4)] assms(5)
      ban_settings.first_offence [OF set sorted assms(6-8)]
    using assms(8) by (simp add: maxBanTime_def)
qed

text \<open>
  Property (C32). A ban doubles with every repetition and never exceeds a day: the failure that reaches the
  limit bans for \<open>banTime * 2 ^ bans\<close>, cut at 24 hours, and the count of bans starts again
  after 24 hours of quiet; no multiplication overflows 64 bits.
\<close>

theorem ban_doubles_up_to_a_day:
  assumes "newIPBan maxFailures window banTime = Some b" "fits64 window" "fits64 banTime"
    and "\<not> now < bn_bannedUntil r" "0 \<le> bn_bans r"
    and "(if bn_windowStart r + window \<le> now then 0 else bn_failures r) + 1 = maxFailures"
  shows "(let r' = count_failure now maxFailures window banTime r;
              bans = (if bn_bannedUntil r + 24 * 3600 * 1000000000 \<le> now then 0 else bn_bans r)
          in bn_bannedUntil r' = now + min (banTime * 2 ^ nat bans) (24 * 3600 * 1000000000)
             \<and> bn_bans r' = bans + 1 \<and> bn_failures r' = 0)"
proof -
  note set = ban_settings_new [OF assms(1-3)]
  have bt: "0 < banTime" "banTime \<le> max_int64"
    using assms(1,3) by (auto simp: newIPBan_def fits64_def split: if_splits)
  show ?thesis
    unfolding ban_settings.failed_at_eq [OF set]
    using assms(4-6)
    by (simp add: Let_def ban_settings.ban_until_def [OF set] double_ban_eq [OF bt] ban_settings.left_bans_def [OF set]
        ban_settings.left_failures_def [OF set] ban_settings.over_def [OF set]
        ban_settings.quiet_def [OF set])
      (simp add: maxBanTime_def)
qed

section \<open>Remembering rejected calls\<close>

interpretation rejected: ttl_store newRejectedCalls "\<lambda>t callID u. remember_call t callID"
    "\<lambda>now r callID. if rejected_has now r callID then Some () else None" "\<lambda>_. rejectedCallTTL"
    "\<lambda>r. gm_ok (rj_ids r)"
proof unfold_locales
  fix r :: rejectedCalls and t now :: instant and k k' :: string
  assume ok: "gm_ok (rj_ids r)" and t: "t \<le> now" and k: "k' \<noteq> k"
  show "(if rejected_has now (remember_call t k r) k' then Some () else None) =
        (if rejected_has now r k' then Some () else None)"
    using ok t k by (auto simp: rejected_has_def remember_call_def Let_def gm_get_filter
        rejectedCallTTL_def not_le [symmetric] split: option.splits)
qed (auto simp: newRejectedCalls_def remember_call_def rejected_has_def Let_def rejectedCallTTL_def
    not_le [symmetric])

text \<open>The times at which an INVITE with a given Call-ID was rejected.\<close>

definition rejections :: "string \<Rightarrow> (instant \<times> request) list \<Rightarrow> instant list" where
  "rejections callID h =
     map fst (filter (\<lambda>(t, req). rq_method req = ''INVITE'' \<and> rq_call_id req = Some callID) h)"

abbreviation reject_all :: "(instant \<times> request) list \<Rightarrow> rejectedCalls" where
  "reject_all h \<equiv> fold (\<lambda>(t, req). rejected_add t req) h newRejectedCalls"

definition as_puts :: "(instant \<times> request) list \<Rightarrow> (instant \<times> string \<times> unit) list" where
  "as_puts h = concat (map (\<lambda>(t, req). if rq_method req \<noteq> ''INVITE'' then []
     else (case rq_call_id req of None \<Rightarrow> [] | Some i \<Rightarrow> [(t, i, ())])) h)"

lemma reject_all_puts: "fold (\<lambda>(t, req). rejected_add t req) h r = rejected.run (as_puts h) r"
  by (induction h arbitrary: r)
    (auto simp: as_puts_def rejected.run_def rejected_add_def split: option.splits)

lemma last_rejection:
  "sorted (map fst h) \<Longrightarrow>
     (case rejected.last_put (as_puts h) callID of
        None \<Rightarrow> rejections callID h = []
      | Some (t, u) \<Rightarrow> t \<in> set (rejections callID h) \<and> (\<forall>s \<in> set (rejections callID h). s \<le> t))"
proof (induction h)
  case Nil
  then show ?case by (simp add: as_puts_def rejections_def)
next
  case (Cons e h)
  obtain t req where e: "e = (t, req)" by (cases e)
  have later: "s \<in> set (rejections callID h) \<Longrightarrow> t \<le> s" for s
    using Cons.prems by (auto simp: e rejections_def)
  have puts: "as_puts (e # h) = (if rq_method req \<noteq> ''INVITE'' then []
     else (case rq_call_id req of None \<Rightarrow> [] | Some i \<Rightarrow> [(t, i, ())])) @ as_puts h"
    by (simp add: as_puts_def e)
  have rej: "rejections callID (e # h) =
      (if rq_method req = ''INVITE'' \<and> rq_call_id req = Some callID then [t] else []) @ rejections callID h"
    by (simp add: rejections_def e)
  show ?case using Cons later
    by (cases "rq_method req = ''INVITE''"; cases "rq_call_id req"; cases "rejected.last_put (as_puts h) callID")
      (auto simp: puts rej)
qed

text \<open>
  A Call-ID counts as rejected exactly when an INVITE with it was rejected less than a minute
  ago: the sweep forgets nothing too early, nothing is kept too long, and other requests
  leave no trace.
\<close>

theorem rejected_for_a_minute:
  assumes "sorted (map fst h @ [now])"
  shows "rejected_has now (reject_all h) callID
     \<longleftrightarrow> (\<exists>t \<in> set (rejections callID h). now < t + 60 * 1000000000)"
proof -
  have "\<forall>(t, i, u) \<in> set (as_puts h). t \<le> now"
    using assms by (auto simp: as_puts_def sorted_append split: if_splits option.splits)
  from rejected.history [OF this, of callID]
  have "rejected_has now (reject_all h) callID \<longleftrightarrow> (case rejected.last_put (as_puts h) callID of
      Some (t, u) \<Rightarrow> now < t + rejectedCallTTL | None \<Rightarrow> False)"
    by (cases "rejected.last_put (as_puts h) callID")
      (auto simp: reject_all_puts split: prod.splits if_splits)
  also have "\<dots> \<longleftrightarrow> (\<exists>t \<in> set (rejections callID h). now < t + 60 * 1000000000)"
    using last_rejection [of h callID] assms
    by (fastforce simp: sorted_append rejectedCallTTL_def split: option.splits)
  finally show ?thesis .
qed

section \<open>Witnesses\<close>

lemma sweep_and_others_witness:
  "Banned 4000000000 (fail_all [(1000000000, ''198.51.100.7'', False), (2000000000, ''10.0.0.5'', True),
     (3000000000, ''198.51.100.7'', False)] (newIPBan 2 60000000000 900000000000)) ''198.51.100.7''"
proof -
  obtain b where b: "newIPBan 2 60000000000 900000000000 = Some b" by (simp add: newIPBan_def)
  from sweep_and_others_do_not_matter [OF b, of "[(1000000000, ''198.51.100.7'', False),
      (2000000000, ''10.0.0.5'', True), (3000000000, ''198.51.100.7'', False)]" 4000000000 "''198.51.100.7''"]
  show ?thesis
    by (simp add: b fits64_def failure_times_def new_record_def count_failure_def time_sub_def
        zero_time_def Let_def maxBanTime_def)
qed

lemma banned_only_after_failures_witness:
  "\<exists>t0. 1 \<le> int (length (filter (\<lambda>t. t0 \<le> t \<and> t < t0 + 60000000000)
      (failure_times ''198.51.100.7'' [(1000000000, ''198.51.100.7'', False)])))"
proof -
  obtain b where b: "newIPBan 1 60000000000 900000000000 = Some b" by (simp add: newIPBan_def)
  have "Banned 2000000000 (fail_all [(1000000000, ''198.51.100.7'', False)] (Some b)) ''198.51.100.7''"
    unfolding b [symmetric]
    by (simp add: newIPBan_def fail_all_simps Fail_def sweep_def Banned_def new_record_def
        count_failure_def time_sub_def zero_time_def Let_def maxBanTime_def gm_filter_def)
  from banned_only_after_failures [OF b _ _ _ this] show ?thesis by (simp add: fits64_def)
qed

lemma first_ban_witness:
  "Banned 900000000001 (fail_all [(1, ''198.51.100.7'', False), (2, ''198.51.100.7'', False)]
      (newIPBan 2 60000000000 900000000000)) ''198.51.100.7''
   \<and> \<not> Banned 900000000002 (fail_all [(1, ''198.51.100.7'', False), (2, ''198.51.100.7'', False)]
      (newIPBan 2 60000000000 900000000000)) ''198.51.100.7''"
proof -
  obtain b where b: "newIPBan 2 60000000000 900000000000 = Some b" by (simp add: newIPBan_def)
  note ban = first_ban_exact [OF b, of "[(1, ''198.51.100.7'', False), (2, ''198.51.100.7'', False)]" _
      "''198.51.100.7''" "[1, 2]"]
  from ban [of 900000000001] ban [of 900000000002] show ?thesis
    by (simp add: b fits64_def failure_times_def)
qed

lemma ban_doubles_witness:
  "bn_bannedUntil (count_failure 5 2 60000000000 900000000000
     \<lparr>bn_failures = 1, bn_windowStart = 4, bn_bans = 3, bn_bannedUntil = 1\<rparr>) = 5 + 900000000000 * 8"
proof -
  obtain b where b: "newIPBan 2 60000000000 900000000000 = Some b" by (simp add: newIPBan_def)
  from ban_doubles_up_to_a_day [OF b, of 5 "\<lparr>bn_failures = 1, bn_windowStart = 4, bn_bans = 3, bn_bannedUntil = 1\<rparr>"]
  show ?thesis by (simp add: fits64_def Let_def)
qed

lemma rejected_for_a_minute_witness:
  "rejected_has 30000000000 (reject_all [(1000000000, \<lparr>rq_method = ''INVITE'', rq_uri = mk_uri [] [] 0,
      rq_headers = [HCallID ''abc''], rq_body = [], rq_source = [], rq_dest = [], rq_transport = []\<rparr>)]) ''abc''"
  using rejected_for_a_minute [of "[(1000000000, \<lparr>rq_method = ''INVITE'', rq_uri = mk_uri [] [] 0,
      rq_headers = [HCallID ''abc''], rq_body = [], rq_source = [], rq_dest = [], rq_transport = []\<rparr>)]"
      30000000000 "''abc''"]
  by (simp add: rejections_def)

end
