(* ===== verification/Message_Guard.thy ===== *)
theory Message_Guard
  imports Ip_Ban
begin

text \<open>
  What every request passes before a handler sees it, and every response before it leaves:
  the CR/LF checks (\<^verbatim>\<open>sbc/crlf_validation.go\<close>), answering at the source address
  (\<^verbatim>\<open>sbc/symmetric_responses.go\<close>), dropping banned sources
  (\<^verbatim>\<open>sbc/ip_ban.go\<close>) and their composition (\<^verbatim>\<open>sbc/main.go\<close>).

  A handler is a function from the request to the actions it performs, in order: a response
  handed to its transaction, any other action of type \<open>'o\<close>, or a nil dereference, which ends
  the handler (and, in Go, the process). Wrapping a handler's transaction changes what
  becomes of each of its responses (\<open>via\<close>).
\<close>

section \<open>Actions and transactions\<close>

datatype 'o act = Reply response | Panic | Act 'o

type_synonym 'o tx = "response \<Rightarrow> 'o act list"

definition panics :: "'o act list \<Rightarrow> bool" where
  "panics as \<longleftrightarrow> list_ex (\<lambda>a. case a of Panic \<Rightarrow> True | _ \<Rightarrow> False) as"

lemma panics_iff [simp]: "panics as \<longleftrightarrow> Panic \<in> set as"
  by (induction as) (auto simp: panics_def split: act.split)

fun via :: "'o tx \<Rightarrow> 'o act list \<Rightarrow> 'o act list" where
  "via tx [] = []"
| "via tx (Panic # as) = [Panic]"
| "via tx (Act x # as) = Act x # via tx as"
| "via tx (Reply r # as) = (let out = tx r in if panics out then out else out @ via tx as)"

definition wire :: "'o tx" where
  "wire r = [Reply r]"

section \<open>The checks\<close>

definition hasCRLF :: "string \<Rightarrow> bool" where
  "hasCRLF s \<longleftrightarrow> contains_any s [CHR 0x0D, CHR 0x0A]"

text \<open>An error is its text; \<open>None\<close> is the nil error.\<close>

definition validateHeaders :: "header list \<Rightarrow> string option" where
  "validateHeaders hs =
     (case find (\<lambda>h. hasCRLF (hdr_name h) \<or> hasCRLF (hdr_value h)) hs of
        None \<Rightarrow> None
      | Some h \<Rightarrow> Some (''invalid CRLF in '' @ hdr_name h @ '' header''))"

definition validateRequest :: "sipgo \<Rightarrow> request \<Rightarrow> string option" where
  "validateRequest S r =
     (if hasCRLF (sg_request_line S r) then Some ''invalid CRLF in request line''
      else validateHeaders (rq_headers r))"

definition validateResponse :: "sipgo \<Rightarrow> response \<Rightarrow> string option" where
  "validateResponse S r =
     (if hasCRLF (sg_status_line S r) then Some ''invalid CRLF in status line''
      else validateHeaders (rs_headers r))"

definition validateOutgoing :: "sipgo \<Rightarrow> request \<Rightarrow> string option" where
  "validateOutgoing S r = validateRequest S r"

text \<open>\<^verbatim>\<open>validatingTx.Respond\<close>; the log line reads the request's Call-ID.\<close>

definition validatingTx :: "sipgo \<Rightarrow> request \<Rightarrow> 'o tx \<Rightarrow> 'o tx" where
  "validatingTx S req tx res =
     (case validateResponse S res of
        None \<Rightarrow> tx res
      | Some err \<Rightarrow>
          if rq_call_id req = None then [Panic]
          else if rs_status res \<ge> 200 then tx (sg_new_response S req 502 ''Bad Gateway'' [])
          else [])"

definition validateMessages :: "sipgo \<Rightarrow> (request \<Rightarrow> 'o act list) \<Rightarrow> request \<Rightarrow> 'o tx \<Rightarrow> 'o act list" where
  "validateMessages S h req tx =
     (case validateRequest S req of
        Some err \<Rightarrow>
          if rq_method req = ''ACK'' then [] else tx (sg_new_response S req 400 ''Bad Request'' [])
      | None \<Rightarrow> via (validatingTx S req tx) (h req))"

section \<open>Symmetric responses and banned sources\<close>

definition symmetricTx :: "string \<Rightarrow> 'o tx \<Rightarrow> 'o tx" where
  "symmetricTx source tx res = tx (res\<lparr>rs_dest := source\<rparr>)"

definition symmetricResponses :: "(request \<Rightarrow> 'o tx \<Rightarrow> 'o act list) \<Rightarrow> request \<Rightarrow> 'o tx \<Rightarrow> 'o act list" where
  "symmetricResponses h req tx =
     h req (if isUDP (rq_transport req) \<and> rq_source req \<noteq> [] then symmetricTx (rq_source req) tx else tx)"

definition dropBanned :: "instant \<Rightarrow> ipban option \<Rightarrow> (request \<Rightarrow> 'o tx \<Rightarrow> 'o act list) \<Rightarrow> request \<Rightarrow> 'o tx \<Rightarrow> 'o act list" where
  "dropBanned now ban h req tx =
     (if Banned now ban (sourceIPFromRequest req) then [] else h req tx)"

definition publicWrap :: "sipgo \<Rightarrow> instant \<Rightarrow> ipban option \<Rightarrow> (request \<Rightarrow> 'o act list) \<Rightarrow> request \<Rightarrow> 'o act list" where
  "publicWrap S now ban h req =
     dropBanned now ban (symmetricResponses (validateMessages S h)) req wire"

definition privateWrap :: "sipgo \<Rightarrow> (request \<Rightarrow> 'o act list) \<Rightarrow> request \<Rightarrow> 'o act list" where
  "privateWrap S h req = validateMessages S h req wire"

section \<open>What gets through\<close>

lemma hasCRLF_iff: "hasCRLF s \<longleftrightarrow> CHR 0x0D \<in> set s \<or> CHR 0x0A \<in> set s"
  by (auto simp: hasCRLF_def contains_any_iff)

lemma validateHeaders_None:
  "validateHeaders hs = None \<longleftrightarrow> (\<forall>h \<in> set hs. \<not> hasCRLF (hdr_name h) \<and> \<not> hasCRLF (hdr_value h))"
proof (cases "find (\<lambda>h. hasCRLF (hdr_name h) \<or> hasCRLF (hdr_value h)) hs")
  case None
  then have "\<forall>h \<in> set hs. \<not> (hasCRLF (hdr_name h) \<or> hasCRLF (hdr_value h))"
    by (simp only: find_None_iff_all)
  with None show ?thesis by (simp add: validateHeaders_def)
next
  case (Some h)
  with find_SomeD [OF Some] show ?thesis by (auto simp: validateHeaders_def)
qed

text \<open>A clean message: nothing of its first line or headers could end a line early.\<close>

definition clean_response :: "sipgo \<Rightarrow> response \<Rightarrow> bool" where
  "clean_response S r \<longleftrightarrow> CHR 0x0D \<notin> set (sg_status_line S r) \<and> CHR 0x0A \<notin> set (sg_status_line S r)
     \<and> (\<forall>h \<in> set (rs_headers r). \<forall>s \<in> {hdr_name h, hdr_value h}. CHR 0x0D \<notin> set s \<and> CHR 0x0A \<notin> set s)"

definition clean_request :: "sipgo \<Rightarrow> request \<Rightarrow> bool" where
  "clean_request S r \<longleftrightarrow> CHR 0x0D \<notin> set (sg_request_line S r) \<and> CHR 0x0A \<notin> set (sg_request_line S r)
     \<and> (\<forall>h \<in> set (rq_headers r). \<forall>s \<in> {hdr_name h, hdr_value h}. CHR 0x0D \<notin> set s \<and> CHR 0x0A \<notin> set s)"

lemma validateResponse_None: "validateResponse S r = None \<longleftrightarrow> clean_response S r"
  by (auto simp: validateResponse_def clean_response_def hasCRLF_iff validateHeaders_None)

lemma validateRequest_None: "validateRequest S r = None \<longleftrightarrow> clean_request S r"
  by (auto simp: validateRequest_def clean_request_def hasCRLF_iff validateHeaders_None)

lemma via_replies:
  "Reply r \<in> set (via tx as) \<Longrightarrow> \<exists>r'. Reply r' \<in> set as \<and> Reply r \<in> set (tx r')"
  by (induction tx as rule: via.induct) (auto simp: Let_def split: if_splits)

lemma via_other: "Act x \<in> set (via tx as) \<Longrightarrow> Act x \<in> set as \<or> (\<exists>r'. Reply r' \<in> set as \<and> Act x \<in> set (tx r'))"
  by (induction tx as rule: via.induct) (auto simp: Let_def split: if_splits)

text \<open>The transaction below the checks of a public request, and of a private one.\<close>

definition front_tx :: "request \<Rightarrow> 'o tx" where
  "front_tx req = (if isUDP (rq_transport req) \<and> rq_source req \<noteq> [] then symmetricTx (rq_source req) wire else wire)"

lemma front_tx_reply: "front_tx req r = [Reply (if isUDP (rq_transport req) \<and> rq_source req \<noteq> []
    then r\<lparr>rs_dest := rq_source req\<rparr> else r)]"
  by (simp add: front_tx_def symmetricTx_def wire_def)

lemma publicWrap_eq:
  "publicWrap S now ban h req =
     (if Banned now ban (sourceIPFromRequest req) then []
      else if clean_request S req then via (validatingTx S req (front_tx req)) (h req)
      else if rq_method req = ''ACK'' then []
      else front_tx req (sg_new_response S req 400 ''Bad Request'' []))"
  using validateRequest_None [of S req]
  by (auto simp: publicWrap_def dropBanned_def symmetricResponses_def validateMessages_def front_tx_def
      split: option.split)

lemma privateWrap_eq:
  "privateWrap S h req =
     (if clean_request S req then via (validatingTx S req wire) (h req)
      else if rq_method req = ''ACK'' then [] else [Reply (sg_new_response S req 400 ''Bad Request'' [])])"
  using validateRequest_None [of S req]
  by (auto simp: privateWrap_def validateMessages_def wire_def split: option.split)

text \<open>Where a response to a public request goes: to the source of a UDP request.\<close>

definition at_source :: "request \<Rightarrow> response \<Rightarrow> response" where
  "at_source req r = (if isUDP (rq_transport req) \<and> rq_source req \<noteq> [] then r\<lparr>rs_dest := rq_source req\<rparr> else r)"

text \<open>
  What the library promises of the responses it makes for a request: the line breaks in them
  come from the request or from the reason; and the status line does not depend on where the
  response goes.
\<close>

definition breaks_in :: "string \<Rightarrow> header list \<Rightarrow> char set" where
  "breaks_in line hs = {CHR 0x0D, CHR 0x0A} \<inter> (set line \<union> (\<Union>h \<in> set hs. set (hdr_name h) \<union> set (hdr_value h)))"

definition adds_no_breaks :: "sipgo \<Rightarrow> bool" where
  "adds_no_breaks S \<longleftrightarrow>
     (\<forall>req code reason body. let r = sg_new_response S req code reason body in
        breaks_in (sg_status_line S r) (rs_headers r) \<subseteq> breaks_in (sg_request_line S req) (rq_headers req) \<union> set reason)
   \<and> (\<forall>r dest. sg_status_line S (r\<lparr>rs_dest := dest\<rparr>) = sg_status_line S r)"

lemma clean_breaks:
  "clean_request S req \<longleftrightarrow> breaks_in (sg_request_line S req) (rq_headers req) = {}"
  "clean_response S r \<longleftrightarrow> breaks_in (sg_status_line S r) (rs_headers r) = {}"
  by (auto simp: clean_request_def clean_response_def breaks_in_def)

lemma clean_at_source [simp]:
  "adds_no_breaks S \<Longrightarrow> clean_response S (at_source req r) \<longleftrightarrow> clean_response S r"
  by (simp add: adds_no_breaks_def clean_breaks(2) at_source_def)

lemma clean_made:
  assumes "adds_no_breaks S" "clean_request S req" "CHR 0x0D \<notin> set reason" "CHR 0x0A \<notin> set reason"
  shows "clean_response S (sg_new_response S req code reason body)"
proof -
  have "breaks_in (sg_status_line S (sg_new_response S req code reason body)) (rs_headers (sg_new_response S req code reason body))
      \<subseteq> breaks_in (sg_request_line S req) (rq_headers req) \<union> set reason"
    using assms(1) by (simp add: adds_no_breaks_def Let_def)
  moreover have "breaks_in line hs \<inter> set reason = {}" for line hs using assms(3,4) by (auto simp: breaks_in_def)
  ultimately show ?thesis using assms(2) unfolding clean_breaks by blast
qed

text \<open>What the check makes of a response a handler sends, on the side of a transaction.\<close>

definition checked_replies :: "sipgo \<Rightarrow> request \<Rightarrow> response \<Rightarrow> response list" where
  "checked_replies S req r =
     (if clean_response S r then [r]
      else if rs_status r \<ge> 200 then [sg_new_response S req 502 ''Bad Gateway'' []] else [])"

definition sent_replies :: "'o act list \<Rightarrow> response list" where
  "sent_replies as = concat (map (\<lambda>a. case a of Reply r \<Rightarrow> [r] | _ \<Rightarrow> []) as)"

lemma sent_replies_simps [simp]:
  "sent_replies [] = []" "sent_replies (Reply r # as) = r # sent_replies as" "sent_replies (Act x # as) = sent_replies as"
  "sent_replies (Panic # as) = sent_replies as" "sent_replies (as @ bs) = sent_replies as @ sent_replies bs"
  by (simp_all add: sent_replies_def)

lemma replies_in: "Reply r \<in> set as \<longleftrightarrow> r \<in> set (sent_replies as)"
proof (induction as)
  case (Cons a as)
  then show ?case by (cases a) auto
qed simp

lemma replies_act:
  "rq_call_id req \<noteq> None \<Longrightarrow> sent_replies (validatingTx S req (\<lambda>r. [Reply (f r)] :: 'o act list) r) = map f (checked_replies S req r)"
  "rq_call_id req \<noteq> None \<Longrightarrow> Panic \<notin> set (validatingTx S req (\<lambda>r. [Reply (f r)] :: 'o act list) r)"
  using validateResponse_None [of S r]
  by (auto simp: validatingTx_def checked_replies_def split: option.split)

lemma replies_via:
  assumes "rq_call_id req \<noteq> None" "Panic \<notin> set as"
  shows "sent_replies (via (validatingTx S req (\<lambda>r. [Reply (f r)])) as) = map f (concat (map (checked_replies S req) (sent_replies as)))"
  using assms(2)
proof (induction as)
  case (Cons a as)
  then show ?case by (cases a) (simp_all add: Let_def replies_act [OF assms(1)])
qed simp

lemma validatingTx_clean:
  assumes "adds_no_breaks S" "clean_request S req" "Reply r \<in> set (validatingTx S req (\<lambda>r. [Reply (f r)] :: 'o act list) r')"
  shows "\<exists>r0. r = f r0 \<and> clean_response S r0"
  using assms(3) clean_made [OF assms(1,2), of "''Bad Gateway''" 502 "[]"] validateResponse_None [of S r']
  by (auto simp: validatingTx_def split: option.splits if_splits)

lemma front_tx_eq: "front_tx req = (\<lambda>r. [Reply (at_source req r)])"
  by (intro ext) (simp add: front_tx_reply at_source_def)

text \<open>
  Property (C21). Line breaks cannot be smuggled out: when a request has passed the check, every response that
  leaves, on either side, is free of CR and LF in its status line and headers, whatever the
  handler does. Precisely, of what the handler sends a clean response leaves as it is (to a
  UDP request on the public side at the address it came from), an unclean final one becomes a
  502, and an unclean provisional one is dropped. A request that has not passed the check is
  answered with the library's own 400 or, if it is an ACK, not at all; this 400 is sent
  unchecked.
\<close>

theorem only_clean_responses_leave:
  fixes h :: "request \<Rightarrow> 'o act list"
  assumes S: "adds_no_breaks S"
  shows "(clean_request S req \<longrightarrow>
       list_all (clean_response S) (sent_replies (publicWrap S now ban h req))
     \<and> list_all (clean_response S) (sent_replies (privateWrap S h req))
     \<and> (rq_call_id req \<noteq> None \<and> Panic \<notin> set (h req) \<longrightarrow>
          sent_replies (publicWrap S now ban h req) =
            (if Banned now ban (sourceIPFromRequest req) then []
             else map (at_source req) (concat (map (checked_replies S req) (sent_replies (h req)))))
        \<and> sent_replies (privateWrap S h req) = concat (map (checked_replies S req) (sent_replies (h req)))))
   \<and> (\<not> clean_request S req \<longrightarrow>
       set (publicWrap S now ban h req) \<subseteq> {Reply (at_source req (sg_new_response S req 400 ''Bad Request'' []))}
     \<and> set (privateWrap S h req) \<subseteq> {Reply (sg_new_response S req 400 ''Bad Request'' [])})"
proof -
  have wire: "wire = (\<lambda>r. [Reply ((\<lambda>r. r) r)] :: 'o act list)" by (intro ext) (simp add: wire_def)
  have out: "\<exists>r0. r = f r0 \<and> clean_response S r0"
    if "clean_request S req" "r \<in> set (sent_replies (via (validatingTx S req (\<lambda>r. [Reply (f r)])) as))" for f r and as :: "'o act list"
  proof -
    from that(2) have "Reply r \<in> set (via (validatingTx S req (\<lambda>r. [Reply (f r)])) as)" by (simp add: replies_in)
    from via_replies [OF this] obtain r' where "Reply r \<in> set (validatingTx S req (\<lambda>r. [Reply (f r)] :: 'o act list) r')" by blast
    from validatingTx_clean [OF S that(1) this] show ?thesis .
  qed
  have clean: "list_all (clean_response S) (sent_replies (publicWrap S now ban h req))"
    "list_all (clean_response S) (sent_replies (privateWrap S h req))" if "clean_request S req"
    using that by (auto simp: list_all_iff publicWrap_eq privateWrap_eq front_tx_eq wire clean_at_source [OF S] dest!: out [OF that])
  show ?thesis
    using clean replies_via [of req "h req" S "at_source req"] replies_via [of req "h req" S "\<lambda>r. r"]
    by (auto simp: publicWrap_eq privateWrap_eq front_tx_eq wire)
qed

text \<open>
  A request from a banned source gets no answer and reaches no handler; one with CR or LF in
  its request line or headers reaches no handler either, and is answered 400 unless it is an
  ACK, on the public and on the private side.
\<close>

theorem refused_before_the_handler:
  "(Banned now ban (sourceIPFromRequest req) \<longrightarrow> publicWrap S now ban h req = [])
 \<and> (\<not> Banned now ban (sourceIPFromRequest req) \<and> \<not> clean_request S req \<longrightarrow>
      publicWrap S now ban h req =
        (if rq_method req = ''ACK'' then []
         else [Reply (at_source req (sg_new_response S req 400 ''Bad Request'' []))]))
 \<and> (\<not> clean_request S req \<longrightarrow>
      privateWrap S h req =
        (if rq_method req = ''ACK'' then [] else [Reply (sg_new_response S req 400 ''Bad Request'' [])]))"
  by (simp add: publicWrap_eq privateWrap_eq front_tx_reply at_source_def)

definition final_replies :: "'o act list \<Rightarrow> nat" where
  "final_replies as = length (filter (\<lambda>a. case a of Reply r \<Rightarrow> rs_status r \<ge> 200 | _ \<Rightarrow> False) as)"

lemma final_replies_simps [simp]:
  "final_replies [] = 0"
  "final_replies (a # as) = (case a of Reply r \<Rightarrow> if rs_status r \<ge> 200 then 1 else 0 | _ \<Rightarrow> 0) + final_replies as"
  "final_replies (as @ bs) = final_replies as + final_replies bs"
  by (simp_all add: final_replies_def split: act.split)

lemma final_replies_via:
  assumes "sipgo_ok S" "rq_call_id req \<noteq> None" "Panic \<notin> set as"
  shows "final_replies (via (validatingTx S req (front_tx req)) as) = final_replies as"
proof -
  have one: "Panic \<notin> set (validatingTx S req (front_tx req) r)"
    "final_replies (validatingTx S req (front_tx req) r) = (if rs_status r \<ge> 200 then 1 else 0)" for r
    using assms(2) sipgo_okD(4) [OF assms(1)]
    by (auto simp: validatingTx_def front_tx_reply split: option.split)
  from assms(3) show ?thesis
  proof (induction as)
    case (Cons a as)
    then show ?case by (cases a) (simp_all add: one Let_def)
  qed simp
qed

text \<open>
  The checks lose no final answer: of the final responses a handler sends to an accepted
  request, exactly as many leave, each as it was or as a clean 502, so that every
  transaction a handler completes is completed for the client.
\<close>

theorem final_answers_survive:
  assumes "sipgo_ok S" "\<not> Banned now ban (sourceIPFromRequest req)" "clean_request S req"
    and "rq_call_id req \<noteq> None" "Panic \<notin> set (h req)"
  shows "final_replies (publicWrap S now ban h req) = final_replies (h req)"
  using assms by (simp add: publicWrap_eq final_replies_via)

section \<open>Witnesses\<close>

definition demo_options :: "string \<Rightarrow> request" where
  "demo_options subject = \<lparr>rq_method = ''OPTIONS'', rq_uri = mk_uri ''6001'' ''a.example.com'' 5060,
     rq_headers = [HCallID ''c1'', HText ''Subject'' subject], rq_body = [], rq_source = ''203.0.113.9:5060'',
     rq_dest = [], rq_transport = ''UDP''\<rparr>"

definition demo_handler :: "request \<Rightarrow> unit act list" where
  "demo_handler req = [Act (), Reply (sg_new_response sipgo_model req 200 ''OK'' [])]"

lemma demo_options_clean: "clean_request sipgo_model (demo_options ''hello'')"
  "\<not> clean_request sipgo_model (demo_options (''x'' @ [CHR 0x0A] @ ''X-Comcent-Org: other''))"
  unfolding validateRequest_None [symmetric] by code_simp+

lemma adds_no_breaks_model: "adds_no_breaks sipgo_model"
proof -
  have "CHR 0x0D \<notin> set (itoa n)" "CHR 0x0A \<notin> set (itoa n)" for n by (simp_all add: itoa_def nat_text_no)
  then show ?thesis by (auto simp: adds_no_breaks_def breaks_in_def sipgo_model_def Let_def)
qed

text \<open>A handler that relays a far end's header with a line break: the client gets a 502.\<close>

definition demo_relay :: "request \<Rightarrow> unit act list" where
  "demo_relay req = [Reply ((sg_new_response sipgo_model req 200 ''OK'' [])\<lparr>rs_headers := [HText ''X-Note'' ([CHR 0x0A] @ ''Contact: evil'')]\<rparr>)]"

lemma only_clean_witness:
  "map rs_status (sent_replies (publicWrap sipgo_model 0 None demo_relay (demo_options ''hello''))) = [502]
   \<and> list_all (clean_response sipgo_model) (sent_replies (publicWrap sipgo_model 0 None demo_relay (demo_options ''hello'')))"
proof -
  have "rq_call_id (demo_options s) \<noteq> None" for s by (simp add: demo_options_def)
  moreover have "Panic \<notin> set (demo_relay req)" for req by (simp add: demo_relay_def)
  moreover have "\<not> clean_response sipgo_model ((sg_new_response sipgo_model req 200 ''OK'' [])\<lparr>rs_headers :=
      [HText ''X-Note'' ([CHR 0x0A] @ ''Contact: evil'')]\<rparr>)" for req by (simp add: clean_response_def)
  moreover have "\<not> Banned 0 None a" for a by (simp add: Banned_def)
  moreover have "rs_status (at_source req r) = rs_status r" for req r by (simp add: at_source_def)
  moreover note only_clean_responses_leave [OF adds_no_breaks_model, of "demo_options ''hello''" 0 None demo_relay, THEN conjunct1,
      THEN mp, OF demo_options_clean(1)]
  ultimately have "list_all (clean_response sipgo_model) (sent_replies (publicWrap sipgo_model 0 None demo_relay (demo_options ''hello'')))"
    "map rs_status (sent_replies (publicWrap sipgo_model 0 None demo_relay (demo_options ''hello''))) = [502]"
    by (blast, simp add: demo_relay_def checked_replies_def)
  then show ?thesis by blast
qed

text \<open>The 400 to a request whose Via has a line break carries that header, and is not checked.\<close>

theorem bad_request_answer_is_unchecked:
  "\<exists>req r. publicWrap sipgo_model 0 None demo_handler req = [Reply r] \<and> rs_status r = 400 \<and> \<not> clean_response sipgo_model r"
proof -
  let ?req = "(demo_options ''hello'')\<lparr>rq_headers := [HText ''Via'' ([CHR 0x0A] @ ''Contact: evil'')]\<rparr>"
  let ?r = "at_source ?req (sg_new_response sipgo_model ?req 400 ''Bad Request'' [])"
  have "\<not> clean_request sipgo_model ?req" by (simp add: clean_request_def)
  moreover have "\<not> clean_response sipgo_model ?r" "rs_status ?r = 400"
    using clean_at_source [OF adds_no_breaks_model] by (auto simp: clean_response_def sipgo_model_def at_source_def)
  moreover have "rq_method ?req \<noteq> ''ACK''" by (simp add: demo_options_def)
  ultimately show ?thesis by (intro exI [of _ ?req] exI [of _ ?r]) (simp add: publicWrap_eq front_tx_eq Banned_def)
qed

lemma refused_before_the_handler_witness:
  "publicWrap sipgo_model 0 None demo_handler (demo_options (''x'' @ [CHR 0x0A] @ ''X-Comcent-Org: other'')) =
     [Reply (at_source (demo_options (''x'' @ [CHR 0x0A] @ ''X-Comcent-Org: other''))
        (sg_new_response sipgo_model (demo_options (''x'' @ [CHR 0x0A] @ ''X-Comcent-Org: other'')) 400 ''Bad Request'' []))]
   \<and> publicWrap sipgo_model 1 (Some \<lparr>ib_maxFailures = 1, ib_window = 1, ib_banTime = 1,
        ib_sources = [(''203.0.113.9'', new_record\<lparr>bn_bannedUntil := 2\<rparr>)], ib_lastSweep = 0\<rparr>)
        demo_handler (demo_options ''hello'') = []"
proof -
  have banned: "Banned 1 (Some \<lparr>ib_maxFailures = 1, ib_window = 1, ib_banTime = 1,
        ib_sources = [(''203.0.113.9'', new_record\<lparr>bn_bannedUntil := 2\<rparr>)], ib_lastSweep = 0\<rparr>)
        (sourceIPFromRequest (demo_options ''hello''))" by code_simp
  have "\<not> Banned 0 None a" for a by (simp add: Banned_def)
  moreover have "rq_method (demo_options s) \<noteq> ''ACK''" for s by (simp add: demo_options_def)
  ultimately show ?thesis
    using refused_before_the_handler [of 0 None _ sipgo_model demo_handler] demo_options_clean(2)
      refused_before_the_handler [of 1 _ "demo_options ''hello''" sipgo_model demo_handler] banned by simp
qed

lemma final_answers_survive_witness:
  "final_replies (publicWrap sipgo_model 0 None demo_handler (demo_options ''hello'')) = 1"
  using final_answers_survive [OF sipgo_ok_model, of 0 None "demo_options ''hello''" demo_handler] demo_options_clean
  by (simp add: Banned_def demo_handler_def) (simp add: demo_options_def)

end
