(* ===== verification/Forwarding.thy ===== *)
theory Forwarding
  imports Message_Guard
begin

text \<open>
  Building what is forwarded (\<^verbatim>\<open>sbc/proxy.go\<close>): the copy of a request with its Route
  and Max-Forwards managed, the double Record-Route, the headers a relayed response takes
  over, the CANCEL for an outgoing INVITE, and the CSeq offset of calls whose digest challenge
  the program answered itself.
\<close>

section \<open>Routes\<close>

definition routeHop :: "sipgo \<Rightarrow> string \<Rightarrow> string" where
  "routeHop S entry =
     (let s0 = trim_space entry;
          s = (case index_byte s0 CHR ''<'' of
                 None \<Rightarrow> s0
               | Some i \<Rightarrow>
                   let s1 = drop (i + 1) s0
                   in (case index_byte s1 CHR ''>'' of None \<Rightarrow> s1 | Some j \<Rightarrow> take j s1))
      in case sg_parse_uri S s of
           None \<Rightarrow> []
         | Some u \<Rightarrow>
             let port = (if uri_port u = 0 then 5060 else uri_port u)
             in join_host_port (uri_host u) (itoa port))"

text \<open>The loop body of \<^verbatim>\<open>filterRouteValueForHop\<close>: what one entry adds to the kept list.\<close>

definition keep_route :: "config \<Rightarrow> sipgo \<Rightarrow> string \<Rightarrow> string \<Rightarrow> string list" where
  "keep_route cfg S keepHop part =
     (let trimmed = trim_space part in
      if trimmed = [] then []
      else
        let hop = routeHop S trimmed;
            isPublic = (hop = PublicIP cfg @ '':5060'');
            isPrivate = (hop = PrivateIP cfg @ '':5065'')
        in if isPublic \<or> isPrivate then
             (if keepHop = ''public'' then (if isPublic then [trimmed] else [])
              else if keepHop = ''private'' then (if isPrivate then [trimmed] else [])
              else [])
           else [trimmed])"

definition filterRouteValueForHop :: "config \<Rightarrow> sipgo \<Rightarrow> string \<Rightarrow> string \<Rightarrow> string" where
  "filterRouteValueForHop cfg S value keepHop =
     (if value = [] then []
      else join_with '', '' (concat (map (keep_route cfg S keepHop) (split_on CHR '','' value))))"

definition filterRouteValue :: "config \<Rightarrow> sipgo \<Rightarrow> string \<Rightarrow> string" where
  "filterRouteValue cfg S value = filterRouteValueForHop cfg S value []"

section \<open>Requests\<close>

text \<open>The loop over the headers: what one header adds to the forwarded request.\<close>

definition forward_header :: "config \<Rightarrow> sipgo \<Rightarrow> string \<Rightarrow> header \<Rightarrow> header list \<Rightarrow> header list" where
  "forward_header cfg S keepHop hdr hs =
     (let name = to_lower (hdr_name hdr) in
      if name \<in> {''max-forwards'', ''content-length''} then hs
      else if name = ''route'' then
        let value = filterRouteValueForHop cfg S (hdr_value hdr) keepHop
        in if value \<noteq> [] then sg_append S (HText ''Route'' value) hs else hs
      else sg_append S hdr hs)"

definition buildForwardRequestWithURIAndRoute ::
  "config \<Rightarrow> sipgo \<Rightarrow> request \<Rightarrow> uri \<Rightarrow> string \<Rightarrow> request option" where
  "buildForwardRequestWithURIAndRoute cfg S req u keepHop =
     (let fwd = sg_new_request S (rq_method req) u;
          hs = fold (forward_header cfg S keepHop) (rq_headers req) (rq_headers fwd);
          mf = (case rq_max_forwards req of None \<Rightarrow> 70 | Some n \<Rightarrow> uint n - 1)
      in if mf < 0 then None
         else Some (sg_set_body S (rq_body req)
                (fwd\<lparr>rq_headers := sg_append S (HMaxForwards (word_of_int mf)) hs\<rparr>)))"

definition buildForwardRequestWithURI :: "config \<Rightarrow> sipgo \<Rightarrow> request \<Rightarrow> uri \<Rightarrow> request option" where
  "buildForwardRequestWithURI cfg S req u = buildForwardRequestWithURIAndRoute cfg S req u []"

definition buildForwardRequest :: "config \<Rightarrow> sipgo \<Rightarrow> request \<Rightarrow> request option" where
  "buildForwardRequest cfg S req = buildForwardRequestWithURI cfg S req (rq_uri req)"

definition buildInDialogForwardRequest :: "config \<Rightarrow> sipgo \<Rightarrow> request \<Rightarrow> string \<Rightarrow> request option" where
  "buildInDialogForwardRequest cfg S req rawTarget =
     (case parseContactURI rawTarget of
        Some u \<Rightarrow> buildForwardRequestWithURI cfg S req u
      | None \<Rightarrow> buildForwardRequest cfg S req)"

definition buildInDialogForwardRequestForHop ::
  "config \<Rightarrow> sipgo \<Rightarrow> request \<Rightarrow> string \<Rightarrow> string \<Rightarrow> request option" where
  "buildInDialogForwardRequestForHop cfg S req rawTarget keepHop =
     (let parsed = (if rawTarget \<noteq> [] then parseContactURI rawTarget else None);
          target = (case parsed of Some u \<Rightarrow> u | None \<Rightarrow> rq_uri req)
      in buildForwardRequestWithURIAndRoute cfg S req target keepHop)"

definition record_route :: "string \<Rightarrow> int \<Rightarrow> string" where
  "record_route addr port = ''<sip:'' @ addr @ '':'' @ itoa port @ '';lr>''"

definition addRecordRoute :: "config \<Rightarrow> sipgo \<Rightarrow> string \<Rightarrow> request \<Rightarrow> request" where
  "addRecordRoute cfg S direction req =
     (let publicRR = HText ''Record-Route'' (record_route (PublicIP cfg) (PublicSIPPort cfg));
          privateRR = HText ''Record-Route'' (record_route (PrivateIP cfg) (PrivateSIPPort cfg))
      in if direction = ''to_fs''
         then req\<lparr>rq_headers := sg_prepend S privateRR (sg_prepend S publicRR (rq_headers req))\<rparr>
         else req\<lparr>rq_headers := sg_prepend S publicRR (sg_prepend S privateRR (rq_headers req))\<rparr>)"

definition contactDestinationURI :: "string \<Rightarrow> string \<Rightarrow> string \<Rightarrow> uri" where
  "contactDestinationURI contactURI contactAddress user =
     (case parseContactURI contactURI of
        Some u \<Rightarrow> u
      | None \<Rightarrow> mk_uri user (hd (split_on CHR '':'' contactAddress)) (parsePort contactAddress))"

section \<open>Responses\<close>

fun find_to :: "header list \<Rightarrow> header option" where
  "find_to [] = None"
| "find_to (HAddress n u ps v # hs) = (if n = ''To'' then Some (HAddress n u ps v) else find_to hs)"
| "find_to (_ # hs) = find_to hs"

definition skipped_response_headers :: "string set" where
  "skipped_response_headers = {''via'', ''from'', ''to'', ''call-id'', ''cseq'', ''content-type'', ''content-length''}"

definition copyResponseHeaders :: "sipgo \<Rightarrow> response \<Rightarrow> response \<Rightarrow> response" where
  "copyResponseHeaders S src dst =
     (let hs1 = fold (\<lambda>hdr hs. if to_lower (hdr_name hdr) \<notin> skipped_response_headers
                                then sg_append S hdr hs else hs) (rs_headers src) (rs_headers dst);
          hs2 = (case get_header (rs_headers src) ''Content-Type'' of
                   None \<Rightarrow> hs1
                 | Some ct \<Rightarrow> sg_append S (HText ''Content-Type'' (hdr_value ct)) hs1);
          hs3 = (case find_to (rs_headers src) of
                   None \<Rightarrow> hs2
                 | Some srcTo \<Rightarrow> sg_append S srcTo (sg_remove S ''To'' hs2))
      in dst\<lparr>rs_headers := hs3\<rparr>)"

definition replaceContactHeader :: "sipgo \<Rightarrow> string \<Rightarrow> header list \<Rightarrow> header list" where
  "replaceContactHeader S value hs =
     (if value = [] then hs
      else sg_append S (HText ''Contact'' value) (sg_remove S ''Contact'' hs))"

text \<open>The response relayed for \<open>resp\<close> to the request \<open>req\<close>.\<close>

definition relay_response :: "sipgo \<Rightarrow> request \<Rightarrow> response \<Rightarrow> response" where
  "relay_response S req resp =
     copyResponseHeaders S resp (sg_new_response S req (rs_status resp) (rs_reason resp) (rs_body resp))"

section \<open>CANCEL\<close>

text \<open>\<open>None\<close> is the nil header the code would dereference.\<close>

definition cancel_request :: "sipgo \<Rightarrow> request \<Rightarrow> request option" where
  "cancel_request S req =
     (let c = sg_new_request S ''CANCEL'' (rq_uri req);
          hs = rq_headers req
      in case (get_header hs ''Via'', get_header hs ''From'', get_header hs ''To'', find_call_id hs) of
           (Some v, Some f, Some t, Some callID) \<Rightarrow>
             let h1 = fold (sg_append S) [v, f, t, HCallID callID] (rq_headers c);
                 h2 = (case find_cseq hs of None \<Rightarrow> h1 | Some (n, m) \<Rightarrow> sg_append S (HCSeq n ''CANCEL'') h1);
                 h3 = sg_append S (HMaxForwards 70) h2;
                 h4 = sg_copy S ''Route'' hs h3
             in Some (c\<lparr>rq_headers := h4, rq_source := rq_source req, rq_dest := rq_dest req\<rparr>)
         | _ \<Rightarrow> None)"

section \<open>CSeq of calls with a digest retry\<close>

definition digestCSeqOffset :: "request \<Rightarrow> response \<Rightarrow> 32 word" where
  "digestCSeqOffset fsReq authResp =
     (case (rs_cseq authResp, rq_cseq fsReq) of
        (Some (a, m), Some (f, m')) \<Rightarrow> if a \<le> f then 0 else a - f
      | _ \<Rightarrow> 0)"

fun add_cseq :: "32 word \<Rightarrow> header list \<Rightarrow> header list" where
  "add_cseq k [] = []"
| "add_cseq k (HCSeq n m # hs) = HCSeq (n + k) m # hs"
| "add_cseq k (h # hs) = h # add_cseq k hs"

definition shiftCSeq :: "32 word \<Rightarrow> request \<Rightarrow> request" where
  "shiftCSeq k req =
     (if rq_cseq req \<noteq> None \<and> k > 0 then req\<lparr>rq_headers := add_cseq k (rq_headers req)\<rparr> else req)"

section \<open>What is forwarded\<close>

lemma lower_names [simp]:
  "to_lower ''Max-Forwards'' = ''max-forwards''" "to_lower ''Route'' = ''route''"
  "to_lower ''Content-Length'' = ''content-length''" "to_lower ''CSeq'' = ''cseq''"
  "to_lower ''Call-ID'' = ''call-id''" "to_lower ''To'' = ''to''" "to_lower ''Contact'' = ''contact''"
  "to_lower ''Content-Type'' = ''content-type''" "to_lower ''Record-Route'' = ''record-route''"
  by code_simp+

definition forwarded :: "config \<Rightarrow> sipgo \<Rightarrow> string \<Rightarrow> header \<Rightarrow> header list" where
  "forwarded cfg S keepHop hdr =
     (if to_lower (hdr_name hdr) \<in> {''max-forwards'', ''content-length''} then []
      else if to_lower (hdr_name hdr) = ''route'' then
        (if filterRouteValueForHop cfg S (hdr_value hdr) keepHop \<noteq> []
         then [HText ''Route'' (filterRouteValueForHop cfg S (hdr_value hdr) keepHop)] else [])
      else [hdr])"

lemma fold_forward_header:
  assumes "sipgo_ok S"
  shows "fold (forward_header cfg S keepHop) hs acc = acc @ concat (map (forwarded cfg S keepHop) hs)"
  by (induction hs arbitrary: acc)
    (simp_all add: forward_header_def forwarded_def Let_def sipgo_okD [OF assms])

lemma forwarded_names: "h \<in> set (forwarded cfg S keepHop hdr) \<Longrightarrow>
    to_lower (hdr_name h) \<noteq> ''max-forwards'' \<and> to_lower (hdr_name h) \<noteq> ''content-length''
    \<and> to_lower (hdr_name h) = to_lower (hdr_name hdr)"
  by (auto simp: forwarded_def split: if_splits)

abbreviation forwarded_headers :: "config \<Rightarrow> sipgo \<Rightarrow> string \<Rightarrow> header list \<Rightarrow> header list" where
  "forwarded_headers cfg S keepHop hs \<equiv> concat (map (forwarded cfg S keepHop) hs)"

definition next_hops :: "32 word option \<Rightarrow> 32 word" where
  "next_hops mf = (case mf of None \<Rightarrow> 70 | Some n \<Rightarrow> n - 1)"

lemma next_hops_int: "mf \<noteq> Some 0 \<Longrightarrow> word_of_int (case mf of None \<Rightarrow> 70 | Some n \<Rightarrow> uint n - 1) = next_hops mf"
  by (simp add: next_hops_def split: option.split)

lemma uint_minus_one_neg: "uint n - 1 < 0 \<longleftrightarrow> n = 0" for n :: "32 word"
proof -
  have "0 \<le> uint n" by simp
  then have "uint n - 1 < 0 \<longleftrightarrow> uint n = 0" by linarith
  then show ?thesis by (simp add: uint_0_iff)
qed

lemma build_forward_eq:
  assumes "sipgo_ok S"
  shows "(rq_max_forwards req = Some 0 \<longrightarrow> buildForwardRequestWithURIAndRoute cfg S req u keepHop = None)
    \<and> (rq_max_forwards req \<noteq> Some 0 \<longrightarrow>
        (\<exists>fwd v. buildForwardRequestWithURIAndRoute cfg S req u keepHop = Some fwd
           \<and> rq_method fwd = rq_method req \<and> rq_uri fwd = u \<and> rq_body fwd = rq_body req
           \<and> rq_headers fwd = forwarded_headers cfg S keepHop (rq_headers req)
                @ [HMaxForwards (next_hops (rq_max_forwards req)), HText ''Content-Length'' v]))"
proof -
  let ?mf = "case rq_max_forwards req of None \<Rightarrow> 70 | Some n \<Rightarrow> uint n - 1"
  let ?n = "sg_new_request S (rq_method req) u"
  let ?hs = "forwarded_headers cfg S keepHop (rq_headers req) @ [HMaxForwards (word_of_int ?mf)]"
  have neg: "?mf < 0 \<longleftrightarrow> rq_max_forwards req = Some 0"
    using uint_minus_one_neg by (auto split: option.split)
  have build: "buildForwardRequestWithURIAndRoute cfg S req u keepHop =
      (if ?mf < 0 then None else Some (sg_set_body S (rq_body req) (?n\<lparr>rq_headers := ?hs\<rparr>)))"
    by (simp add: buildForwardRequestWithURIAndRoute_def Let_def fold_forward_header [OF assms] sipgo_okD [OF assms])
  have "list_all (\<lambda>h. \<not> named ''Content-Length'' h) ?hs"
    by (auto simp: list_all_iff named_def dest!: forwarded_names)
  with sipgo_set_body [OF assms, of "?n\<lparr>rq_headers := ?hs\<rparr>" "rq_body req"] obtain v where
    "sg_set_body S (rq_body req) (?n\<lparr>rq_headers := ?hs\<rparr>) =
       ?n\<lparr>rq_body := rq_body req, rq_headers := ?hs @ [HText ''Content-Length'' v]\<rparr>" by auto
  then show ?thesis unfolding build neg
    by (auto simp: sipgo_okD [OF assms] next_hops_int)
qed

lemma find_max_forwards_forwarded: "find_max_forwards (forwarded_headers cfg S keepHop hs) = None"
proof -
  have "\<forall>h \<in> set xs. to_lower (hdr_name h) \<noteq> ''max-forwards'' \<Longrightarrow> find_max_forwards xs = None" for xs
    by (induction xs rule: find_max_forwards.induct) auto
  moreover have "\<forall>h \<in> set (forwarded_headers cfg S keepHop hs). to_lower (hdr_name h) \<noteq> ''max-forwards''"
    by (auto dest: forwarded_names)
  ultimately show ?thesis by blast
qed

text \<open>Headers the proxy does not manage.\<close>

definition end_to_end :: "header \<Rightarrow> bool" where
  "end_to_end h \<longleftrightarrow> to_lower (hdr_name h) \<notin> {''max-forwards'', ''content-length'', ''route''}"

lemma filter_end_to_end:
  "filter end_to_end (forwarded_headers cfg S keepHop hs) = filter end_to_end hs"
  by (induction hs) (auto simp: forwarded_def end_to_end_def)

text \<open>
  Property (C20). A request is refused for forwarding exactly when its Max-Forwards is zero; otherwise method,
  body and every header the proxy does not manage arrive unchanged and in order, the target
  is the one asked for, and Max-Forwards is one less (70 when there was none).
\<close>

theorem forwarding_preserves_the_request:
  assumes "sipgo_ok S"
  shows "case buildForwardRequestWithURIAndRoute cfg S req u keepHop of
      None \<Rightarrow> rq_max_forwards req = Some 0
    | Some fwd \<Rightarrow> rq_max_forwards req \<noteq> Some 0
        \<and> rq_method fwd = rq_method req \<and> rq_uri fwd = u \<and> rq_body fwd = rq_body req
        \<and> filter end_to_end (rq_headers fwd) = filter end_to_end (rq_headers req)
        \<and> rq_max_forwards fwd = Some (case rq_max_forwards req of None \<Rightarrow> 70 | Some n \<Rightarrow> n - 1)"
proof (cases "rq_max_forwards req = Some 0")
  case True
  with build_forward_eq [OF assms, of req cfg u keepHop] show ?thesis by simp
next
  case False
  with build_forward_eq [OF assms, of req cfg u keepHop] obtain fwd v where
    "buildForwardRequestWithURIAndRoute cfg S req u keepHop = Some fwd"
    "rq_method fwd = rq_method req" "rq_uri fwd = u" "rq_body fwd = rq_body req"
    "rq_headers fwd = forwarded_headers cfg S keepHop (rq_headers req)
       @ [HMaxForwards (next_hops (rq_max_forwards req)), HText ''Content-Length'' v]" by blast
  with False show ?thesis
    by (simp add: find_max_forwards_append find_max_forwards_forwarded filter_end_to_end)
      (simp add: end_to_end_def next_hops_def)
qed

section \<open>A request cannot circle for ever\<close>

text \<open>Forwarding along a path of hops, each with its own settings and target.\<close>

fun forward_path :: "sipgo \<Rightarrow> (config \<times> uri \<times> string) list \<Rightarrow> request \<Rightarrow> request option" where
  "forward_path S [] req = Some req"
| "forward_path S ((cfg, u, keepHop) # path) req =
     Option.bind (buildForwardRequestWithURIAndRoute cfg S req u keepHop) (forward_path S path)"

definition hops_left :: "32 word option \<Rightarrow> nat" where
  "hops_left mf = (case mf of None \<Rightarrow> 71 | Some n \<Rightarrow> unat n)"

lemma hops_left_next: "mf \<noteq> Some 0 \<Longrightarrow> hops_left (Some (next_hops mf)) + 1 = hops_left mf"
proof (cases mf)
  case (Some n)
  assume "mf \<noteq> Some 0"
  with Some have "0 < unat n" by (simp add: unat_gt_0)
  moreover from this have "unat (n - 1) = unat n - 1" by (simp add: unat_sub word_le_nat_alt)
  ultimately show ?thesis by (simp add: Some hops_left_def next_hops_def)
qed (simp add: hops_left_def next_hops_def)

lemma forward_step_hops:
  assumes "sipgo_ok S"
  shows "case buildForwardRequestWithURIAndRoute cfg S req u keepHop of
      None \<Rightarrow> hops_left (rq_max_forwards req) = 0
    | Some fwd \<Rightarrow> hops_left (rq_max_forwards fwd) + 1 = hops_left (rq_max_forwards req)"
proof (cases "rq_max_forwards req = Some 0")
  case True
  with build_forward_eq [OF assms, of req cfg u keepHop] show ?thesis by (simp add: hops_left_def)
next
  case False
  with build_forward_eq [OF assms, of req cfg u keepHop] obtain fwd v where
    "buildForwardRequestWithURIAndRoute cfg S req u keepHop = Some fwd"
    "rq_headers fwd = forwarded_headers cfg S keepHop (rq_headers req)
       @ [HMaxForwards (next_hops (rq_max_forwards req)), HText ''Content-Length'' v]" by blast
  with hops_left_next [OF False] show ?thesis
    by (simp add: find_max_forwards_append find_max_forwards_forwarded)
qed

text \<open>
  Property (C37). No request can be forwarded for ever: along any path of proxies it gets exactly as far as
  its Max-Forwards allows, 71 hops when it carries none, whatever targets and settings the
  hops have.
\<close>

theorem forwarding_ends:
  assumes "sipgo_ok S"
  shows "forward_path S path req \<noteq> None
     \<longleftrightarrow> length path \<le> (case rq_max_forwards req of None \<Rightarrow> 71 | Some n \<Rightarrow> unat n)"
  unfolding hops_left_def [symmetric]
proof (induction path arbitrary: req)
  case Nil
  then show ?case by simp
next
  case (Cons hop path)
  obtain cfg u keepHop where hop: "hop = (cfg, u, keepHop)" by (cases hop)
  from forward_step_hops [OF assms, where cfg = cfg and req = req and u = u and keepHop = keepHop] Cons.IH show ?case
    by (cases "buildForwardRequestWithURIAndRoute cfg S req u keepHop") (auto simp: hop)
qed

section \<open>Only the own hops are taken off a Route\<close>

text \<open>The entries of a Route value, and whether one sends to this program.\<close>

definition route_entries :: "string \<Rightarrow> string list" where
  "route_entries value = filter (\<lambda>e. e \<noteq> []) (map trim_space (split_on CHR '','' value))"

definition own_hop :: "config \<Rightarrow> sipgo \<Rightarrow> string \<Rightarrow> bool" where
  "own_hop cfg S e \<longleftrightarrow> routeHop S e \<in> {PublicIP cfg @ '':5060'', PrivateIP cfg @ '':5065''}"

lemma keep_route_Nil: "keep_route cfg S [] part =
    (if trim_space part \<noteq> [] \<and> \<not> own_hop cfg S (trim_space part) then [trim_space part] else [])"
  by (simp add: keep_route_def own_hop_def Let_def)

lemma concat_keep_route:
  "concat (map (keep_route cfg S []) parts) =
     filter (\<lambda>e. \<not> own_hop cfg S e) (filter (\<lambda>e. e \<noteq> []) (map trim_space parts))"
  by (induction parts) (simp_all add: keep_route_Nil)

lemma filterRouteValue_eq:
  "filterRouteValue cfg S value = join_with '', '' (filter (\<lambda>e. \<not> own_hop cfg S e) (route_entries value))"
  by (simp add: filterRouteValue_def filterRouteValueForHop_def concat_keep_route route_entries_def)

lemma route_entries_lead: "route_entries (CHR '' '' # s) = route_entries s"
proof (cases "split_on CHR '','' s")
  case (Cons y ys)
  then have "split_on CHR '','' (CHR '' '' # s) = (CHR '' '' # y) # ys" by simp
  then show ?thesis by (simp add: route_entries_def Cons trim_space_def space_len_def ascii_space_def)
qed simp

lemma route_entries_join:
  assumes "\<forall>e \<in> set es. e \<noteq> [] \<and> trim_space e = e \<and> CHR '','' \<notin> set e"
  shows "route_entries (join_with '', '' es) = es"
  using assms
proof (induction es)
  case Nil
  then show ?case by (simp add: route_entries_def)
next
  case (Cons e es)
  show ?case
  proof (cases "es = []")
    case True
    with Cons.prems show ?thesis by (simp add: route_entries_def split_on_no_sep)
  next
    case False
    then have "join_with '', '' (e # es) = e @ CHR '','' # CHR '' '' # join_with '', '' es"
      by (simp add: join_with_Cons)
    then have "route_entries (join_with '', '' (e # es)) = e # route_entries (CHR '' '' # join_with '', '' es)"
      using Cons.prems by (simp add: route_entries_def split_on_append del: split_on.simps)
    with Cons show ?thesis by (simp add: route_entries_lead)
  qed
qed

lemma route_entries_wf: "e \<in> set (route_entries value) \<Longrightarrow> e \<noteq> [] \<and> trim_space e = e \<and> CHR '','' \<notin> set e"
  using set_trim_space split_on_pieces by (fastforce simp: route_entries_def)

text \<open>
  Of a Route value exactly the entries that send to the program itself (by the host and port
  of their URI, not by what their parameters mention) are taken off; all others stay, in
  order and unchanged, and filtering again changes nothing.
\<close>

theorem route_keeps_foreign_hops:
  "route_entries (filterRouteValue cfg S value) =
     filter (\<lambda>e. routeHop S e \<notin> {PublicIP cfg @ '':5060'', PrivateIP cfg @ '':5065''}) (route_entries value)
   \<and> filterRouteValue cfg S (filterRouteValue cfg S value) = filterRouteValue cfg S value"
proof -
  have one: "route_entries (filterRouteValue cfg S value) = filter (\<lambda>e. \<not> own_hop cfg S e) (route_entries value)"
    unfolding filterRouteValue_eq by (rule route_entries_join) (use route_entries_wf in auto)
  then have "filterRouteValue cfg S (filterRouteValue cfg S value) = filterRouteValue cfg S value"
    by (subst filterRouteValue_eq) (simp add: filterRouteValue_eq)
  with one show ?thesis unfolding own_hop_def by blast
qed

section \<open>The program's own Record-Route\<close>

text \<open>A plain host: no character that would end it in a Route entry.\<close>

definition plain_host :: "string \<Rightarrow> bool" where
  "plain_host s \<longleftrightarrow> s \<noteq> [] \<and> list_all (\<lambda>c. printable c \<and> c \<notin> {CHR '','', CHR ''<'', CHR ''>'', CHR '';'', CHR ''@'', CHR '':'', CHR ''%''}) s"

definition parses_route :: "sipgo \<Rightarrow> bool" where
  "parses_route S \<longleftrightarrow> (\<forall>host port. plain_host host \<longrightarrow> 0 < port \<longrightarrow> port < 65536 \<longrightarrow>
     (\<exists>u. sg_parse_uri S (''sip:'' @ host @ '':'' @ itoa port @ '';lr'') = Some u \<and> uri_host u = host \<and> uri_port u = port))"

lemma colon_split:
  assumes "CHR '':'' \<notin> set a" "CHR '':'' \<notin> set b"
  shows "a @ CHR '':'' # x = b @ CHR '':'' # y \<longleftrightarrow> a = b \<and> x = y"
proof
  assume "a @ CHR '':'' # x = b @ CHR '':'' # y"
  then have "cut_on CHR '':'' (a @ CHR '':'' # x) = cut_on CHR '':'' (b @ CHR '':'' # y)" by simp
  with assms show "a = b \<and> x = y" by simp
qed simp

lemma routeHop_record_route:
  assumes "parses_route S" "plain_host host" "0 < port" "port < 65536"
  shows "routeHop S (record_route host port) = host @ '':'' @ itoa port"
proof -
  define w where "w = ''sip:'' @ host @ '':'' @ itoa port @ '';lr''"
  have h: "\<forall>c \<in> set host. c \<noteq> CHR ''<'' \<and> c \<noteq> CHR ''>'' \<and> c \<noteq> CHR '':'' \<and> c \<noteq> CHR ''%''"
    using assms(2) by (auto simp: plain_host_def list_all_iff)
  have no: "CHR ''>'' \<notin> set w" using h itoa_no [of port "CHR ''>''"] assms(3) by (auto simp: w_def)
  have eq: "record_route host port = CHR ''<'' # w @ ''>''" by (simp add: record_route_def w_def)
  have trim: "trim_space (CHR ''<'' # w @ ''>'') = CHR ''<'' # w @ ''>''"
    by (rule trim_space_id) (simp_all add: printable_def ascii_def ascii_space_def)
  obtain u where u: "sg_parse_uri S w = Some u" "uri_host u = host" "uri_port u = port"
    using assms unfolding parses_route_def w_def by blast
  have "index_byte (w @ ''>'') CHR ''>'' = Some (length w)" using index_byte_append [OF no, of "[]"] .
  moreover have "join_host_port host (itoa port) = host @ '':'' @ itoa port"
    using h by (auto simp: join_host_port_def)
  ultimately show ?thesis using assms(3) u by (simp add: routeHop_def eq trim)
qed

lemma route_entries_record_route:
  assumes "plain_host host" "0 < port"
  shows "route_entries (record_route host port) = [record_route host port]"
proof -
  have "CHR '','' \<notin> set (record_route host port)"
    using assms itoa_no [of port "CHR '',''"] by (auto simp: record_route_def plain_host_def list_all_iff)
  moreover have "trim_space (record_route host port) = record_route host port"
    by (rule trim_space_id) (simp_all add: record_route_def printable_def ascii_def ascii_space_def)
  moreover have "record_route host port \<noteq> []" by (simp add: record_route_def)
  ultimately show ?thesis by (simp add: route_entries_def split_on_no_sep)
qed

lemma record_route_filtered:
  assumes "parses_route S" "plain_host host" "0 < port" "port < 65536"
    and "plain_host (PublicIP cfg)" "plain_host (PrivateIP cfg)"
  shows "filterRouteValue cfg S (record_route host port) = []
     \<longleftrightarrow> (host = PublicIP cfg \<and> port = 5060) \<or> (host = PrivateIP cfg \<and> port = 5065)"
proof -
  have no: "plain_host a \<Longrightarrow> CHR '':'' \<notin> set a" for a by (auto simp: plain_host_def list_all_iff)
  have itoa_same: "itoa port = itoa n \<longleftrightarrow> port = n" if "fits64 n" for n
    using itoa_inj assms(3,4) that by (fastforce simp: fits64_def)
  have itoa: "''5060'' = itoa 5060" "''5065'' = itoa 5065" by code_simp+
  have "record_route host port \<noteq> []" by (simp add: record_route_def)
  then have "filterRouteValue cfg S (record_route host port) = [] \<longleftrightarrow> own_hop cfg S (record_route host port)"
    by (simp add: filterRouteValue_eq route_entries_record_route [OF assms(2,3)])
  also have "\<dots> \<longleftrightarrow> (host = PublicIP cfg \<and> port = 5060) \<or> (host = PrivateIP cfg \<and> port = 5065)"
    unfolding own_hop_def routeHop_record_route [OF assms(1-4)]
    using colon_split [OF no [OF assms(2)] no [OF assms(5)]] colon_split [OF no [OF assms(2)] no [OF assms(6)]]
    itoa_same [of 5060] itoa_same [of 5065] by (auto simp: itoa fits64_def)
  finally show ?thesis .
qed

text \<open>
  The two Record-Route headers written into a forwarded request are in front, the outgoing
  interface first; when such an entry comes back in a Route, it is recognised as the
  program's own, and taken off, exactly when the configured port is 5060 (public) or 5065
  (private): with any other \<^verbatim>\<open>PUBLIC_SIP_PORT\<close> the program's own hop stays in the Route.
\<close>

theorem own_record_route_recognised:
  assumes "sipgo_ok S" "parses_route S" "plain_host (PublicIP cfg)" "plain_host (PrivateIP cfg)"
    and "PublicIP cfg \<noteq> PrivateIP cfg"
    and "0 < PublicSIPPort cfg" "PublicSIPPort cfg < 65536" "0 < PrivateSIPPort cfg" "PrivateSIPPort cfg < 65536"
  shows "\<exists>pub priv. (filterRouteValue cfg S pub = [] \<longleftrightarrow> PublicSIPPort cfg = 5060)
      \<and> (filterRouteValue cfg S priv = [] \<longleftrightarrow> PrivateSIPPort cfg = 5065)
      \<and> rq_headers (addRecordRoute cfg S ''to_fs'' req) =
          HText ''Record-Route'' priv # HText ''Record-Route'' pub # rq_headers req
      \<and> rq_headers (addRecordRoute cfg S ''from_fs'' req) =
          HText ''Record-Route'' pub # HText ''Record-Route'' priv # rq_headers req"
proof (intro exI conjI)
  show "filterRouteValue cfg S (record_route (PublicIP cfg) (PublicSIPPort cfg)) = [] \<longleftrightarrow> PublicSIPPort cfg = 5060"
    using record_route_filtered [OF assms(2,3,6,7,3,4)] assms(5) by simp
  show "filterRouteValue cfg S (record_route (PrivateIP cfg) (PrivateSIPPort cfg)) = [] \<longleftrightarrow> PrivateSIPPort cfg = 5065"
    using record_route_filtered [OF assms(2,4,8,9,3,4)] assms(5) by simp
qed (simp_all add: addRecordRoute_def Let_def sipgo_okD [OF assms(1)])

section \<open>What a relayed response carries\<close>

definition copied :: "header \<Rightarrow> bool" where
  "copied h \<longleftrightarrow> to_lower (hdr_name h) \<notin> skipped_response_headers"

lemma fold_copied:
  assumes "sipgo_ok S"
  shows "fold (\<lambda>hdr hs. if to_lower (hdr_name hdr) \<notin> skipped_response_headers then sg_append S hdr hs else hs) hs acc
     = acc @ filter copied hs"
  by (induction hs arbitrary: acc) (simp_all add: copied_def sipgo_okD [OF assms])

lemma find_to_SomeD: "find_to hs = Some h \<Longrightarrow> h \<in> set hs \<and> hdr_name h = ''To''"
  by (induction hs rule: find_to.induct) (auto split: if_splits)

lemma find_to_single: "find_to hs = Some h \<Longrightarrow> find_to [h] = Some h"
  by (induction hs rule: find_to.induct) (auto split: if_splits)

lemma find_to_append: "find_to (a @ b) = (case find_to a of None \<Rightarrow> find_to b | Some h \<Rightarrow> Some h)"
  by (induction a rule: find_to.induct) auto

lemma find_to_none: "\<forall>h \<in> set hs. \<not> named ''To'' h \<Longrightarrow> find_to hs = None"
  by (induction hs rule: find_to.induct) (auto simp: named_def)

lemma not_copied_To: "copied h \<Longrightarrow> \<not> named ''To'' h"
  by (auto simp: copied_def named_def skipped_response_headers_def)

text \<open>The To header of the new response, which the far end's takes the place of, and nothing
  else of it.\<close>

lemma copy_headers_eq:
  assumes S: "sipgo_ok S" and dst: "rs_headers dst = a @ h # b" "named ''To'' h" "hdr_name h = ''To''"
    and only: "list_all (\<lambda>x. \<not> named ''To'' x) (a @ b)" and srcTo: "find_to (rs_headers src) = Some t"
  shows "rs_headers (copyResponseHeaders S src dst) =
     a @ b @ filter copied (rs_headers src)
       @ (case get_header (rs_headers src) ''Content-Type'' of None \<Rightarrow> [] | Some ct \<Rightarrow> [HText ''Content-Type'' (hdr_value ct)])
       @ [t]"
proof -
  let ?ct = "case get_header (rs_headers src) ''Content-Type'' of None \<Rightarrow> [] | Some ct \<Rightarrow> [HText ''Content-Type'' (hdr_value ct)]"
  have "sg_remove S (hdr_name h) (a @ h # (b @ filter copied (rs_headers src) @ ?ct)) =
      a @ (b @ filter copied (rs_headers src) @ ?ct)"
    using only dst(3) by (intro sipgo_remove_first [OF S]) simp
  then show ?thesis
    by (cases "get_header (rs_headers src) ''Content-Type''")
      (simp_all add: copyResponseHeaders_def Let_def fold_copied [OF S] srcTo dst sipgo_okD [OF S])
qed

text \<open>
  Property (C23). A relayed response keeps the headers the library made for the request it answers, except
  that the To is the far end's, with its tag; it carries the far end's remaining headers in
  order and its Content-Type, and has the far end's status, reason and body.
\<close>

theorem relayed_response_is_the_far_ends:
  assumes S: "sipgo_ok S"
    and made: "rs_headers (sg_new_response S req (rs_status resp) (rs_reason resp) (rs_body resp)) = a @ h # b"
      "hdr_name h = ''To''" "list_all (\<lambda>x. \<not> named ''To'' x) (a @ b)"
    and to: "find_to (rs_headers resp) = Some t"
  shows "rs_status (relay_response S req resp) = rs_status resp
    \<and> rs_reason (relay_response S req resp) = rs_reason resp
    \<and> rs_body (relay_response S req resp) = rs_body resp
    \<and> find_to (rs_headers (relay_response S req resp)) = Some t
    \<and> rs_headers (relay_response S req resp) = a @ b
        @ filter (\<lambda>x. to_lower (hdr_name x) \<notin> skipped_response_headers) (rs_headers resp)
        @ (case get_header (rs_headers resp) ''Content-Type'' of
             None \<Rightarrow> [] | Some ct \<Rightarrow> [HText ''Content-Type'' (hdr_value ct)])
        @ [t]"
proof -
  have "named ''To'' h" using made(2) by (simp add: named_def)
  note hs = copy_headers_eq [OF S made(1) this made(2,3) to]
  let ?ct = "case get_header (rs_headers resp) ''Content-Type'' of None \<Rightarrow> [] | Some ct \<Rightarrow> [HText ''Content-Type'' (hdr_value ct)]"
  have "find_to (a @ b @ filter copied (rs_headers resp) @ ?ct) = None"
    using made(3) not_copied_To
    by (intro find_to_none) (auto simp: list_all_iff named_def split: option.splits)
  moreover have "find_to [t] = Some t" by (rule find_to_single [OF to])
  ultimately have "find_to ((a @ b @ filter copied (rs_headers resp) @ ?ct) @ [t]) = Some t"
    by (simp only: find_to_append option.case)
  then show ?thesis
    using hs unfolding relay_response_def copied_def
    by (simp add: copyResponseHeaders_def Let_def sipgo_okD [OF S])
qed

section \<open>A CANCEL matches its INVITE\<close>

lemma find_named_same: "get_header hs n = Some h \<Longrightarrow> named n h"
  by (auto simp: get_header_def dest: find_SomeD)

text \<open>
  Property (C38). The CANCEL for an outgoing INVITE has the INVITE's Request-URI, Call-ID, To, From, top Via
  and Route set, its CSeq number with the method CANCEL, and goes to the same destination,
  as RFC 3261 asks for it to be matched.
\<close>

theorem cancel_matches_invite:
  assumes S: "sipgo_ok S" and c: "cancel_request S req = Some c" and q: "rq_cseq req = Some (n, m)"
  shows "rq_method c = ''CANCEL'' \<and> rq_uri c = rq_uri req \<and> rq_dest c = rq_dest req
     \<and> rq_call_id c = rq_call_id req \<and> rq_cseq c = Some (n, ''CANCEL'')
     \<and> get_header (rq_headers c) ''Via'' = get_header (rq_headers req) ''Via''
     \<and> get_header (rq_headers c) ''From'' = get_header (rq_headers req) ''From''
     \<and> get_header (rq_headers c) ''To'' = get_header (rq_headers req) ''To''
     \<and> filter (named ''Route'') (rq_headers c) = filter (named ''Route'') (rq_headers req)"
proof -
  obtain v f t i where some: "get_header (rq_headers req) ''Via'' = Some v"
    "get_header (rq_headers req) ''From'' = Some f" "get_header (rq_headers req) ''To'' = Some t"
    "find_call_id (rq_headers req) = Some i"
    using c by (auto simp: cancel_request_def Let_def split: option.splits)
  have hs: "rq_headers c = [v, f, t, HCallID i, HCSeq n ''CANCEL'', HMaxForwards 70] @ filter (named ''Route'') (rq_headers req)"
    and rest: "rq_method c = ''CANCEL''" "rq_uri c = rq_uri req" "rq_dest c = rq_dest req"
    using c some q by (auto simp: cancel_request_def Let_def sipgo_okD [OF S])
  note names = find_named_same [OF some(1)] find_named_same [OF some(2)] find_named_same [OF some(3)]
  have lower: "to_lower ''Via'' = ''via''" "to_lower ''From'' = ''from''" "to_lower ''To'' = ''to''"
    by code_simp+
  have typed: "find_call_id [v, f, t] = None" "find_cseq [v, f, t] = None"
    using names by (cases v; cases f; cases t; simp add: named_def lower)+
  have "rq_call_id c = Some i" "rq_cseq c = Some (n, ''CANCEL'')"
    using typed find_call_id_append [of "[v, f, t]"] find_cseq_append [of "[v, f, t]"] by (simp_all add: hs)
  moreover have "get_header (rq_headers c) ''Via'' = Some v" "get_header (rq_headers c) ''From'' = Some f"
    "get_header (rq_headers c) ''To'' = Some t"
    using names by (simp_all add: hs get_header_def named_def lower)
  moreover have "filter (named ''Route'') (rq_headers c) = filter (named ''Route'') (rq_headers req)"
  proof -
    have "\<not> named ''Route'' v" "\<not> named ''Route'' f" "\<not> named ''Route'' t"
      using names by (simp_all add: named_def lower)
    moreover have "\<not> named ''Route'' (HCallID i)" "\<not> named ''Route'' (HCSeq n ''CANCEL'')"
      "\<not> named ''Route'' (HMaxForwards 70)" by (simp_all add: named_def)
    ultimately show ?thesis by (simp add: hs)
  qed
  ultimately show ?thesis using rest some by simp
qed

section \<open>The CSeq numbers both sides see\<close>

lemma find_cseq_add: "find_cseq (add_cseq k hs) = map_option (\<lambda>(n, m). (n + k, m)) (find_cseq hs)"
  by (induction k hs rule: add_cseq.induct) auto

lemma shiftCSeq_cseq: "rq_cseq (shiftCSeq k req) = map_option (\<lambda>(n, m). (n + k, m)) (rq_cseq req)"
  by (cases "rq_cseq req") (auto simp: shiftCSeq_def find_cseq_add word_gt_0)

text \<open>
  After a digest retry that FreeSWITCH did not see, the trunk gets consistent numbers: the ACK
  to the authenticated INVITE carries that INVITE's number, and every later request of
  FreeSWITCH a later number, as far above the INVITE's as FreeSWITCH's is above its own; the
  method is kept, and without a retry nothing changes.
\<close>

theorem cseq_offset_matches_trunk:
  assumes "rq_cseq fsInvite = Some (f, mi)" "rs_cseq authResp = Some (a, ma)"
    and "rq_cseq later = Some (n, m)" "f \<le> n"
    and "unat n + (unat a - unat f) < 2 ^ 32"
  shows "(let k = digestCSeqOffset fsInvite authResp;
              sent = rq_cseq (shiftCSeq k later)
          in (if f \<le> a then \<exists>s. sent = Some (s, m) \<and> unat s = unat a + (unat n - unat f)
              else sent = Some (n, m)))"
proof (cases "f \<le> a")
  case True
  have k: "digestCSeqOffset fsInvite authResp = a - f"
    using True assms(1,2) by (simp add: digestCSeqOffset_def)
  have "unat (a - f) = unat a - unat f" using True by (simp add: unat_sub word_le_nat_alt)
  then have "unat (n + (a - f)) = unat n + (unat a - unat f)"
    using assms(5) by (simp add: unat_add_lem [THEN iffD1])
  also have "\<dots> = unat a + (unat n - unat f)"
    using True assms(4) by (simp add: word_le_nat_alt)
  finally show ?thesis using True assms(3) by (simp add: k shiftCSeq_cseq)
next
  case False
  then have "a \<le> f" by simp
  then have "digestCSeqOffset fsInvite authResp = 0" using assms(1,2) by (simp add: digestCSeqOffset_def)
  with False assms(3) show ?thesis by (simp add: shiftCSeq_cseq)
qed

section \<open>Witnesses\<close>

text \<open>An instance of the library that parses the URIs of Route entries.\<close>

definition route_model :: sipgo where
  "route_model = sipgo_model\<lparr>sg_parse_uri := (\<lambda>s. case cut_on CHR '':'' (drop 4 s) of (host, rest, found) \<Rightarrow>
     Some (mk_uri [] host (fst (atoi (fst (cut_on CHR '';'' rest))))))\<rparr>"

lemma sipgo_ok_route_model: "sipgo_ok route_model"
  using sipgo_ok_model by (simp add: sipgo_ok_def route_model_def)

lemma parses_route_model: "parses_route route_model"
  unfolding parses_route_def
proof (intro allI impI)
  fix host and port :: int
  assume "plain_host host" "0 < port" "port < 65536"
  then have "CHR '':'' \<notin> set host" "CHR '';'' \<notin> set (itoa port)" "fst (atoi (itoa port)) = port"
    using itoa_no [of port "CHR '';''"] atoi_itoa [of port]
    by (auto simp: plain_host_def list_all_iff fits64_def)
  then show "\<exists>u. sg_parse_uri route_model (''sip:'' @ host @ '':'' @ itoa port @ '';lr'') = Some u
      \<and> uri_host u = host \<and> uri_port u = port"
    by (simp add: route_model_def mk_uri_def)
qed

definition demo_config :: config where
  "demo_config = (loadConfig (\<lambda>_. []))\<lparr>PublicIP := ''203.0.113.1'', PrivateIP := ''10.0.0.2'', PublicSIPPort := 6060\<rparr>"

definition demo_invite :: request where
  "demo_invite = \<lparr>rq_method = ''INVITE'', rq_uri = mk_uri ''6002'' ''a.example.com'' 0,
     rq_headers = [HText ''Via'' ''SIP/2.0/UDP 198.51.100.7'', HAddress ''From'' (mk_uri ''6001'' ''a.example.com'' 0) [(''tag'', ''x'')] ''f'',
       HAddress ''To'' (mk_uri ''6002'' ''a.example.com'' 0) [] ''t'', HCallID ''call1'', HCSeq 7 ''INVITE'', HMaxForwards 2,
       HText ''Subject'' ''hi''],
     rq_body = ''v=0'', rq_source = ''198.51.100.7:5060'', rq_dest = ''10.0.0.9:5070'', rq_transport = ''UDP''\<rparr>"

lemma forwarding_preserves_witness:
  "case buildForwardRequestWithURIAndRoute demo_config sipgo_model demo_invite (mk_uri [] ''10.0.0.9'' 5070) [] of
      None \<Rightarrow> False
    | Some fwd \<Rightarrow> rq_max_forwards fwd = Some 1 \<and> rq_body fwd = ''v=0''
        \<and> filter end_to_end (rq_headers fwd) = filter end_to_end (rq_headers demo_invite)"
proof -
  have "rq_max_forwards demo_invite = Some 2" "rq_body demo_invite = ''v=0''" by (simp_all add: demo_invite_def)
  with forwarding_preserves_the_request [OF sipgo_ok_model, where cfg = demo_config and req = demo_invite
      and u = "mk_uri [] ''10.0.0.9'' 5070" and keepHop = "[]"]
  show ?thesis by (simp split: option.splits)
qed

lemma forwarding_ends_witness:
  "forward_path sipgo_model (replicate 2 (demo_config, mk_uri [] ''10.0.0.9'' 5070, [])) demo_invite \<noteq> None
   \<and> forward_path sipgo_model (replicate 3 (demo_config, mk_uri [] ''10.0.0.9'' 5070, [])) demo_invite = None"
proof -
  have "rq_max_forwards demo_invite = Some 2" by (simp add: demo_invite_def)
  then show ?thesis
    using forwarding_ends [OF sipgo_ok_model, of "replicate 2 (demo_config, mk_uri [] ''10.0.0.9'' 5070, [])" demo_invite]
      forwarding_ends [OF sipgo_ok_model, of "replicate 3 (demo_config, mk_uri [] ''10.0.0.9'' 5070, [])" demo_invite]
    by (simp del: forward_path.simps replicate.simps)
qed

lemma own_record_route_witness:
  "\<exists>pub priv. filterRouteValue demo_config route_model pub \<noteq> [] \<and> filterRouteValue demo_config route_model priv = []
      \<and> rq_headers (addRecordRoute demo_config route_model ''to_fs'' demo_invite) =
          HText ''Record-Route'' priv # HText ''Record-Route'' pub # rq_headers demo_invite"
proof -
  have "plain_host (PublicIP demo_config)" "plain_host (PrivateIP demo_config)"
    "PublicIP demo_config \<noteq> PrivateIP demo_config" "PublicSIPPort demo_config = 6060" "PrivateSIPPort demo_config = 5065"
    by (simp_all add: demo_config_def plain_host_def printable_def ascii_def ascii_space_def loadConfig_def
        envIntOrDefault_def)
  with own_record_route_recognised [OF sipgo_ok_route_model parses_route_model, where cfg = demo_config and req = demo_invite]
  show ?thesis by auto
qed

definition demo_far_to :: header where
  "demo_far_to = HAddress ''To'' (mk_uri ''6002'' ''a.example.com'' 0) [(''tag'', ''y'')] ''t;tag=y''"

definition demo_ok_response :: response where
  "demo_ok_response = \<lparr>rs_status = 200, rs_reason = ''OK'', rs_headers = [demo_far_to], rs_body = [], rs_dest = []\<rparr>"

lemma relayed_response_witness:
  "find_to (rs_headers (relay_response sipgo_model demo_invite demo_ok_response)) = Some demo_far_to"
proof -
  let ?a = "take 2 (rq_headers demo_invite)" and ?b = "drop 3 (rq_headers demo_invite)"
  let ?h = "HAddress ''To'' (mk_uri ''6002'' ''a.example.com'' 0) [] ''t''"
  have made: "rs_headers (sg_new_response sipgo_model demo_invite (rs_status demo_ok_response)
      (rs_reason demo_ok_response) (rs_body demo_ok_response)) = ?a @ ?h # ?b"
    by (simp add: sipgo_model_def demo_invite_def)
  have "to_lower ''Via'' = ''via''" "to_lower ''From'' = ''from''" "to_lower ''Subject'' = ''subject''"
    by code_simp+
  then have only: "list_all (\<lambda>x. \<not> named ''To'' x) (?a @ ?b)" by (simp add: demo_invite_def named_def)
  have to: "find_to (rs_headers demo_ok_response) = Some demo_far_to"
    by (simp add: demo_ok_response_def demo_far_to_def)
  have "hdr_name ?h = ''To''" by simp
  from relayed_response_is_the_far_ends [OF sipgo_ok_model made this only to] show ?thesis by blast
qed

lemma cancel_matches_invite_witness:
  "\<exists>c. cancel_request sipgo_model demo_invite = Some c \<and> rq_call_id c = Some ''call1''
     \<and> rq_cseq c = Some (7, ''CANCEL'') \<and> rq_dest c = ''10.0.0.9:5070''"
proof -
  have q: "rq_cseq demo_invite = Some (7, ''INVITE'')" "rq_call_id demo_invite = Some ''call1''"
    "rq_dest demo_invite = ''10.0.0.9:5070''" by (simp_all add: demo_invite_def)
  have "to_lower ''Via'' = ''via''" "to_lower ''From'' = ''from''" by code_simp+
  then have "\<exists>c. cancel_request sipgo_model demo_invite = Some c"
    by (simp add: cancel_request_def demo_invite_def get_header_def named_def Let_def)
  then obtain c where "cancel_request sipgo_model demo_invite = Some c" by blast
  with cancel_matches_invite [OF sipgo_ok_model this q(1)] q show ?thesis by auto
qed

lemma cseq_offset_witness:
  "digestCSeqOffset demo_invite \<lparr>rs_status = 200, rs_reason = ''OK'', rs_headers = [HCSeq 9 ''INVITE''], rs_body = [], rs_dest = []\<rparr> = 2
   \<and> (\<exists>s. rq_cseq (shiftCSeq 2 (demo_invite\<lparr>rq_headers := [HCSeq 8 ''BYE'']\<rparr>)) = Some (s, ''BYE'') \<and> unat s = 10)"
proof -
  let ?resp = "\<lparr>rs_status = 200, rs_reason = ''OK'', rs_headers = [HCSeq 9 ''INVITE''], rs_body = [], rs_dest = []\<rparr>"
  have k: "digestCSeqOffset demo_invite ?resp = 2" by (simp add: digestCSeqOffset_def demo_invite_def)
  have "rq_cseq demo_invite = Some (7, ''INVITE'')" by (simp add: demo_invite_def)
  from cseq_offset_matches_trunk [OF this, of ?resp 9 "''INVITE''" "demo_invite\<lparr>rq_headers := [HCSeq 8 ''BYE'']\<rparr>" 8 "''BYE''"]
  show ?thesis by (simp add: k Let_def)
qed

end
