(* ===== verification/Proxy_State.thy ===== *)
theory Proxy_State
  imports Registrar Dispatcher Internal_Api Digest_Auth Forwarding
begin

text \<open>
  The proxy's shared state (\<^verbatim>\<open>type Proxy\<close> of \<^verbatim>\<open>sbc/proxy.go\<close>) and the atomic
  operations its handlers perform on it, each under its own lock in the code, together with
  the messages they send: \<open>effect\<close> lists them and \<open>do_effect\<close> is what each does to the
  state. A handler reads the state when it starts and after each wait, and produces its
  effects in order; \<open>run_acts\<close> performs them.

  The FreeSWITCH stickiness (\<open>affinity\<close>) is a map of maps; its contract is the locale
  \<open>call_pins\<close>.
\<close>

section \<open>State\<close>

record callState =
  cs_fsAddr :: string
  cs_fsURI :: string
  cs_userAddr :: string
  cs_userURI :: string
  cs_userAORs :: "string list"
  cs_isWebRTC :: bool
  cs_spoofedUser :: string
  cs_fsCSeqOffset :: "32 word"

datatype side = PublicSide | PrivateSide

text \<open>The entry's client transaction is never read, so it is left out.\<close>

record activeTxEntry =
  ae_req :: request
  ae_client :: side

type_synonym affinity = "(string, (string, string) gomap) gomap"

record proxy =
  px_cfg :: config
  px_reg :: registrar
  px_api :: internalAPI
  px_disp :: dispatcher
  px_calls :: "(string, callState) gomap"
  px_activeTx :: "(string, activeTxEntry) gomap"
  px_spoofCache :: "(string, string) gomap"
  px_affinity :: affinity
  px_ban :: "ipban option"
  px_rejected :: rejectedCalls

definition newProxy :: "config \<Rightarrow> proxy" where
  "newProxy cfg = \<lparr>px_cfg = cfg, px_reg = [], px_api = newInternalAPI cfg, px_disp = newDispatcher,
     px_calls = [], px_activeTx = [], px_spoofCache = [], px_affinity = [],
     px_ban = newIPBan (BanFailures cfg) (BanWindow cfg) (BanTime cfg), px_rejected = newRejectedCalls\<rparr>"

section \<open>Stickiness\<close>

definition pin_call :: "string \<Rightarrow> string \<Rightarrow> string \<Rightarrow> affinity \<Rightarrow> affinity" where
  "pin_call callID fsAddr user aff = gm_set user (gm_set callID fsAddr (gm_list aff user)) aff"

definition saveAffinity :: "string \<Rightarrow> string \<Rightarrow> string list \<Rightarrow> affinity \<Rightarrow> affinity" where
  "saveAffinity callID fsAddr users aff =
     (if length users = 0 \<or> fsAddr = [] then aff else fold (pin_call callID fsAddr) users aff)"

definition unpin_call :: "string \<Rightarrow> string \<Rightarrow> affinity \<Rightarrow> affinity" where
  "unpin_call callID user aff =
     (case gm_get aff user of
        None \<Rightarrow> aff
      | Some callMap \<Rightarrow>
          let m = gm_del callID callMap
          in if length m = 0 then gm_del user aff else gm_set user m aff)"

definition deleteAffinity :: "string \<Rightarrow> string list \<Rightarrow> affinity \<Rightarrow> affinity" where
  "deleteAffinity callID users aff = (if length users = 0 then aff else fold (unpin_call callID) users aff)"

text \<open>The first value met when ranging over the calls of the first user that has one.\<close>

fun pinned_target :: "affinity \<Rightarrow> string list \<Rightarrow> string option" where
  "pinned_target aff [] = None"
| "pinned_target aff (user # users) =
     (case gm_list aff user of
        [] \<Rightarrow> pinned_target aff users
      | (callID, target) # _ \<Rightarrow> Some target)"

text \<open>The target and whether the dispatcher was asked (which advances its counter).\<close>

definition selectTargetForUsers :: "string list \<Rightarrow> proxy \<Rightarrow> string option \<times> bool" where
  "selectTargetForUsers users p =
     (case pinned_target (px_affinity p) users of
        Some target \<Rightarrow> (Some (''sip:'' @ target), False)
      | None \<Rightarrow> (fst (SelectTarget (px_disp p)), True))"

section \<open>Exemption from bans\<close>

definition neverBan :: "instant \<Rightarrow> proxy \<Rightarrow> string \<Rightarrow> bool" where
  "neverBan now p addr =
     (case parse_ip addr of
        None \<Rightarrow> True
      | Some parsed \<Rightarrow>
          if is_private parsed \<or> is_loopback parsed \<or> is_link_local_unicast parsed \<or> is_unspecified parsed then True
          else IsFromFS (px_disp p) addr \<or> IsTrunkIP (px_api p) addr \<or> HasSourceIP now (px_reg p) addr)"

section \<open>Effects\<close>

datatype effect =
    EReg reg_op
  | EApi api_call
  | EFail instant string
  | EReject instant request
  | ESelect
  | ESaveAffinity string string "string list"
  | EDeleteAffinity string "string list"
  | EStoreCall string callState
  | EDeleteCall string
  | EStoreActive string activeTxEntry
  | EDeleteActive string
  | EStoreSpoof string string
  | EDeleteSpoof string
  | ETransaction side request      \<comment> \<open>a client transaction is started\<close>
  | EWrite side request            \<comment> \<open>a request is written outside a transaction\<close>
  | ETerminate request             \<comment> \<open>the client transaction of the request is terminated\<close>
  | EDigestAuth request response string string
  | EPresence string string string \<comment> \<open>in its own goroutine\<close>
  | ELapsed string                 \<comment> \<open>registrationLapsed, in its own goroutine\<close>

fun do_effect :: "effect \<Rightarrow> proxy \<Rightarrow> proxy" where
  "do_effect (EReg op) p = p\<lparr>px_reg := reg_step op (px_reg p)\<rparr>"
| "do_effect (EApi call) p = p\<lparr>px_api := api_step call (px_api p)\<rparr>"
| "do_effect (EFail now addr) p = p\<lparr>px_ban := Fail now (neverBan now p) addr (px_ban p)\<rparr>"
| "do_effect (EReject now req) p = p\<lparr>px_rejected := rejected_add now req (px_rejected p)\<rparr>"
| "do_effect ESelect p = p\<lparr>px_disp := snd (SelectTarget (px_disp p))\<rparr>"
| "do_effect (ESaveAffinity callID fsAddr users) p =
     p\<lparr>px_affinity := saveAffinity callID fsAddr users (px_affinity p)\<rparr>"
| "do_effect (EDeleteAffinity callID users) p =
     p\<lparr>px_affinity := deleteAffinity callID users (px_affinity p)\<rparr>"
| "do_effect (EStoreCall callID cs) p = p\<lparr>px_calls := gm_set callID cs (px_calls p)\<rparr>"
| "do_effect (EDeleteCall callID) p = p\<lparr>px_calls := gm_del callID (px_calls p)\<rparr>"
| "do_effect (EStoreActive callID e) p = p\<lparr>px_activeTx := gm_set callID e (px_activeTx p)\<rparr>"
| "do_effect (EDeleteActive callID) p = p\<lparr>px_activeTx := gm_del callID (px_activeTx p)\<rparr>"
| "do_effect (EStoreSpoof key v) p = p\<lparr>px_spoofCache := gm_set key v (px_spoofCache p)\<rparr>"
| "do_effect (EDeleteSpoof key) p = p\<lparr>px_spoofCache := gm_del key (px_spoofCache p)\<rparr>"
| "do_effect (ETransaction sd req) p = p"
| "do_effect (EWrite sd req) p = p"
| "do_effect (ETerminate req) p = p"
| "do_effect (EDigestAuth req resp user pass) p = p"
| "do_effect (EPresence subdomain action user) p = p"
| "do_effect (ELapsed aor) p = p"

type_synonym acts = "effect act list"

fun do_act :: "effect act \<Rightarrow> proxy \<Rightarrow> proxy" where
  "do_act (Act e) p = do_effect e p"
| "do_act (Reply r) p = p"
| "do_act Panic p = p"

definition run_acts :: "acts \<Rightarrow> proxy \<Rightarrow> proxy" where
  "run_acts as p = fold do_act as p"

lemma run_acts_simps [simp]:
  "run_acts [] p = p"
  "run_acts (a # as) p = run_acts as (do_act a p)"
  "run_acts (as @ bs) p = run_acts bs (run_acts as p)"
  by (simp_all add: run_acts_def)

text \<open>\<^verbatim>\<open>cleanupCall\<close>.\<close>

definition cleanupCall :: "string \<Rightarrow> callState \<Rightarrow> acts" where
  "cleanupCall callID state =
     [Act (EDeleteCall callID), Act (EDeleteAffinity callID (cs_userAORs state))]
     @ (if cs_spoofedUser state \<noteq> []
        then [Act (EDeleteSpoof (spoofCacheKey callID (cs_spoofedUser state)))] else [])"

section \<open>The contract of the stickiness\<close>

text \<open>The address a user's call is pinned to.\<close>

definition pin_of :: "affinity \<Rightarrow> string \<Rightarrow> string \<Rightarrow> string option" where
  "pin_of aff user callID = gm_get (gm_list aff user) callID"

definition aff_ok :: "affinity \<Rightarrow> bool" where
  "aff_ok aff \<longleftrightarrow> gm_ok aff \<and> (\<forall>user m. gm_get aff user = Some m \<longrightarrow> gm_ok m \<and> m \<noteq> [])"

locale call_pins =
  fixes pin :: "'s \<Rightarrow> 'u \<Rightarrow> 'c \<Rightarrow> 'a option"
    and save :: "'c \<Rightarrow> 'a \<Rightarrow> 'u list \<Rightarrow> 's \<Rightarrow> 's"
    and drop_pins :: "'c \<Rightarrow> 'u list \<Rightarrow> 's \<Rightarrow> 's"
    and valid :: "'a \<Rightarrow> bool"
    and ok :: "'s \<Rightarrow> bool"
  assumes pin_save: "ok s \<Longrightarrow> pin (save c a us s) u c' =
        (if valid a \<and> u \<in> set us \<and> c' = c then Some a else pin s u c')"
    and pin_drop: "ok s \<Longrightarrow> pin (drop_pins c us s) u c' =
        (if u \<in> set us \<and> c' = c then None else pin s u c')"
    and ok_save: "ok s \<Longrightarrow> ok (save c a us s)"
    and ok_drop: "ok s \<Longrightarrow> ok (drop_pins c us s)"
begin

text \<open>A call that is saved and dropped for the same users leaves nothing behind.\<close>

lemma save_then_drop:
  "ok s \<Longrightarrow> pin s u c = None \<or> u \<notin> set us \<Longrightarrow> pin (drop_pins c us (save c a us s)) u c' = pin s u c'"
  by (auto simp: pin_save pin_drop ok_save)

lemma other_calls_keep: "ok s \<Longrightarrow> c' \<noteq> c \<Longrightarrow> pin (drop_pins c us s) u c' = pin s u c'"
  by (simp add: pin_drop)

end

lemma gm_list_eq: "gm_list m k = (case gm_get m k of None \<Rightarrow> [] | Some xs \<Rightarrow> xs)"
  by (simp add: gm_list_def)

lemma gm_get_empty_iff: "m = [] \<longleftrightarrow> (\<forall>k. gm_get m k = None)"
  by (cases m) (auto simp: fun_eq_iff split: if_splits)

lemma aff_ok_inner: "aff_ok aff \<Longrightarrow> gm_ok (gm_list aff user)"
  by (auto simp: aff_ok_def gm_list_def split: option.split)

lemma gm_set_not_Nil [simp]: "gm_set k v m \<noteq> []"
proof
  assume "gm_set k v m = []"
  moreover have "gm_get (gm_set k v m) k = Some v" by simp
  ultimately show False by (simp del: gm_get_set)
qed

lemma pin_call_ok: "aff_ok aff \<Longrightarrow> aff_ok (pin_call c a u aff)"
  using aff_ok_inner [of aff u] by (auto simp: pin_call_def aff_ok_def split: if_splits)

lemma pin_call_pin: "pin_of (pin_call c a u aff) u' c' = (if u' = u \<and> c' = c then Some a else pin_of aff u' c')"
  by (simp add: pin_of_def pin_call_def)

lemma unpin_call_ok: "aff_ok aff \<Longrightarrow> aff_ok (unpin_call c u aff)"
  by (auto simp: unpin_call_def aff_ok_def Let_def split: option.split if_splits)

lemma unpin_call_pin: "pin_of (unpin_call c u aff) u' c' = (if u' = u \<and> c' = c then None else pin_of aff u' c')"
proof (cases "gm_get aff u")
  case None
  then show ?thesis by (auto simp: pin_of_def unpin_call_def gm_list_def)
next
  case (Some m)
  show ?thesis
  proof (cases "gm_del c m = []")
    case True
    then have "gm_get (gm_del c m) k = None" for k by simp
    then have "k \<noteq> c \<Longrightarrow> gm_get m k = None" for k by (metis gm_get_del)
    with Some True show ?thesis by (auto simp: pin_of_def unpin_call_def gm_list_def Let_def)
  next
    case False
    with Some show ?thesis by (auto simp: pin_of_def unpin_call_def gm_list_def Let_def)
  qed
qed

lemma fold_pin: "aff_ok aff \<Longrightarrow> aff_ok (fold (pin_call c a) us aff)
    \<and> pin_of (fold (pin_call c a) us aff) u c' = (if u \<in> set us \<and> c' = c then Some a else pin_of aff u c')"
  by (induction us arbitrary: aff) (auto simp: pin_call_ok pin_call_pin)

lemma fold_unpin: "aff_ok aff \<Longrightarrow> aff_ok (fold (unpin_call c) us aff)
    \<and> pin_of (fold (unpin_call c) us aff) u c' = (if u \<in> set us \<and> c' = c then None else pin_of aff u c')"
  by (induction us arbitrary: aff) (auto simp: unpin_call_ok unpin_call_pin)

interpretation pins: call_pins pin_of saveAffinity deleteAffinity "\<lambda>fsAddr. fsAddr \<noteq> []" aff_ok
  by unfold_locales (auto simp: saveAffinity_def deleteAffinity_def fold_pin fold_unpin)

lemma aff_ok_Nil [simp]: "aff_ok []"
  by (simp add: aff_ok_def)

lemma pin_of_Nil [simp]: "pin_of [] u c = None"
  by (simp add: pin_of_def)

section \<open>Users stay with their FreeSWITCH\<close>

datatype pin_op = PinSave string string "string list" | PinDrop string "string list"

fun pin_step :: "pin_op \<Rightarrow> affinity \<Rightarrow> affinity" where
  "pin_step (PinSave callID fsAddr users) aff = saveAffinity callID fsAddr users aff"
| "pin_step (PinDrop callID users) aff = deleteAffinity callID users aff"

text \<open>What the history says about one call of one user: the last operation that names both.\<close>

fun pin_spec :: "pin_op list \<Rightarrow> string \<Rightarrow> string \<Rightarrow> string option \<Rightarrow> string option" where
  "pin_spec [] u c now = now"
| "pin_spec (PinSave c' a us # ops) u c now = pin_spec ops u c (if a \<noteq> [] \<and> u \<in> set us \<and> c = c' then Some a else now)"
| "pin_spec (PinDrop c' us # ops) u c now = pin_spec ops u c (if u \<in> set us \<and> c = c' then None else now)"

lemma pin_run:
  "aff_ok aff \<Longrightarrow> aff_ok (fold pin_step ops aff)
     \<and> pin_of (fold pin_step ops aff) u c = pin_spec ops u c (pin_of aff u c)"
proof (induction ops arbitrary: aff)
  case (Cons op ops)
  then show ?case by (cases op) (auto simp: pins.ok_save pins.ok_drop pins.pin_save pins.pin_drop)
qed simp

lemma aff_entry: "aff_ok aff \<Longrightarrow> gm_get aff u = None \<longleftrightarrow> (\<forall>c. pin_of aff u c = None)"
proof (cases "gm_get aff u")
  case (Some m)
  assume "aff_ok aff"
  with Some have "m \<noteq> []" by (simp add: aff_ok_def)
  with Some show ?thesis by (simp add: pin_of_def gm_list_def gm_get_empty_iff)
qed (simp add: pin_of_def gm_list_def)

lemma pinned_target_None: "pinned_target aff us = None \<longleftrightarrow> (\<forall>u \<in> set us. \<forall>c. pin_of aff u c = None)"
  by (induction aff us rule: pinned_target.induct)
    (auto simp: pin_of_def gm_get_empty_iff [symmetric] split: list.split)

lemma pinned_target_Some:
  "pinned_target aff us = Some t \<Longrightarrow> \<exists>pre u post c. us = pre @ u # post
     \<and> (\<forall>v \<in> set pre. \<forall>c. pin_of aff v c = None) \<and> pin_of aff u c = Some t"
proof (induction aff us rule: pinned_target.induct)
  case (2 aff user users)
  show ?case
  proof (cases "gm_list aff user")
    case Nil
    with 2 obtain pre u post c where "users = pre @ u # post" "\<forall>v \<in> set pre. \<forall>c. pin_of aff v c = None"
      "pin_of aff u c = Some t" by auto
    with Nil show ?thesis by (intro exI [of _ "user # pre"]) (auto simp: pin_of_def)
  next
    case (Cons e m)
    with "2.prems" have "pin_of aff user (fst e) = Some t" by (cases e) (simp add: pin_of_def)
    then show ?thesis by (intro exI [of _ "[]"] exI [of _ user] exI [of _ users] exI [of _ "fst e"]) simp
  qed
qed simp

text \<open>
  Property (C22). The stickiness follows the calls exactly: whatever calls were pinned and released before,
  a user's call is pinned where the last operation on it put it; users without a pinned call
  have no entry left; and a new call of some users goes to the FreeSWITCH of a pinned call of
  the first of them that has one, else wherever the dispatcher sends it.
\<close>

theorem stickiness_follows_calls:
  fixes ops :: "pin_op list" and p :: proxy
  assumes "px_affinity p = fold pin_step ops []"
  shows "pin_of (px_affinity p) u c = pin_spec ops u c None
    \<and> (gm_get (px_affinity p) u = None \<longleftrightarrow> (\<forall>c. pin_spec ops u c None = None))
    \<and> (case pinned_target (px_affinity p) users of
         None \<Rightarrow> (\<forall>v \<in> set users. \<forall>c. pin_spec ops v c None = None)
                  \<and> selectTargetForUsers users p = (fst (SelectTarget (px_disp p)), True)
       | Some t \<Rightarrow> (\<exists>pre v post c. users = pre @ v # post \<and> (\<forall>w \<in> set pre. \<forall>c. pin_spec ops w c None = None)
                       \<and> pin_spec ops v c None = Some t)
                  \<and> selectTargetForUsers users p = (Some (''sip:'' @ t), False))"
proof -
  have run: "pin_of (px_affinity p) v c = pin_spec ops v c None" for v c
    using pin_run [of "[]" ops v c] by (simp add: assms)
  have ok: "aff_ok (px_affinity p)" using pin_run [of "[]" ops] by (simp add: assms)
  show ?thesis
    using aff_entry [OF ok, of u] pinned_target_None [of "px_affinity p" users]
      pinned_target_Some [of "px_affinity p" users]
    by (auto simp: run selectTargetForUsers_def split: option.splits)
qed

section \<open>Who is never banned\<close>

text \<open>Addresses that are exempt whatever the state.\<close>

definition never_counted :: "string \<Rightarrow> bool" where
  "never_counted addr \<longleftrightarrow> (case parse_ip addr of
     None \<Rightarrow> True
   | Some a \<Rightarrow> is_private a \<or> is_loopback a \<or> is_link_local_unicast a \<or> is_unspecified a)"

definition ban_sources_public :: "proxy \<Rightarrow> bool" where
  "ban_sources_public p \<longleftrightarrow> (case px_ban p of
     None \<Rightarrow> True
   | Some b \<Rightarrow> \<forall>addr. gm_get (ib_sources b) addr \<noteq> None \<longrightarrow> \<not> never_counted addr)"

lemma never_counted_neverBan: "never_counted addr \<Longrightarrow> neverBan now p addr"
  by (auto simp: never_counted_def neverBan_def split: option.splits)

lemma sweep_sources: "gm_get (ib_sources (sweep now b)) addr \<noteq> None \<Longrightarrow> gm_get (ib_sources b) addr \<noteq> None"
  by (auto simp: sweep_def gm_filter_def map_of_eq_None_iff split: if_splits)

lemma ban_sources_public_Fail:
  assumes "ban_sources_public p"
  shows "ban_sources_public (p\<lparr>px_ban := Fail now (neverBan now p) addr (px_ban p)\<rparr>)"
proof (cases "px_ban p")
  case None
  then show ?thesis by (simp add: ban_sources_public_def Fail_def)
next
  case (Some b)
  show ?thesis
  proof (cases "addr = [] \<or> neverBan now p addr")
    case True
    with assms Some show ?thesis by (simp add: ban_sources_public_def Fail_def)
  next
    case False
    then have "\<not> never_counted addr" using never_counted_neverBan by blast
    with False assms Some sweep_sources [of now b] show ?thesis
      by (auto simp: ban_sources_public_def Fail_def Let_def)
  qed
qed

lemma ban_sources_public_do: "ban_sources_public p \<Longrightarrow> ban_sources_public (do_effect e p)"
  using ban_sources_public_Fail by (cases e) (auto simp: ban_sources_public_def)

lemma ban_sources_public_run: "ban_sources_public p \<Longrightarrow> ban_sources_public (run_acts as p)"
proof (induction as arbitrary: p)
  case (Cons a as)
  then show ?case by (cases a) (simp_all add: ban_sources_public_do)
qed simp

text \<open>
  Whatever the proxy does, it never bans the own network or something that is not an IP
  address: a banned source is a public IP address, not private, loopback, link-local or
  unspecified; what is exempt when it fails (a FreeSWITCH, a trunk network, a registered
  phone) is not counted.
\<close>

theorem only_public_sources_are_banned:
  "(Banned now (px_ban (run_acts as (newProxy cfg))) addr \<longrightarrow>
      (\<exists>a. parse_ip addr = Some a \<and> \<not> is_private a \<and> \<not> is_loopback a
           \<and> \<not> is_link_local_unicast a \<and> \<not> is_unspecified a))
   \<and> (IsFromFS (px_disp p) addr \<or> IsTrunkIP (px_api p) addr \<or> HasSourceIP now (px_reg p) addr \<longrightarrow>
      px_ban (do_effect (EFail now addr) p) = px_ban p)"
proof (intro conjI impI)
  assume banned: "Banned now (px_ban (run_acts as (newProxy cfg))) addr"
  have "ban_sources_public (newProxy cfg)" by (auto simp: ban_sources_public_def newProxy_def newIPBan_def)
  then have "ban_sources_public (run_acts as (newProxy cfg))" by (rule ban_sources_public_run)
  with banned have "\<not> never_counted addr"
    by (auto simp: ban_sources_public_def Banned_def split: option.splits)
  then show "\<exists>a. parse_ip addr = Some a \<and> \<not> is_private a \<and> \<not> is_loopback a
           \<and> \<not> is_link_local_unicast a \<and> \<not> is_unspecified a"
    by (auto simp: never_counted_def split: option.splits)
next
  assume "IsFromFS (px_disp p) addr \<or> IsTrunkIP (px_api p) addr \<or> HasSourceIP now (px_reg p) addr"
  then have "neverBan now p addr" by (auto simp: neverBan_def split: option.split)
  then show "px_ban (do_effect (EFail now addr) p) = px_ban p"
    by (cases "px_ban p") (simp_all add: Fail_def)
qed

section \<open>Witnesses\<close>

definition demo_sticky :: proxy where
  "demo_sticky = (newProxy demo_config)\<lparr>px_affinity :=
     fold pin_step [PinSave ''c1'' ''10.0.0.9:5070'' [''6001@a.example.com'']] []\<rparr>"

lemma stickiness_witness:
  "selectTargetForUsers [''6002@a.example.com'', ''6001@a.example.com''] demo_sticky = (Some ''sip:10.0.0.9:5070'', False)
   \<and> pin_of (px_affinity demo_sticky) ''6001@a.example.com'' ''c1'' = Some ''10.0.0.9:5070''"
proof -
  have "px_affinity demo_sticky = fold pin_step [PinSave ''c1'' ''10.0.0.9:5070'' [''6001@a.example.com'']] []"
    by (simp add: demo_sticky_def)
  moreover from this have "pinned_target (px_affinity demo_sticky) [''6002@a.example.com'', ''6001@a.example.com'']
      = Some ''10.0.0.9:5070''" by code_simp
  ultimately show ?thesis
    using stickiness_follows_calls [of demo_sticky "[PinSave ''c1'' ''10.0.0.9:5070'' [''6001@a.example.com'']]"
        "''6001@a.example.com''" "''c1''" "[''6002@a.example.com'', ''6001@a.example.com'']"]
    by simp
qed

lemma only_public_witness:
  "(\<exists>a. parse_ip ''198.51.100.7'' = Some a \<and> \<not> is_private a)
   \<and> px_ban (do_effect (EFail 5 ''10.0.0.9'') ((newProxy demo_config)\<lparr>px_disp := AddTarget ''sip:10.0.0.9:5070'' newDispatcher\<rparr>))
     = px_ban (newProxy demo_config)"
proof -
  let ?cfg = "demo_config\<lparr>BanFailures := 1\<rparr>"
  have "Banned 6 (px_ban (run_acts [Act (EFail 5 ''198.51.100.7'')] (newProxy ?cfg))) ''198.51.100.7''"
    by code_simp
  then have "\<exists>a. parse_ip ''198.51.100.7'' = Some a \<and> \<not> is_private a"
    using only_public_sources_are_banned [of 6 "[Act (EFail 5 ''198.51.100.7'')]" ?cfg "''198.51.100.7''" "newProxy ?cfg"]
    by blast
  moreover have "IsFromFS (px_disp ((newProxy demo_config)\<lparr>px_disp := AddTarget ''sip:10.0.0.9:5070'' newDispatcher\<rparr>)) ''10.0.0.9''"
    by code_simp
  ultimately show ?thesis
    using only_public_sources_are_banned [of 5 "[]" demo_config "''10.0.0.9''"
        "(newProxy demo_config)\<lparr>px_disp := AddTarget ''sip:10.0.0.9:5070'' newDispatcher\<rparr>"] by simp
qed

end
