(* ===== verification/Proxy_Register.thy ===== *)
theory Proxy_Register
  imports Proxy_State
begin

text \<open>
  Registration and authentication in the proxy (\<^verbatim>\<open>sbc/proxy.go\<close>: REGISTER,
  \<^verbatim>\<open>registrationLapsed\<close>, \<^verbatim>\<open>authenticateExternalRequest\<close>,
  \<^verbatim>\<open>failedAuth\<close>, \<^verbatim>\<open>authorizeExternalInDialog\<close>), and the keepalive's
  ping (\<^verbatim>\<open>sbc/nat_keepalive.go\<close>).

  A handler takes the state it reads and a context: the SIP library, the network of the
  internal API, the instants at which the clock is read (\<open>cx_now\<close> before the server is
  asked, \<open>cx_later\<close> after), the random bytes of a nonce, and name resolution.
\<close>

record ctx =
  cx_sip :: sipgo
  cx_http :: http_env
  cx_now :: instant
  cx_later :: instant
  cx_random :: "nat list"
  cx_lookup_host :: "string \<Rightarrow> string list option"

definition respond :: "ctx \<Rightarrow> request \<Rightarrow> int \<Rightarrow> string \<Rightarrow> effect act" where
  "respond c req status reason = Reply (sg_new_response (cx_sip c) req status reason [])"

definition send_challenge :: "ctx \<Rightarrow> request \<Rightarrow> string \<Rightarrow> effect act" where
  "send_challenge c req realm = Reply (sendAuthChallenge (cx_sip c) (cx_random c) req realm)"

text \<open>The first label of a domain.\<close>

definition subdomain_of :: "string \<Rightarrow> string" where
  "subdomain_of domain = hd (split_on CHR ''.'' domain)"

section \<open>Failures\<close>

definition failed :: "instant \<Rightarrow> request \<Rightarrow> acts" where
  "failed t req = [Act (EFail t (sourceIPFromRequest req))]"

definition failedAuth :: "instant \<Rightarrow> request \<Rightarrow> api_error option \<Rightarrow> acts" where
  "failedAuth t req lookupErr =
     (if get_header (rq_headers req) ''Authorization'' = None then []
      else if lookupErr \<noteq> None \<and> lookupErr \<noteq> Some NotFound then []
      else failed t req)"

section \<open>REGISTER\<close>

text \<open>A REGISTER whose lifetime is 0: all contacts with the Contact \<^verbatim>\<open>*\<close>, else the one
  of the source address.\<close>

definition register_remove :: "ctx \<Rightarrow> proxy \<Rightarrow> request \<Rightarrow> string \<Rightarrow> string \<Rightarrow> acts" where
  "register_remove c p req user domain =
     (let aor = user @ ''@'' @ domain;
          presence = Act (EPresence (subdomain_of domain) ''unregistered'' user);
          everything = (case get_header (rq_headers req) ''Contact'' of
                          Some h \<Rightarrow> hdr_value h = ''*'' | None \<Rightarrow> False)
      in if everything
         then [Act (EReg (OpUnregister aor)), presence, respond c req 200 ''OK'']
         else [Act (EReg (OpUnregisterContact aor (rq_source req)))]
              @ (if \<not> IsRegistered (cx_later c) (UnregisterContact aor (rq_source req) (px_reg p)) aor
                 then [presence] else [])
              @ [respond c req 200 ''OK''])"

text \<open>The contact a REGISTER with a lifetime stores, and the lifetime granted.\<close>

definition register_isWebRTC :: "string \<Rightarrow> bool" where
  "register_isWebRTC transport \<longleftrightarrow> transport \<in> {''ws'', ''wss'', ''WS'', ''WSS''}"

definition register_contact ::
  "ctx \<Rightarrow> config \<Rightarrow> request \<Rightarrow> string \<Rightarrow> int \<Rightarrow> contact \<times> int" where
  "register_contact c cfg req aor expires0 =
     (let contactURI = (case get_header (rq_headers req) ''Contact'' of
                          Some h \<Rightarrow> extractContactURI (hdr_value h) (''sip:'' @ aor)
                        | None \<Rightarrow> ''sip:'' @ aor);
          nat = (isUDP (rq_transport req) \<and> behindNAT (cx_sip c) contactURI (rq_source req));
          expires = (if nat \<and> NATMaxExpires cfg > 0 \<and> expires0 > NATMaxExpires cfg
                     then NATMaxExpires cfg else expires0)
      in (\<lparr>ct_URI = contactURI, ct_Address = rq_source req, ct_Transport = rq_transport req,
           ct_IsWebRTC = register_isWebRTC (rq_transport req),
           ct_ExpiresAt = cx_later c + seconds expires, ct_NAT = nat, ct_missedPings = 0\<rparr>, expires))"

definition register_answer :: "ctx \<Rightarrow> request \<Rightarrow> contact \<Rightarrow> int \<Rightarrow> response" where
  "register_answer c req ct expires =
     (let S = cx_sip c;
          resp = sg_new_response S req 200 ''OK'' [];
          contactText = (case get_header (rq_headers req) ''Contact'' of
                           Some h \<Rightarrow> hdr_value h
                         | None \<Rightarrow> ''<'' @ ct_URI ct @ ''>'')
      in resp\<lparr>rs_headers := sg_append S (HText ''Expires'' (itoa expires))
                (sg_append S (HText ''Contact'' (contactWithExpires contactText expires)) (rs_headers resp))\<rparr>)"

definition register_store :: "ctx \<Rightarrow> proxy \<Rightarrow> request \<Rightarrow> string \<Rightarrow> string \<Rightarrow> int \<Rightarrow> acts" where
  "register_store c p req user domain expires0 =
     (let aor = user @ ''@'' @ domain in
      case register_contact c (px_cfg p) req aor expires0 of (ct, expires) \<Rightarrow>
        [Act (EReg (OpRegister aor ct)),
         Act (EPresence (subdomain_of domain) ''registered'' user),
         Reply (register_answer c req ct expires)])"

definition handleRegister :: "ctx \<Rightarrow> proxy \<Rightarrow> request \<Rightarrow> acts" where
  "handleRegister c p req =
     (case rq_from req of
        None \<Rightarrow> [respond c req 400 ''Bad Request'']
      | Some from \<Rightarrow>
          let user = uri_user from; domain = uri_host from in
          if \<not> has_suffix domain (SIPUserRootDomain (px_cfg p)) then
            failed (cx_now c) req @ [respond c req 403 ''Forbidden'']
          else
            Act (EApi (AskPassword (cx_http c) (cx_now c) (cx_later c) user domain)) #
            (case fst (GetUserPassword (cx_http c) (cx_now c) (cx_later c) user domain (px_api p)) of
               Inl err \<Rightarrow> failedAuth (cx_later c) req (Some err) @ [send_challenge c req domain]
             | Inr password \<Rightarrow>
                 if password = [] then failedAuth (cx_later c) req None @ [send_challenge c req domain]
                 else if \<not> validateDigestAuth req password then
                   failedAuth (cx_later c) req None @ [send_challenge c req domain]
                 else
                   let expires = registerExpires (headerValue req ''Contact'') (headerValue req ''Expires'')
                   in if expires = 0 then register_remove c p req user domain
                      else register_store c p req user domain expires))"

text \<open>\<^verbatim>\<open>registrationLapsed\<close>, run in its own goroutine.\<close>

definition registrationLapsed :: "instant \<Rightarrow> proxy \<Rightarrow> string \<Rightarrow> acts" where
  "registrationLapsed now p aor =
     (if IsRegistered now (px_reg p) aor then []
      else case cut_on CHR ''@'' aor of (user, domain, found) \<Rightarrow>
        [Act (EPresence (subdomain_of domain) ''expired'' user)])"

section \<open>The keepalive\<close>

text \<open>The OPTIONS of a ping, and what its outcome (\<open>answered\<close>) does.\<close>

definition ping_request :: "sipgo \<Rightarrow> natContact \<Rightarrow> request" where
  "ping_request S nc =
     (let req = sg_new_request S ''OPTIONS'' (nc_uri nc)
      in req\<lparr>rq_dest := nc_address nc,
             rq_headers := sg_append S (HText ''Content-Length'' ''0'') (rq_headers req)\<rparr>)"

definition pingContact :: "proxy \<Rightarrow> natContact \<Rightarrow> int \<Rightarrow> bool \<Rightarrow> acts" where
  "pingContact p nc maxMissed answered =
     (if answered then [Act (EReg (OpPingAnswered (nc_aor nc) (nc_address nc)))]
      else [Act (EReg (OpPingMissed (nc_aor nc) (nc_address nc) maxMissed))]
           @ (if fst (pingMissed (nc_aor nc) (nc_address nc) maxMissed (px_reg p))
              then [Act (ELapsed (nc_aor nc))] else []))"

text \<open>One tick of the two background loops: the pings started, and the reap with its
  announcements.\<close>

definition natKeepalive_tick :: "ctx \<Rightarrow> proxy \<Rightarrow> natContact list" where
  "natKeepalive_tick c p = natContacts (cx_sip c) (cx_now c) (px_reg p)"

definition reapExpired_tick :: "instant \<Rightarrow> proxy \<Rightarrow> acts" where
  "reapExpired_tick now p =
     Act (EReg (OpReap now)) # map (\<lambda>aor. Act (ELapsed aor)) (fst (reap now (px_reg p)))"

section \<open>Requests from outside\<close>

text \<open>Whether the request may pass, and what was done to find out.\<close>

definition authenticate_user :: "ctx \<Rightarrow> proxy \<Rightarrow> request \<Rightarrow> uri \<Rightarrow> bool \<times> acts" where
  "authenticate_user c p req from =
     (let user = uri_user from; domain = uri_host from;
          asked = Act (EApi (AskPassword (cx_http c) (cx_now c) (cx_later c) user domain));
          refuse = (\<lambda>err. asked # failedAuth (cx_later c) req err
                       @ [Act (EReject (cx_later c) req), send_challenge c req domain])
      in case fst (GetUserPassword (cx_http c) (cx_now c) (cx_later c) user domain (px_api p)) of
           Inl err \<Rightarrow> (False, refuse (Some err))
         | Inr password \<Rightarrow>
             if password = [] then (False, refuse None)
             else if \<not> validateDigestAuth req password then (False, refuse None)
             else (True, [asked]))"

definition authenticate_trunk :: "ctx \<Rightarrow> proxy \<Rightarrow> request \<Rightarrow> string \<Rightarrow> bool \<times> acts" where
  "authenticate_trunk c p req sourceIP =
     (case (rq_to req, rq_call_id req) of
        (Some to, Some callID) \<Rightarrow>
          let number = (case gm_get (px_spoofCache p) (spoofCacheKey callID (uri_user to)) of
                          Some cached \<Rightarrow> cached | None \<Rightarrow> uri_user to);
              asked = Act (EApi (AskTrunk (cx_http c) (cx_now c) (cx_later c) number));
              refuse = [Act (EReject (cx_later c) req), respond c req 403 ''Forbidden'']
          in (case fst (GetSIPTrunk (cx_http c) (cx_now c) (cx_later c) number (px_api p)) of
                Inl NotFound \<Rightarrow> (False, asked # failed (cx_later c) req @ refuse)
              | Inl ApiFailure \<Rightarrow> (False, asked # refuse)
              | Inr trunk \<Rightarrow>
                  if \<not> isIPAllowed sourceIP (td_InboundIPs trunk)
                  then (False, asked # failed (cx_later c) req @ refuse)
                  else (True, [asked]))
      | _ \<Rightarrow> (False, [Panic]))"

definition authenticateExternalRequest :: "ctx \<Rightarrow> proxy \<Rightarrow> request \<Rightarrow> string \<Rightarrow> bool \<times> acts" where
  "authenticateExternalRequest c p req sourceIP =
     (case rq_from req of
        None \<Rightarrow> (False, [Panic])
      | Some from \<Rightarrow>
          if has_suffix (uri_host from) (SIPUserRootDomain (px_cfg p)) then authenticate_user c p req from
          else authenticate_trunk c p req sourceIP)"

definition authorizeExternalInDialog :: "ctx \<Rightarrow> proxy \<Rightarrow> request \<Rightarrow> callState \<Rightarrow> string \<Rightarrow> bool \<times> acts" where
  "authorizeExternalInDialog c p req state sourceIP =
     (case rq_from req of
        None \<Rightarrow> (False, [Panic])
      | Some from \<Rightarrow>
          if has_suffix (uri_host from) (SIPUserRootDomain (px_cfg p))
             \<and> cs_userAddr state \<noteq> [] \<and> rq_source req = cs_userAddr state
          then (True, [])
          else authenticateExternalRequest c p req sourceIP)"

definition comcentUsersForRequest :: "uri \<Rightarrow> uri \<Rightarrow> string \<Rightarrow> string list" where
  "comcentUsersForRequest from to root =
     fold (\<lambda>u users.
       if uri_user u = [] \<or> \<not> has_suffix (uri_host u) root then users
       else let aor = uri_user u @ ''@'' @ uri_host u
            in if \<not> containsString users aor then users @ [aor] else users) [from, to] []"

section \<open>Who may register\<close>

lemma no_reg_in_refusal [simp]:
  "Act (EReg op) \<notin> set (failed t req)" "Act (EReg op) \<notin> set (failedAuth t req err)"
  "Act (EReg op) \<noteq> respond c req n s" "Act (EReg op) \<noteq> send_challenge c req d"
  by (auto simp: failed_def failedAuth_def respond_def send_challenge_def)

text \<open>The address of record an operation is about.\<close>

fun op_aor :: "reg_op \<Rightarrow> string option" where
  "op_aor (OpRegister aor ct) = Some aor"
| "op_aor (OpUnregister aor) = Some aor"
| "op_aor (OpUnregisterContact aor a) = Some aor"
| "op_aor (OpPingAnswered aor a) = Some aor"
| "op_aor (OpPingMissed aor a m) = Some aor"
| "op_aor (OpReap now) = None"

lemma register_remove_aor: "Act (EReg op) \<in> set (register_remove c p req user domain) \<Longrightarrow> op_aor op = Some (user @ ''@'' @ domain)"
  by (auto simp: register_remove_def Let_def respond_def split: if_splits)

lemma register_store_aor: "Act (EReg op) \<in> set (register_store c p req user domain e) \<Longrightarrow> op_aor op = Some (user @ ''@'' @ domain)"
  by (auto simp: register_store_def Let_def split: prod.splits)

lemma register_guard:
  assumes "Act (EReg op) \<in> set (handleRegister c p req)"
  shows "\<exists>fu password. rq_from req = Some fu
     \<and> has_suffix (uri_host fu) (SIPUserRootDomain (px_cfg p))
     \<and> fst (GetUserPassword (cx_http c) (cx_now c) (cx_later c) (uri_user fu) (uri_host fu) (px_api p)) = Inr password
     \<and> password \<noteq> [] \<and> validateDigestAuth req password
     \<and> op_aor op = Some (uri_user fu @ ''@'' @ uri_host fu)"
proof -
  from assms obtain fu where f: "rq_from req = Some fu"
    by (cases "rq_from req") (auto simp: handleRegister_def respond_def)
  let ?ask = "fst (GetUserPassword (cx_http c) (cx_now c) (cx_later c) (uri_user fu) (uri_host fu) (px_api p))"
  from assms have suf: "has_suffix (uri_host fu) (SIPUserRootDomain (px_cfg p))"
    by (auto simp: handleRegister_def f Let_def split: if_splits)
  from assms obtain password where pw: "?ask = Inr password"
    by (cases ?ask) (auto simp: handleRegister_def f Let_def suf)
  from assms pw have ok: "password \<noteq> []" "validateDigestAuth req password"
    by (auto simp: handleRegister_def f Let_def suf split: if_splits)
  from assms have "Act (EReg op) \<in> set (register_remove c p req (uri_user fu) (uri_host fu))
      \<or> (\<exists>e. Act (EReg op) \<in> set (register_store c p req (uri_user fu) (uri_host fu) e))"
    by (auto simp: handleRegister_def f Let_def suf pw ok split: if_splits)
  with f suf pw ok register_remove_aor register_store_aor show ?thesis by blast
qed

text \<open>
  Property (C6). A REGISTER changes the registrations of nobody but the user in its From, and only when that
  user's domain ends in the configured root domain, the server knows a password, and the
  digest in the request is right for it.
\<close>

theorem register_needs_the_password:
  assumes "Act (EReg op) \<in> set (handleRegister c p req)"
  shows "\<exists>fu password. rq_from req = Some fu
     \<and> has_suffix (uri_host fu) (SIPUserRootDomain (px_cfg p))
     \<and> fst (GetUserPassword (cx_http c) (cx_now c) (cx_later c) (uri_user fu) (uri_host fu) (px_api p)) = Inr password
     \<and> password \<noteq> [] \<and> validateDigestAuth req password
     \<and> op_aor op = Some (uri_user fu @ ''@'' @ uri_host fu)"
  using assms by (rule register_guard)

section \<open>What counts as a failure\<close>

text \<open>The sources failures are counted against, in order.\<close>

definition charged :: "acts \<Rightarrow> string list" where
  "charged as = concat (map (\<lambda>a. case a of Act (EFail t addr) \<Rightarrow> [addr] | _ \<Rightarrow> []) as)"

lemma charged_simps [simp]:
  "charged [] = []"
  "charged (Reply r # as) = charged as" "charged (Panic # as) = charged as"
  "charged (Act e # as) = (case e of EFail t addr \<Rightarrow> [addr] | _ \<Rightarrow> []) @ charged as"
  "charged (as @ bs) = charged as @ charged bs"
  by (simp_all add: charged_def)

lemma charged_replies [simp]:
  "charged (respond c req n s # as) = charged as" "charged (send_challenge c req d # as) = charged as"
  by (simp_all add: respond_def send_challenge_def)

lemma charged_auth:
  "charged (failed t req) = [sourceIPFromRequest req]"
  "charged (failedAuth t req err) =
     (if get_header (rq_headers req) ''Authorization'' \<noteq> None \<and> err \<noteq> Some ApiFailure then [sourceIPFromRequest req] else [])"
  using api_error.exhaust [of "the err" "err = None \<or> err = Some NotFound \<or> err = Some ApiFailure"]
  by (auto simp: failedAuth_def failed_def)

lemma charged_registered:
  "charged (register_remove c p req user domain) = []"
  "charged (register_store c p req user domain e) = []"
  by (simp_all add: register_remove_def register_store_def Let_def split: prod.splits)

text \<open>Whether the credentials a request carries are wrong, as far as the server can tell.\<close>

definition wrong_credentials :: "ctx \<Rightarrow> proxy \<Rightarrow> request \<Rightarrow> uri \<Rightarrow> bool" where
  "wrong_credentials c p req fu \<longleftrightarrow> get_header (rq_headers req) ''Authorization'' \<noteq> None
     \<and> (case fst (GetUserPassword (cx_http c) (cx_now c) (cx_later c) (uri_user fu) (uri_host fu) (px_api p)) of
          Inl NotFound \<Rightarrow> True
        | Inl ApiFailure \<Rightarrow> False
        | Inr password \<Rightarrow> password = [] \<or> \<not> validateDigestAuth req password)"

lemmas wrong_credentials_simps = wrong_credentials_def charged_auth charged_registered

lemma validate_needs_header: "get_header (rq_headers req) ''Authorization'' = None \<Longrightarrow> \<not> validateDigestAuth req password"
  by (simp add: validateDigestAuth_def)

lemma authenticate_user_failures:
  "charged (snd (authenticate_user c p req fu)) = (if wrong_credentials c p req fu then [sourceIPFromRequest req] else [])"
proof (cases "fst (GetUserPassword (cx_http c) (cx_now c) (cx_later c) (uri_user fu) (uri_host fu) (px_api p))")
  case (Inl err)
  then show ?thesis by (cases err) (simp_all add: authenticate_user_def Let_def wrong_credentials_simps)
qed (auto simp: authenticate_user_def Let_def wrong_credentials_simps)

text \<open>The number a request from outside is for: the caller's own number when it was spoofed.\<close>

definition called_number :: "proxy \<Rightarrow> string \<Rightarrow> string \<Rightarrow> string" where
  "called_number p callID user =
     (case gm_get (px_spoofCache p) (spoofCacheKey callID user) of Some cached \<Rightarrow> cached | None \<Rightarrow> user)"

abbreviation trunk_answer :: "ctx \<Rightarrow> proxy \<Rightarrow> string \<Rightarrow> api_error + trunkData" where
  "trunk_answer c p number \<equiv> fst (GetSIPTrunk (cx_http c) (cx_now c) (cx_later c) number (px_api p))"

lemma authenticate_trunk_cases:
  fixes c :: ctx and p :: proxy and req :: request and tu :: uri and callID :: string
  assumes "rq_to req = Some tu" "rq_call_id req = Some callID"
  defines "number \<equiv> called_number p callID (uri_user tu)"
  defines "asked \<equiv> Act (EApi (AskTrunk (cx_http c) (cx_now c) (cx_later c) number))"
    and "refuse \<equiv> [Act (EReject (cx_later c) req), respond c req 403 ''Forbidden'']"
  shows "authenticate_trunk c p req sourceIP =
     (case trunk_answer c p number of
        Inl NotFound \<Rightarrow> (False, asked # failed (cx_later c) req @ refuse)
      | Inl ApiFailure \<Rightarrow> (False, asked # refuse)
      | Inr trunk \<Rightarrow> if \<not> isIPAllowed sourceIP (td_InboundIPs trunk)
                     then (False, asked # failed (cx_later c) req @ refuse) else (True, [asked]))"
  unfolding authenticate_trunk_def assms(1,2) number_def asked_def refuse_def called_number_def Let_def
  by (simp only: prod.case option.case)

text \<open>
  Property (C16). A REGISTER counts exactly one failure, against the IP address it was sent from, when its user is
  outside the root domain or the credentials it carries are wrong, and none otherwise: not for the first
  request of a login, which carries none, and not while the server cannot be reached. A
  request from outside for such a user counts in the same way, and one for a trunk number
  exactly when the server does not know the number or the source is outside the trunk's
  networks.
\<close>

theorem failures_are_counted_rightly:
  "charged (handleRegister c p req) =
     (case rq_from req of
        None \<Rightarrow> []
      | Some fu \<Rightarrow> if has_suffix (uri_host fu) (SIPUserRootDomain (px_cfg p))
                   then (if wrong_credentials c p req fu then [sourceIPFromRequest req] else []) else [sourceIPFromRequest req])
   \<and> charged (snd (authenticateExternalRequest c p req sourceIP)) =
     (case (rq_from req, rq_to req, rq_call_id req) of
        (Some fu, Some tu, Some callID) \<Rightarrow>
          if has_suffix (uri_host fu) (SIPUserRootDomain (px_cfg p))
          then (if wrong_credentials c p req fu then [sourceIPFromRequest req] else [])
          else (case trunk_answer c p (called_number p callID (uri_user tu)) of
                  Inl NotFound \<Rightarrow> [sourceIPFromRequest req]
                | Inl ApiFailure \<Rightarrow> []
                | Inr trunk \<Rightarrow> if isIPAllowed sourceIP (td_InboundIPs trunk) then [] else [sourceIPFromRequest req])
      | (Some fu, _, _) \<Rightarrow> if has_suffix (uri_host fu) (SIPUserRootDomain (px_cfg p)) \<and> wrong_credentials c p req fu
                           then [sourceIPFromRequest req] else []
      | (None, _, _) \<Rightarrow> [])"
proof (rule conjI)
  show "charged (handleRegister c p req) =
     (case rq_from req of
        None \<Rightarrow> []
      | Some fu \<Rightarrow> if has_suffix (uri_host fu) (SIPUserRootDomain (px_cfg p))
                   then (if wrong_credentials c p req fu then [sourceIPFromRequest req] else []) else [sourceIPFromRequest req])"
  proof (cases "rq_from req")
    case None
    then show ?thesis by (simp add: handleRegister_def)
  next
    case (Some fu)
    show ?thesis
    proof (cases "fst (GetUserPassword (cx_http c) (cx_now c) (cx_later c) (uri_user fu) (uri_host fu) (px_api p))")
      case (Inl err)
      with Some show ?thesis
        by (cases err) (simp_all add: handleRegister_def Let_def wrong_credentials_simps)
    next
      case (Inr password)
      with Some validate_needs_header [of req password] show ?thesis
        by (auto simp: handleRegister_def Let_def wrong_credentials_simps)
    qed
  qed
next
  show "charged (snd (authenticateExternalRequest c p req sourceIP)) =
     (case (rq_from req, rq_to req, rq_call_id req) of
        (Some fu, Some tu, Some callID) \<Rightarrow>
          if has_suffix (uri_host fu) (SIPUserRootDomain (px_cfg p))
          then (if wrong_credentials c p req fu then [sourceIPFromRequest req] else [])
          else (case trunk_answer c p (called_number p callID (uri_user tu)) of
                  Inl NotFound \<Rightarrow> [sourceIPFromRequest req]
                | Inl ApiFailure \<Rightarrow> []
                | Inr trunk \<Rightarrow> if isIPAllowed sourceIP (td_InboundIPs trunk) then [] else [sourceIPFromRequest req])
      | (Some fu, _, _) \<Rightarrow> if has_suffix (uri_host fu) (SIPUserRootDomain (px_cfg p)) \<and> wrong_credentials c p req fu
                           then [sourceIPFromRequest req] else []
      | (None, _, _) \<Rightarrow> [])"
  proof (cases "rq_from req")
    case None
    then show ?thesis by (simp add: authenticateExternalRequest_def)
  next
    case (Some fu)
    show ?thesis
    proof (cases "rq_to req = None \<or> rq_call_id req = None \<or> has_suffix (uri_host fu) (SIPUserRootDomain (px_cfg p))")
      case True
      with Some show ?thesis
        by (cases "rq_to req"; cases "rq_call_id req")
          (auto simp: authenticateExternalRequest_def authenticate_user_failures authenticate_trunk_def)
    next
      case False
      then obtain tu callID where h: "rq_to req = Some tu" "rq_call_id req = Some callID" by auto
      with False Some have "authenticateExternalRequest c p req sourceIP = authenticate_trunk c p req sourceIP"
        by (simp add: authenticateExternalRequest_def)
      with False Some show ?thesis
        by (simp add: h authenticate_trunk_cases [OF h] failed_def split: sum.split api_error.split)
    qed
  qed
qed

section \<open>Who may call from outside\<close>

lemma sent_replies_failed [simp]:
  "sent_replies (failed t req) = []" "sent_replies (failedAuth t req err) = []"
  by (simp_all add: failedAuth_def failed_def)

text \<open>
  Property (C4). A request from outside passes exactly when its From is a user of the root domain and its
  digest is right for the password the server knows, or when it is not and the number it
  calls belongs to a trunk whose networks hold the source; a request that passes is not
  answered here, and one that does not is answered once, with 401 or 403.
\<close>

theorem external_requests_are_vetted:
  fixes c :: ctx and p :: proxy and req :: request and fu tu :: uri and callID :: string
  assumes S: "sipgo_ok (cx_sip c)"
    and h: "rq_from req = Some fu" "rq_to req = Some tu" "rq_call_id req = Some callID"
  defines "user \<equiv> has_suffix (uri_host fu) (SIPUserRootDomain (px_cfg p))"
    and "password \<equiv> fst (GetUserPassword (cx_http c) (cx_now c) (cx_later c) (uri_user fu) (uri_host fu) (px_api p))"
    and "trunk \<equiv> trunk_answer c p (called_number p callID (uri_user tu))"
  shows "(fst (authenticateExternalRequest c p req sourceIP) \<longleftrightarrow>
          (if user then (case password of Inl e \<Rightarrow> False | Inr w \<Rightarrow> w \<noteq> [] \<and> validateDigestAuth req w)
           else (case trunk of Inl e \<Rightarrow> False | Inr t \<Rightarrow> isIPAllowed sourceIP (td_InboundIPs t))))
    \<and> map rs_status (sent_replies (snd (authenticateExternalRequest c p req sourceIP))) =
        (if fst (authenticateExternalRequest c p req sourceIP) then [] else if user then [401] else [403])"
proof (cases user)
  case True
  then show ?thesis
    unfolding password_def
    by (auto simp: authenticateExternalRequest_def h user_def authenticate_user_def Let_def send_challenge_def
        sendAuthChallenge_def sipgo_okD [OF S] split: sum.split)
next
  case False
  then show ?thesis
    unfolding trunk_def
    by (simp add: authenticateExternalRequest_def h user_def authenticate_trunk_cases [OF h(2,3)] respond_def
        sipgo_okD [OF S] split: sum.split api_error.split)
qed

section \<open>What a registration promises\<close>

text \<open>The request passes every check of \<^verbatim>\<open>handleRegister\<close>, and asks for a lifetime.\<close>

definition registers :: "ctx \<Rightarrow> proxy \<Rightarrow> request \<Rightarrow> uri \<Rightarrow> bool" where
  "registers c p req fu \<longleftrightarrow> rq_from req = Some fu \<and> has_suffix (uri_host fu) (SIPUserRootDomain (px_cfg p))
     \<and> (case fst (GetUserPassword (cx_http c) (cx_now c) (cx_later c) (uri_user fu) (uri_host fu) (px_api p)) of
          Inl e \<Rightarrow> False | Inr w \<Rightarrow> w \<noteq> [] \<and> validateDigestAuth req w)
     \<and> registerExpires (headerValue req ''Contact'') (headerValue req ''Expires'') \<noteq> 0"

abbreviation aor_of :: "uri \<Rightarrow> string" where
  "aor_of fu \<equiv> uri_user fu @ ''@'' @ uri_host fu"

abbreviation granted :: "ctx \<Rightarrow> proxy \<Rightarrow> request \<Rightarrow> uri \<Rightarrow> contact \<times> int" where
  "granted c p req fu \<equiv> register_contact c (px_cfg p) req (aor_of fu)
     (registerExpires (headerValue req ''Contact'') (headerValue req ''Expires''))"

lemma handleRegister_registers:
  assumes "registers c p req fu"
  shows "handleRegister c p req =
     [Act (EApi (AskPassword (cx_http c) (cx_now c) (cx_later c) (uri_user fu) (uri_host fu))),
      Act (EReg (OpRegister (aor_of fu) (fst (granted c p req fu)))),
      Act (EPresence (subdomain_of (uri_host fu)) ''registered'' (uri_user fu)),
      Reply (register_answer c req (fst (granted c p req fu)) (snd (granted c p req fu)))]"
proof -
  from assms obtain w where "rq_from req = Some fu" "has_suffix (uri_host fu) (SIPUserRootDomain (px_cfg p))"
    "fst (GetUserPassword (cx_http c) (cx_now c) (cx_later c) (uri_user fu) (uri_host fu) (px_api p)) = Inr w"
    "w \<noteq> []" "validateDigestAuth req w"
    "registerExpires (headerValue req ''Contact'') (headerValue req ''Expires'') \<noteq> 0"
    unfolding registers_def by (cases "fst (GetUserPassword (cx_http c) (cx_now c) (cx_later c) (uri_user fu) (uri_host fu) (px_api p))") auto
  then show ?thesis by (simp add: handleRegister_def register_store_def Let_def case_prod_unfold)
qed

lemma granted_address: "ct_Address (fst (register_contact c cfg req aor e0)) = rq_source req"
  by (simp add: register_contact_def Let_def)

lemma granted_expiry: "ct_ExpiresAt (fst (register_contact c cfg req aor e0)) =
    cx_later c + seconds (snd (register_contact c cfg req aor e0))"
  by (simp add: register_contact_def Let_def)

lemma px_reg_registers:
  "registers c p req fu \<Longrightarrow> px_reg (run_acts (handleRegister c p req) p) =
     Register (aor_of fu) (fst (granted c p req fu)) (px_reg p)"
  by (simp only: handleRegister_registers run_acts_simps do_act.simps do_effect.simps reg_step.simps) simp

lemma granted_webrtc: "ct_IsWebRTC (fst (register_contact c cfg req aor e0)) = register_isWebRTC (rq_transport req)"
  by (simp add: register_contact_def Let_def)

lemma offered_until:
  assumes "registers c p req fu" "reg_ok (px_reg p)" "list_all (leaves_contact (aor_of fu) (rq_source req) t) ops"
  shows "(\<exists>ct \<in> set (LookupByType t (fold reg_step ops (px_reg (run_acts (handleRegister c p req) p))) (aor_of fu) webrtc).
      ct_Address ct = rq_source req)
     \<longleftrightarrow> webrtc = register_isWebRTC (rq_transport req) \<and> t < cx_later c + seconds (snd (granted c p req fu))"
  using lookup_registered_later [OF assms(2), of "aor_of fu" "fst (granted c p req fu)" t ops webrtc] assms(3)
  by (simp only: px_reg_registers [OF assms(1)] granted_address granted_expiry granted_webrtc)

lemma replies_registers:
  "registers c p req fu \<Longrightarrow> sent_replies (handleRegister c p req) =
     [register_answer c req (fst (granted c p req fu)) (snd (granted c p req fu))]"
  by (simp only: handleRegister_registers sent_replies_simps)

lemma register_answer_says:
  assumes "sipgo_ok (cx_sip c)"
  shows "rs_status (register_answer c req ct e) = 200"
    and "\<exists>contactText. rs_headers (register_answer c req ct e) = rs_headers (sg_new_response (cx_sip c) req 200 ''OK'' [])
            @ [HText ''Contact'' (contactWithExpires contactText e), HText ''Expires'' (itoa e)]"
  by (simp_all add: register_answer_def Let_def sipgo_okD [OF assms]) blast

text \<open>
  Property (C15). A registration of at most 9223372036 seconds (as many as a Go duration can hold) lasts exactly
  as long as the 200 OK says: the Expires header names the lifetime granted, the same number
  is put into the Contact, and until that many seconds have passed, and no longer, calls of
  the device's media type are offered to the contact at the request's source address, however
  many other registrations, removals, pings and reaps happen meanwhile, as long as none of
  them is for this contact.
\<close>

theorem registration_lasts_as_promised:
  fixes c :: ctx and p :: proxy and req :: request and fu :: uri
  assumes S: "sipgo_ok (cx_sip c)" and reg: "registers c p req fu" "reg_ok (px_reg p)"
  defines "e \<equiv> snd (granted c p req fu)"
  assumes small: "0 \<le> e" "e \<le> 9223372036"
    and others: "list_all (leaves_contact (aor_of fu) (rq_source req) t) ops"
  shows "((\<exists>ct \<in> set (LookupByType t (fold reg_step ops (px_reg (run_acts (handleRegister c p req) p))) (aor_of fu) webrtc).
        ct_Address ct = rq_source req)
      \<longleftrightarrow> webrtc = register_isWebRTC (rq_transport req) \<and> t < cx_later c + e * 1000000000)
    \<and> (\<exists>r contactText. sent_replies (handleRegister c p req) = [r] \<and> rs_status r = 200
        \<and> rs_headers r = rs_headers (sg_new_response (cx_sip c) req 200 ''OK'' [])
            @ [HText ''Contact'' (contactWithExpires contactText e), HText ''Expires'' (itoa e)])"
proof -
  have "seconds e = e * 1000000000" using small by (intro seconds_small) simp
  then show ?thesis
    unfolding replies_registers [OF reg(1)]
    using offered_until [OF reg others, of webrtc] register_answer_says [OF S, of req "fst (granted c p req fu)" e]
    unfolding e_def by (metis (no_types, lifting))
qed

text \<open>
  The lifetime is not bounded: a client that asks for more than 9223372036 seconds (and at most
  18446744073) is told by a 200 OK that it is registered for that long, but the multiplication
  to nanoseconds wraps around and its contact has expired when it is stored.
\<close>

theorem huge_lifetime_expires_at_once:
  fixes c :: ctx and p :: proxy and req :: request and fu :: uri
  assumes S: "sipgo_ok (cx_sip c)" and reg: "registers c p req fu" "reg_ok (px_reg p)"
  defines "e \<equiv> snd (granted c p req fu)"
  assumes huge: "9223372036 < e" "e \<le> 18446744073"
  shows "\<not> (\<exists>ct \<in> set (LookupByType (cx_later c) (px_reg (run_acts (handleRegister c p req) p)) (aor_of fu) webrtc). ct_Address ct = rq_source req)
    \<and> map rs_status (sent_replies (handleRegister c p req)) = [200]"
proof -
  have "(e * 1000000000 + 2 ^ 63) mod 2 ^ 64 = (e * 1000000000 + 2 ^ 63 - 2 ^ 64) mod 2 ^ 64"
    by (simp only: mod_diff_right_eq [of _ "2 ^ 64", symmetric] mod_self diff_zero)
  also have "\<dots> = e * 1000000000 + 2 ^ 63 - 2 ^ 64"
    by (rule mod_pos_pos_trivial) (use huge in simp_all)
  finally have "seconds e < 0" using huge by (simp add: seconds_def wrap64_def)
  then show ?thesis
    unfolding replies_registers [OF reg(1)]
    using offered_until [OF reg, of "cx_later c" "[]" webrtc] register_answer_says [OF S]
    unfolding e_def by auto
qed

section \<open>Witnesses\<close>

text \<open>A server that knows every password, and a user who registers or calls with the right one.\<close>

definition demo_ctx :: ctx where
  "demo_ctx = \<lparr>cx_sip = sipgo_model, cx_http = demo_server, cx_now = 1, cx_later = 2,
     cx_random = replicate 16 7, cx_lookup_host = (\<lambda>_. None)\<rparr>"

definition demo_proxy :: proxy where
  "demo_proxy = newProxy demo_config"

definition demo_digest :: "string \<Rightarrow> string" where
  "demo_digest meth = ''Digest '' @ params_text (client_params ''6001'' ''a.example.com'' ''abcd''
      ''sip:a.example.com'' (rfc_response meth ''6001'' ''a.example.com'' ''s3cret'' ''abcd'' ''sip:a.example.com'' None) None)"

definition demo_login :: "string \<Rightarrow> request" where
  "demo_login expires = \<lparr>rq_method = ''REGISTER'', rq_uri = mk_uri [] ''a.example.com'' 0,
     rq_headers = [HAddress ''From'' (mk_uri ''6001'' ''a.example.com'' 0) [] ''f'',
       HAddress ''To'' (mk_uri ''6001'' ''a.example.com'' 0) [] ''t'', HCallID ''c'', HText ''Expires'' expires,
       HText ''Authorization'' (demo_digest ''REGISTER'')],
     rq_body = [], rq_source = ''203.0.113.9:5060'', rq_dest = [], rq_transport = ''TCP''\<rparr>"

lemma lower_register_names:
  "to_lower ''Expires'' = ''expires''" "to_lower ''Authorization'' = ''authorization''" "to_lower ''From'' = ''from''"
  by code_simp+

abbreviation demo_user :: uri where
  "demo_user \<equiv> mk_uri ''6001'' ''a.example.com'' 0"

lemma demo_login_parts:
  "rq_from (demo_login e) = Some (mk_uri ''6001'' ''a.example.com'' 0)"
  "rq_to (demo_login e) = Some (mk_uri ''6001'' ''a.example.com'' 0)"
  "rq_call_id (demo_login e) = Some ''c''"
  "get_header (rq_headers (demo_login e)) ''Authorization'' = Some (HText ''Authorization'' (demo_digest ''REGISTER''))"
  "headerValue (demo_login e) ''Contact'' = []" "headerValue (demo_login e) ''Expires'' = e"
  "get_header (rq_headers (demo_login e)) ''Contact'' = None"
  by (simp_all add: demo_login_def rq_from_def rq_to_def headerValue_def get_header_def named_def lower_register_names)

lemma demo_login_valid: "validateDigestAuth (demo_login e) ''s3cret''"
proof -
  have "list_all plain_value [''6001'', ''a.example.com'', ''abcd'', ''sip:a.example.com'']"
    by (simp add: plain_value_def)
  then show ?thesis
    by (subst digest_accepted [OF demo_login_parts(4), of "''6001''" "''a.example.com''" "''abcd''" "''sip:a.example.com''" _ None])
      (simp_all add: demo_digest_def rfc_response_plain demo_login_def)
qed

lemma demo_password: "fst (GetUserPassword demo_server 1 2 user domain (px_api demo_proxy)) = Inr ''s3cret''"
proof -
  have "px_api demo_proxy = newInternalAPI demo_config" by (simp add: demo_proxy_def newProxy_def)
  moreover have "cred_get t (ia_credCache (newInternalAPI cfg)) k = None" for t k cfg
    by (simp add: newInternalAPI_def cred_get_def)
  ultimately show ?thesis by (simp add: GetUserPassword_def Let_def)
qed

lemma demo_root: "has_suffix ''a.example.com'' (SIPUserRootDomain (px_cfg demo_proxy))"
  by code_simp

lemma demo_registers:
  assumes "registerExpires [] e \<noteq> 0"
  shows "registers demo_ctx demo_proxy (demo_login e) demo_user"
  using assms demo_password [of "''6001''" "''a.example.com''"] demo_root demo_login_valid [of e]
  by (simp add: registers_def demo_login_parts demo_ctx_def mk_uri_def)

lemma demo_granted:
  "snd (granted demo_ctx demo_proxy (demo_login ''3600'') demo_user) = 3600"
  "snd (granted demo_ctx demo_proxy (demo_login ''10000000000'') demo_user) = 10000000000"
proof -
  have "\<not> isUDP (rq_transport (demo_login e))" for e by (simp add: demo_login_def isUDP_def equal_fold_def) code_simp
  then have "snd (register_contact demo_ctx (px_cfg demo_proxy) (demo_login e) aor e0) = e0" for e aor e0
    by (simp add: register_contact_def Let_def)
  moreover have "registerExpires [] ''3600'' = 3600" "registerExpires [] ''10000000000'' = 10000000000" by code_simp+
  ultimately show "snd (granted demo_ctx demo_proxy (demo_login ''3600'') demo_user) = 3600"
    "snd (granted demo_ctx demo_proxy (demo_login ''10000000000'') demo_user) = 10000000000"
    by (simp_all only: demo_login_parts)
qed

lemma demo_reg_ok: "reg_ok (px_reg demo_proxy)"
  by (simp add: demo_proxy_def newProxy_def)

lemma demo_ctx_sip: "sipgo_ok (cx_sip demo_ctx)" "cx_later demo_ctx = 2"
  using sipgo_ok_model by (simp_all add: demo_ctx_def)

lemma registration_lasts_witness:
  "\<exists>ct \<in> set (LookupByType 5 (fold reg_step [OpReap 4, OpUnregister ''6002@a.example.com'']
      (px_reg (run_acts (handleRegister demo_ctx demo_proxy (demo_login ''3600'')) demo_proxy)))
      (aor_of demo_user) False). ct_Address ct = rq_source (demo_login ''3600'')"
proof -
  have "registerExpires [] ''3600'' \<noteq> 0" by code_simp
  note reg = demo_registers [OF this]
  have "list_all (leaves_contact (aor_of demo_user) (rq_source (demo_login ''3600'')) 5) [OpReap 4, OpUnregister ''6002@a.example.com'']"
    by (simp add: mk_uri_def)
  note reads = registration_lasts_as_promised [OF demo_ctx_sip(1) reg demo_reg_ok, unfolded demo_granted, OF _ _ this, of False]
  have "\<not> register_isWebRTC (rq_transport (demo_login ''3600''))" by (simp add: register_isWebRTC_def demo_login_def)
  moreover have "5 < cx_later demo_ctx + 3600 * 1000000000" by (simp add: demo_ctx_sip)
  moreover have "(0 :: int) \<le> 3600" "(3600 :: int) \<le> 9223372036" by simp_all
  ultimately show ?thesis using reads by blast
qed

lemma huge_lifetime_witness:
  "\<not> (\<exists>ct \<in> set (LookupByType 2 (px_reg (run_acts (handleRegister demo_ctx demo_proxy (demo_login ''10000000000'')) demo_proxy))
      (aor_of demo_user) False). ct_Address ct = rq_source (demo_login ''10000000000''))"
proof -
  have "registerExpires [] ''10000000000'' \<noteq> 0" by code_simp
  note reg = demo_registers [OF this]
  show ?thesis
    using huge_lifetime_expires_at_once [OF demo_ctx_sip(1) reg demo_reg_ok, unfolded demo_granted demo_ctx_sip(2)]
    by simp
qed

lemma register_needs_the_password_witness:
  "\<exists>password. validateDigestAuth (demo_login ''3600'') password"
proof -
  have "registerExpires [] ''3600'' \<noteq> 0" by code_simp
  note reg = handleRegister_registers [OF demo_registers [OF this]]
  have "Act (EReg (OpRegister (aor_of demo_user) (fst (granted demo_ctx demo_proxy (demo_login ''3600'') demo_user))))
      \<in> set (handleRegister demo_ctx demo_proxy (demo_login ''3600''))"
    unfolding reg by (simp only: list.set insert_iff simp_thms)
  from register_needs_the_password [OF this] show ?thesis by blast
qed

lemma external_requests_witness:
  "fst (authenticateExternalRequest demo_ctx demo_proxy (demo_login ''60'') ''203.0.113.9'')"
  using external_requests_are_vetted [of demo_ctx "demo_login ''60''", OF _ demo_login_parts(1-3), of demo_proxy "''203.0.113.9''"]
    sipgo_ok_model demo_password [of "''6001''" "''a.example.com''"] demo_root demo_login_valid [of "''60''"]
  by (simp add: demo_ctx_def mk_uri_def)

end
