(* ===== verification/Proxy_Invite.thy ===== *)
theory Proxy_Invite
  imports Proxy_Register
begin

text \<open>
  Routing of INVITE (\<^verbatim>\<open>sbc/proxy.go\<close>: \<^verbatim>\<open>handleInvite\<close>,
  \<^verbatim>\<open>handleInviteToFS\<close>, \<^verbatim>\<open>handleInviteFromFS\<close>,
  \<^verbatim>\<open>handleInviteFromFSToTrunk\<close>) and CANCEL propagation
  (\<^verbatim>\<open>cancelOutgoing\<close>).

  A handler first produces the actions up to the point where it waits on its client
  transaction; what it meets there is a list of \<open>tx_event\<close>s, in the order in which its
  \<^verbatim>\<open>select\<close> takes them, and the loop is a recursion on that list. When the
  list runs out the handler is still waiting; when it returns, its deferred calls run, last
  registered first. The state is read once when the handler starts (\<open>p\<close>) and again after
  authentication (\<open>q\<close>), which waits on the server.
\<close>

section \<open>Sending\<close>

text \<open>The options \<^verbatim>\<open>sipgo.ClientRequestAddVia\<close> and \<^verbatim>\<open>validateOutgoing\<close>:
  what goes out, or \<open>None\<close> when the check refuses it.\<close>

definition outgoing :: "sipgo \<Rightarrow> request \<Rightarrow> request option" where
  "outgoing S fwd = (let r = sg_add_via S fwd in if validateOutgoing S r = None then Some r else None)"

text \<open>\<^verbatim>\<open>WriteRequest\<close> with \<^verbatim>\<open>validateOutgoing\<close> only.\<close>

definition write_checked :: "sipgo \<Rightarrow> side \<Rightarrow> request \<Rightarrow> acts" where
  "write_checked S sd req = (if validateOutgoing S req = None then [Act (EWrite sd req)] else [])"

text \<open>\<^verbatim>\<open>cancelOutgoing\<close>.\<close>

definition cancelOutgoing :: "sipgo \<Rightarrow> proxy \<Rightarrow> string \<Rightarrow> acts" where
  "cancelOutgoing S p callID =
     (case gm_get (px_activeTx p) callID of
        None \<Rightarrow> []
      | Some entry \<Rightarrow>
          (case cancel_request S (ae_req entry) of
             None \<Rightarrow> [Panic]
           | Some cancelReq \<Rightarrow> write_checked S (ae_client entry) cancelReq))"

text \<open>What a handler finds at its \<^verbatim>\<open>select\<close>: a response, the response channel closed,
  the transaction done (with or without an error), or the outcome of the digest retry.\<close>

datatype tx_event = TxResponse response | TxClosed | TxDone bool | AuthDone "response option"

datatype outcome = Waiting | Ended bool  \<comment> \<open>established\<close>

definition successful :: "response \<Rightarrow> bool" where
  "successful resp \<longleftrightarrow> 200 \<le> rs_status resp \<and> rs_status resp < 300"

section \<open>Caller to FreeSWITCH\<close>

definition to_fs_call :: "sipgo \<Rightarrow> request \<Rightarrow> uri \<Rightarrow> string \<Rightarrow> string list \<Rightarrow> response \<Rightarrow> callState" where
  "to_fs_call S req fu fsAddr users resp =
     \<lparr>cs_fsAddr = fsAddr, cs_fsURI = responseContactURI S resp (addr_uri [] fsAddr),
      cs_userAddr = rq_source req, cs_userURI = requestContactURI S req fu, cs_userAORs = users,
      cs_isWebRTC = isWebRTCTransport (rq_transport req), cs_spoofedUser = [], cs_fsCSeqOffset = 0\<rparr>"

definition to_fs_relay :: "sipgo \<Rightarrow> request \<Rightarrow> string \<Rightarrow> response \<Rightarrow> response" where
  "to_fs_relay S req fsAddr resp =
     (let relay = relay_response S req resp
      in relay\<lparr>rs_headers := replaceContactHeader S
           (normalizedContactHeaderValue S (get_header (rs_headers resp) ''Contact'') fsAddr) (rs_headers relay)\<rparr>)"

text \<open>The loop that relays the responses.\<close>

fun to_fs_loop :: "ctx \<Rightarrow> request \<Rightarrow> string \<Rightarrow> uri \<Rightarrow> string \<Rightarrow> string list \<Rightarrow> tx_event list \<Rightarrow> acts \<times> outcome" where
  "to_fs_loop c req callID fu fsAddr users [] = ([], Waiting)"
| "to_fs_loop c req callID fu fsAddr users (TxResponse resp # evs) =
     (if rs_status resp = 100 then to_fs_loop c req callID fu fsAddr users evs
      else
        let stored = (if successful resp
              then [Act (EStoreCall callID (to_fs_call (cx_sip c) req fu fsAddr users resp))] else []);
            relayed = stored @ [Reply (to_fs_relay (cx_sip c) req fsAddr resp)]
        in if rs_status resp \<ge> 200 then (relayed, Ended (successful resp))
           else (case to_fs_loop c req callID fu fsAddr users evs of (as, out) \<Rightarrow> (relayed @ as, out)))"
| "to_fs_loop c req callID fu fsAddr users (TxClosed # evs) = ([], Ended False)"
| "to_fs_loop c req callID fu fsAddr users (TxDone err # evs) =
     ((if err then [respond c req 408 ''Request Timeout''] else []), Ended False)"
| "to_fs_loop c req callID fu fsAddr users (AuthDone r # evs) = to_fs_loop c req callID fu fsAddr users evs"

definition to_fs_request :: "ctx \<Rightarrow> config \<Rightarrow> request \<Rightarrow> string \<Rightarrow> request option" where
  "to_fs_request c cfg req fsAddr =
     map_option (\<lambda>fwd. addRecordRoute cfg (cx_sip c) ''to_fs'' (fwd\<lparr>rq_dest := fsAddr, rq_transport := ''udp''\<rparr>))
       (buildForwardRequest cfg (cx_sip c) req)"

text \<open>After authentication; \<open>sent\<close> is whether the transaction could be started.\<close>

definition invite_to_fs :: "ctx \<Rightarrow> proxy \<Rightarrow> request \<Rightarrow> bool \<Rightarrow> tx_event list \<Rightarrow> acts" where
  "invite_to_fs c q req sent evs =
     (case (rq_call_id req, rq_from req, rq_to req) of
        (Some callID, Some fu, Some tu) \<Rightarrow>
          let users = comcentUsersForRequest fu tu (SIPUserRootDomain (px_cfg q)) in
          (case selectTargetForUsers users q of (selected, asked) \<Rightarrow>
             (if asked then [Act ESelect] else []) @
             (case selected of
                None \<Rightarrow> [respond c req 503 ''Service Unavailable'']
              | Some target \<Rightarrow>
                  let fsAddr = stripSIPPrefix target; forget = [Act (EDeleteAffinity callID users)] in
                  [Act (ESaveAffinity callID fsAddr users), respond c req 100 ''Trying''] @
                  (case to_fs_request c (px_cfg q) req fsAddr of
                     None \<Rightarrow> respond c req 483 ''Too Many Hops'' # forget
                   | Some fwdReq \<Rightarrow>
                       (case (if sent then outgoing (cx_sip c) fwdReq else None) of
                          None \<Rightarrow> respond c req 502 ''Bad Gateway'' # forget
                        | Some fwd \<Rightarrow>
                            [Act (ETransaction PrivateSide fwd),
                             Act (EStoreActive callID \<lparr>ae_req = fwd, ae_client = PrivateSide\<rparr>)] @
                            (case to_fs_loop c req callID fu fsAddr users evs of (as, out) \<Rightarrow> as @
                               (case out of
                                  Waiting \<Rightarrow> []
                                | Ended established \<Rightarrow>
                                    [Act (EDeleteActive callID), Act (ETerminate fwd)]
                                    @ (if established then [] else forget)))))))
      | _ \<Rightarrow> [Panic])"

definition handleInviteToFS ::
  "ctx \<Rightarrow> proxy \<Rightarrow> proxy \<Rightarrow> request \<Rightarrow> string \<Rightarrow> bool \<Rightarrow> tx_event list \<Rightarrow> acts" where
  "handleInviteToFS c p q req sourceIP sent evs =
     (case authenticateExternalRequest c p req sourceIP of (ok, as) \<Rightarrow>
        as @ (if ok then invite_to_fs c q req sent evs else []))"

section \<open>FreeSWITCH to a trunk\<close>

definition trunk_call :: "sipgo \<Rightarrow> request \<Rightarrow> uri \<Rightarrow> string \<Rightarrow> string \<Rightarrow> 32 word \<Rightarrow> response \<Rightarrow> callState" where
  "trunk_call S req trunkURI dest spoofedUser offset resp =
     \<lparr>cs_fsAddr = rq_source req, cs_fsURI = requestContactURI S req (addr_uri [] (rq_source req)),
      cs_userAddr = dest, cs_userURI = responseContactURI S resp trunkURI, cs_userAORs = [],
      cs_isWebRTC = False, cs_spoofedUser = spoofedUser, cs_fsCSeqOffset = offset\<rparr>"

text \<open>The wait for \<^verbatim>\<open>DoDigestAuth\<close>: nothing else is looked at until it returns.\<close>

fun trunk_auth :: "ctx \<Rightarrow> request \<Rightarrow> string \<Rightarrow> uri \<Rightarrow> string \<Rightarrow> string \<Rightarrow> tx_event list \<Rightarrow> acts \<times> outcome" where
  "trunk_auth c req callID trunkURI dest spoofedUser [] = ([], Waiting)"
| "trunk_auth c req callID trunkURI dest spoofedUser (AuthDone None # evs) =
     ([respond c req 502 ''Bad Gateway''], Ended False)"
| "trunk_auth c req callID trunkURI dest spoofedUser (AuthDone (Some resp) # evs) =
     ((if successful resp
       then [Act (EStoreCall callID (trunk_call (cx_sip c) req trunkURI dest spoofedUser (digestCSeqOffset req resp) resp))]
       else []) @ [Reply (relay_response (cx_sip c) req resp)], Ended (successful resp))"
| "trunk_auth c req callID trunkURI dest spoofedUser (ev # evs) = trunk_auth c req callID trunkURI dest spoofedUser evs"

fun trunk_loop ::
  "ctx \<Rightarrow> request \<Rightarrow> request \<Rightarrow> trunkData \<Rightarrow> string \<Rightarrow> uri \<Rightarrow> string \<Rightarrow> string \<Rightarrow> tx_event list \<Rightarrow> acts \<times> outcome" where
  "trunk_loop c req fwd trunk callID trunkURI dest spoofedUser [] = ([], Waiting)"
| "trunk_loop c req fwd trunk callID trunkURI dest spoofedUser (TxResponse resp # evs) =
     (if rs_status resp = 100 then trunk_loop c req fwd trunk callID trunkURI dest spoofedUser evs
      else if rs_status resp = 401 \<or> rs_status resp = 407 then
        (case trunk_auth c req callID trunkURI dest spoofedUser evs of (as, out) \<Rightarrow>
           ([Act (ETerminate fwd), Act (EDeleteActive callID),
             Act (EDigestAuth fwd resp (td_OutboundUser trunk) (td_OutboundPass trunk))] @ as, out))
      else
        let stored = (if successful resp
              then [Act (EStoreCall callID (trunk_call (cx_sip c) req trunkURI dest spoofedUser 0 resp))] else []);
            relayed = stored @ [Reply (relay_response (cx_sip c) req resp)]
        in if rs_status resp \<ge> 200 then (relayed, Ended (successful resp))
           else (case trunk_loop c req fwd trunk callID trunkURI dest spoofedUser evs of (as, out) \<Rightarrow> (relayed @ as, out)))"
| "trunk_loop c req fwd trunk callID trunkURI dest spoofedUser (TxClosed # evs) = ([], Ended False)"
| "trunk_loop c req fwd trunk callID trunkURI dest spoofedUser (TxDone err # evs) =
     ((if err then [respond c req 408 ''Request Timeout''] else []), Ended False)"
| "trunk_loop c req fwd trunk callID trunkURI dest spoofedUser (AuthDone r # evs) =
     trunk_loop c req fwd trunk callID trunkURI dest spoofedUser evs"

text \<open>The user whose number is hidden behind the trunk's (\<^verbatim>\<open>spoofedUser\<close>).\<close>

definition spoofed_user :: "request \<Rightarrow> string \<Rightarrow> string" where
  "spoofed_user req number =
     (case rq_from req of
        None \<Rightarrow> []
      | Some fu \<Rightarrow> if uri_user fu \<noteq> [] \<and> uri_user fu \<noteq> number then uri_user fu else [])"

text \<open>After the trunk was looked up.\<close>

definition invite_to_trunk ::
  "ctx \<Rightarrow> config \<Rightarrow> request \<Rightarrow> string \<Rightarrow> string \<Rightarrow> trunkData \<Rightarrow> bool \<Rightarrow> tx_event list \<Rightarrow> acts" where
  "invite_to_trunk c cfg req toUser number trunk sent evs =
     (case rq_call_id req of
        None \<Rightarrow> [Panic]
      | Some callID \<Rightarrow>
          (case splitHostPort (td_OutboundContact trunk) 5060 of (contactHost, contactPort) \<Rightarrow>
             let dest = resolveHost (cx_lookup_host c) (td_OutboundContact trunk);
                 trunkURI = mk_uri toUser contactHost contactPort
             in respond c req 100 ''Trying'' #
                (case buildForwardRequestWithURI cfg (cx_sip c) req trunkURI of
                   None \<Rightarrow> [respond c req 483 ''Too Many Hops'']
                 | Some fwd0 \<Rightarrow>
                     let spoofedUser = spoofed_user req number;
                         key = spoofCacheKey callID spoofedUser;
                         forget = (if spoofedUser \<noteq> [] then [Act (EDeleteSpoof key)] else []);
                         fwdReq = addRecordRoute cfg (cx_sip c) ''from_fs'' (fwd0\<lparr>rq_dest := dest\<rparr>)
                     in (if spoofedUser \<noteq> [] then [Act (EStoreSpoof key number)] else []) @
                        (case (if sent then outgoing (cx_sip c) fwdReq else None) of
                           None \<Rightarrow> respond c req 502 ''Bad Gateway'' # forget
                         | Some fwd \<Rightarrow>
                             [Act (ETransaction PublicSide fwd),
                              Act (EStoreActive callID \<lparr>ae_req = fwd, ae_client = PublicSide\<rparr>)] @
                             (case trunk_loop c req fwd trunk callID trunkURI dest spoofedUser evs of (as, out) \<Rightarrow> as @
                                (case out of
                                   Waiting \<Rightarrow> []
                                 | Ended established \<Rightarrow>
                                     [Act (EDeleteActive callID), Act (ETerminate fwd)]
                                     @ (if established then [] else forget)))))))"

definition handleInviteFromFSToTrunk ::
  "ctx \<Rightarrow> proxy \<Rightarrow> request \<Rightarrow> string \<Rightarrow> bool \<Rightarrow> tx_event list \<Rightarrow> acts" where
  "handleInviteFromFSToTrunk c p req toUser sent evs =
     (case get_header (rq_headers req) ''X-Trunk-Number'' of
        None \<Rightarrow> [respond c req 400 ''Missing X-Trunk-Number'']
      | Some h \<Rightarrow>
          Act (EApi (AskTrunk (cx_http c) (cx_now c) (cx_later c) (hdr_value h))) #
          (case fst (GetSIPTrunk (cx_http c) (cx_now c) (cx_later c) (hdr_value h) (px_api p)) of
             Inl err \<Rightarrow> [respond c req 500 ''Server Error'']
           | Inr trunk \<Rightarrow> invite_to_trunk c (px_cfg p) req toUser (hdr_value h) trunk sent evs))"

section \<open>What the caller hears\<close>

text \<open>The responses a transaction relays: all but 100, up to the first final one.\<close>

fun until_final :: "response list \<Rightarrow> response list" where
  "until_final [] = []"
| "until_final (r # rs) =
     (if rs_status r = 100 then until_final rs else if rs_status r \<ge> 200 then [r] else r # until_final rs)"

lemma to_fs_loop_replies:
  "sent_replies (fst (to_fs_loop c req callID fu fsAddr users (map TxResponse rs))) =
     map (to_fs_relay (cx_sip c) req fsAddr) (until_final rs)"
  by (induction rs) (auto simp: Let_def split: prod.split)

lemma trunk_loop_replies:
  "list_all (\<lambda>r. rs_status r \<notin> {401, 407}) rs \<Longrightarrow>
     sent_replies (fst (trunk_loop c req fwd trunk callID trunkURI dest spoofedUser (map TxResponse rs))) =
     map (relay_response (cx_sip c) req) (until_final rs)"
  by (induction rs) (auto simp: Let_def split: prod.split)

section \<open>The call is recorded before its 2xx goes out\<close>

text \<open>Every 2xx of a list of actions comes right after the recording of the call \<open>k\<close>;
  \<open>b\<close>: the action before the list was such a recording.\<close>

fun recorded_first :: "string \<Rightarrow> bool \<Rightarrow> acts \<Rightarrow> bool" where
  "recorded_first k b [] \<longleftrightarrow> True"
| "recorded_first k b (Reply r # as) \<longleftrightarrow> (if successful r then b else True) \<and> recorded_first k False as"
| "recorded_first k b (Act (EStoreCall k' cs) # as) \<longleftrightarrow> recorded_first k (k' = k) as"
| "recorded_first k b (a # as) \<longleftrightarrow> recorded_first k False as"

lemma recorded_first_mono: "recorded_first k False as \<Longrightarrow> recorded_first k b as"
  by (induction k b as rule: recorded_first.induct) auto

lemma recorded_first_append:
  "recorded_first k b as \<Longrightarrow> recorded_first k False bs \<Longrightarrow> recorded_first k b (as @ bs)"
  by (induction k b as rule: recorded_first.induct) (auto simp: recorded_first_mono)

lemma recorded_first_split:
  "recorded_first k b (pre @ Reply r # post) \<Longrightarrow> successful r \<Longrightarrow>
     (pre = [] \<and> b) \<or> (\<exists>pre' cs. pre = pre' @ [Act (EStoreCall k cs)])"
proof (induction k b pre rule: recorded_first.induct)
  case (3 k b k' cs as)
  then show ?case by (cases as) (auto split: if_splits)
qed (auto split: if_splits)

text \<open>Actions that answer no 2xx and record no call.\<close>

definition no_success :: "effect act \<Rightarrow> bool" where
  "no_success a \<longleftrightarrow> (case a of Reply r \<Rightarrow> \<not> successful r | Act (EStoreCall k cs) \<Rightarrow> False | _ \<Rightarrow> True)"

lemma recorded_first_none_cons: "no_success a \<Longrightarrow> recorded_first k b (a # as) = recorded_first k False as"
proof (cases a)
  case (Act e)
  assume "no_success a"
  then show ?thesis unfolding Act by (cases e) (simp_all add: no_success_def)
qed (simp_all add: no_success_def)

lemma recorded_first_none: "list_all no_success as \<Longrightarrow> recorded_first k b as"
  by (induction as arbitrary: b) (simp_all add: recorded_first_none_cons)

lemma no_success_respond:
  "sipgo_ok (cx_sip c) \<Longrightarrow> \<not> (200 \<le> n \<and> n < 300) \<Longrightarrow> no_success (respond c req n t)"
  by (simp add: respond_def no_success_def successful_def sipgo_okD)

lemma recorded_first_respond:
  assumes "sipgo_ok (cx_sip c)"
  shows "\<not> (200 \<le> n \<and> n < 300) \<Longrightarrow> recorded_first k b (respond c req n t # as) = recorded_first k False as"
  using assms by (auto simp: respond_def successful_def sipgo_okD)

lemma relay_status:
  assumes "sipgo_ok S"
  shows "rs_status (relay_response S req resp) = rs_status resp"
    and "rs_status (to_fs_relay S req fsAddr resp) = rs_status resp"
  using assms by (simp_all add: to_fs_relay_def relay_response_def copyResponseHeaders_def Let_def sipgo_okD)

lemma successful_relay:
  assumes "sipgo_ok S"
  shows "successful (relay_response S req resp) = successful resp"
    and "successful (to_fs_relay S req fsAddr resp) = successful resp"
  using relay_status [OF assms] by (simp_all add: successful_def)

lemma to_fs_loop_recorded:
  assumes "sipgo_ok (cx_sip c)"
  shows "recorded_first callID b (fst (to_fs_loop c req callID fu fsAddr users evs))"
  using assms
  by (induction c req callID fu fsAddr users evs arbitrary: b rule: to_fs_loop.induct)
    (auto simp: Let_def successful_relay recorded_first_respond split: prod.split)

lemma trunk_auth_recorded:
  assumes "sipgo_ok (cx_sip c)"
  shows "recorded_first callID b (fst (trunk_auth c req callID trunkURI dest spoofedUser evs))"
  using assms
  by (induction c req callID trunkURI dest spoofedUser evs arbitrary: b rule: trunk_auth.induct)
    (auto simp: successful_relay recorded_first_respond)

lemma trunk_loop_recorded:
  assumes "sipgo_ok (cx_sip c)"
  shows "recorded_first callID b (fst (trunk_loop c req fwd trunk callID trunkURI dest spoofedUser evs))"
  using assms
proof (induction c req fwd trunk callID trunkURI dest spoofedUser evs arbitrary: b rule: trunk_loop.induct)
  case (2 c req fwd trunk callID trunkURI dest spoofedUser resp evs)
  then show ?case
    using trunk_auth_recorded [of c callID False req trunkURI dest spoofedUser evs]
    by (auto simp: Let_def successful_relay split: prod.split)
qed (auto simp: recorded_first_respond)

lemma authenticate_no_success:
  assumes "sipgo_ok (cx_sip c)"
  shows "list_all no_success (snd (authenticateExternalRequest c p req sourceIP))"
proof -
  have fl: "list_all no_success (failed t r)" "list_all no_success (failedAuth t r err)" for t r err
    by (simp_all add: failed_def failedAuth_def no_success_def)
  have ch: "no_success (send_challenge c r d)" "no_success (respond c r 403 reason)" for r d reason
    using assms by (simp_all add: send_challenge_def sendAuthChallenge_def respond_def no_success_def
        successful_def Let_def sipgo_okD)
  have act: "no_success (Act (EApi x))" "no_success (Act (EReject y z))" "no_success Panic" for x y z
    by (simp_all add: no_success_def)
  have user: "list_all no_success (snd (authenticate_user c p req fu))" for fu
    by (simp add: authenticate_user_def Let_def fl ch act split: sum.split)
  have trunk: "list_all no_success (snd (authenticate_trunk c p req sourceIP))"
  proof (cases "rq_to req = None \<or> rq_call_id req = None")
    case True
    then show ?thesis by (cases "rq_to req"; cases "rq_call_id req") (auto simp: authenticate_trunk_def act)
  next
    case False
    then obtain tu callID where h: "rq_to req = Some tu" "rq_call_id req = Some callID" by auto
    show ?thesis
      by (simp add: authenticate_trunk_cases [OF h] fl ch act split: sum.split api_error.split)
  qed
  show ?thesis by (simp add: authenticateExternalRequest_def user trunk act split: option.split)
qed

lemma recorded_first_cons_act:
  "(\<forall>k' cs. e \<noteq> EStoreCall k' cs) \<Longrightarrow> recorded_first k b (Act e # as) = recorded_first k False as"
  by (cases e) auto

lemma invite_to_fs_recorded:
  assumes "sipgo_ok (cx_sip c)" "rq_call_id req = Some callID"
  shows "recorded_first callID False (invite_to_fs c q req sent evs)"
proof -
  note rf = recorded_first_respond [OF assms(1)] recorded_first_cons_act
  have loop: "recorded_first callID b (fst (to_fs_loop c req callID fu fsAddr users evs) @ xs)"
    if "recorded_first callID False xs" for b fu fsAddr users xs
    by (intro recorded_first_append to_fs_loop_recorded assms(1) that)
  have "recorded_first callID False ((if asked then [Act ESelect] else []) @ xs)"
    if "recorded_first callID False xs" for asked xs using that by simp
  then show ?thesis
    unfolding invite_to_fs_def assms(2) Let_def case_prod_unfold
    by (auto simp: rf loop to_fs_loop_recorded [OF assms(1)] intro!: loop split: option.split outcome.split)
qed

lemma invite_to_trunk_recorded:
  assumes "sipgo_ok (cx_sip c)" "rq_call_id req = Some callID"
  shows "recorded_first callID False (invite_to_trunk c cfg req toUser number trunk sent evs)"
proof -
  note rf = recorded_first_respond [OF assms(1)] recorded_first_cons_act
  have loop: "recorded_first callID b (fst (trunk_loop c req fwd trunk callID trunkURI dest su evs) @ xs)"
    if "recorded_first callID False xs" for b fwd trunkURI dest su xs
    by (intro recorded_first_append trunk_loop_recorded assms(1) that)
  show ?thesis
    unfolding invite_to_trunk_def assms(2) Let_def case_prod_unfold
    by (auto simp: rf trunk_loop_recorded [OF assms(1)] intro!: loop split: option.split outcome.split)
qed

section \<open>What a call leaves behind\<close>

text \<open>The events at which the loop returns, and whether the call is then established.\<close>

definition ends :: "tx_event \<Rightarrow> bool" where
  "ends ev \<longleftrightarrow> (case ev of TxResponse r \<Rightarrow> rs_status r \<ge> 200 | TxClosed \<Rightarrow> True | TxDone err \<Rightarrow> True | AuthDone r \<Rightarrow> False)"

definition answered_by :: "tx_event list \<Rightarrow> response option" where
  "answered_by evs = (case find ends evs of Some (TxResponse r) \<Rightarrow> if successful r then Some r else None | _ \<Rightarrow> None)"

lemma ends_simps [simp]:
  "ends (TxResponse r) \<longleftrightarrow> rs_status r \<ge> 200" "ends TxClosed" "ends (TxDone err)" "\<not> ends (AuthDone x)"
  by (simp_all add: ends_def)

lemma answered_by_simps [simp]:
  "answered_by [] = None"
  "answered_by (TxResponse r # evs) = (if rs_status r \<ge> 200 then if successful r then Some r else None else answered_by evs)"
  "answered_by (TxClosed # evs) = None" "answered_by (TxDone err # evs) = None"
  "answered_by (AuthDone x # evs) = answered_by evs"
  by (simp_all add: answered_by_def)

lemma to_fs_loop_outcome:
  "snd (to_fs_loop c req callID fu fsAddr users evs) =
     (if find ends evs = None then Waiting else Ended (answered_by evs \<noteq> None))"
  by (induction c req callID fu fsAddr users evs rule: to_fs_loop.induct)
    (auto simp: Let_def split: prod.splits)

lemma to_fs_loop_run:
  "run_acts (fst (to_fs_loop c req callID fu fsAddr users evs)) q =
     (case answered_by evs of
        None \<Rightarrow> q
      | Some r \<Rightarrow> q\<lparr>px_calls := gm_set callID (to_fs_call (cx_sip c) req fu fsAddr users r) (px_calls q)\<rparr>)"
  by (induction c req callID fu fsAddr users evs rule: to_fs_loop.induct)
    (auto simp: Let_def successful_def respond_def split: prod.splits)

lemma run_respond [simp]: "do_act (respond c req n reason) q = q"
  by (simp add: respond_def)

text \<open>
  Property (C13). A call to FreeSWITCH that is not answered leaves nothing behind: when the handler has
  returned without an established call (rejected, timed out, refused by the checks, or never
  sent), the recorded calls, the transactions kept for CANCEL and every user's pinned calls
  are what they were before.
\<close>

theorem unanswered_call_leaves_nothing:
  fixes c :: ctx and q :: proxy and req :: request and callID :: string and sent :: bool and evs :: "tx_event list"
  assumes h: "rq_call_id req = Some callID"
    and over: "find ends evs \<noteq> None" "answered_by evs = None"
    and before: "aff_ok (px_affinity q)" "\<And>u. pin_of (px_affinity q) u callID = None"
      "gm_get (px_activeTx q) callID = None"
  defines "q' \<equiv> run_acts (invite_to_fs c q req sent evs) q"
  shows "px_calls q' = px_calls q \<and> gm_get (px_activeTx q') k = gm_get (px_activeTx q) k
    \<and> pin_of (px_affinity q') u k = pin_of (px_affinity q) u k"
proof -
  have pins: "pin_of (deleteAffinity callID us (saveAffinity callID a us (px_affinity q))) u k = pin_of (px_affinity q) u k" for us a
    using pins.save_then_drop [OF before(1)] before(2) pins.pin_save [OF before(1)] pins.pin_drop [OF pins.ok_save [OF before(1)]]
    by (auto split: if_splits)
  show ?thesis
    unfolding q'_def invite_to_fs_def h
    using before(3) over
    by (auto simp: Let_def case_prod_unfold to_fs_loop_outcome to_fs_loop_run pins split: option.split)
qed

section \<open>The digest retry\<close>

definition still_retrying :: "tx_event list \<Rightarrow> bool" where
  "still_retrying evs \<longleftrightarrow> list_all (\<lambda>ev. case ev of AuthDone r \<Rightarrow> False | _ \<Rightarrow> True) evs"

lemma trunk_auth_waits:
  "still_retrying evs \<Longrightarrow> trunk_auth c req callID trunkURI dest su evs = ([], Waiting)"
  by (induction c req callID trunkURI dest su evs rule: trunk_auth.induct) (simp_all add: still_retrying_def)

lemma trunk_loop_retry:
  assumes "list_all (\<lambda>r. rs_status r < 200) rs" "rs_status ch \<in> {401, 407}" "still_retrying evs"
  shows "trunk_loop c req fwd trunk callID trunkURI dest su (map TxResponse rs @ TxResponse ch # evs) =
     (map (\<lambda>r. Reply (relay_response (cx_sip c) req r)) (filter (\<lambda>r. rs_status r \<noteq> 100) rs)
      @ [Act (ETerminate fwd), Act (EDeleteActive callID),
         Act (EDigestAuth fwd ch (td_OutboundUser trunk) (td_OutboundPass trunk))], Waiting)"
  using assms by (induction rs) (auto simp: trunk_auth_waits Let_def successful_def)

lemma run_replies [simp]: "run_acts (map (\<lambda>r. Reply (f r)) rs) q = q"
  by (induction rs) simp_all

text \<open>
  Property (C26). While the answer to a trunk's digest challenge is out (that is, for as long as the trunk
  rings), the call cannot be cancelled: the entry that a CANCEL needs has been deleted, so
  nothing is sent to the trunk; and no response of the trunk is relayed until the retry
  returns, not even that the far end is ringing.
\<close>

theorem digest_retry_cannot_be_cancelled:
  fixes c :: ctx and q :: proxy and req :: request and callID :: string and sent :: bool and evs :: "tx_event list"
    and cfg :: config and trunk :: trunkData and toUser number :: string and rs :: "response list" and ch :: response
  assumes "rq_call_id req = Some callID" "gm_get (px_activeTx q) callID = None"
    and "list_all (\<lambda>r. rs_status r < 200) rs" "rs_status ch \<in> {401, 407}" "still_retrying evs"
  defines "as \<equiv> invite_to_trunk c cfg req toUser number trunk sent (map TxResponse rs @ TxResponse ch # evs)"
  shows "cancelOutgoing (cx_sip c) (run_acts as q) callID = []
    \<and> as = invite_to_trunk c cfg req toUser number trunk sent (map TxResponse rs @ [TxResponse ch])"
proof -
  have none: "still_retrying []" by (simp add: still_retrying_def)
  show ?thesis
    unfolding as_def invite_to_trunk_def assms(1) cancelOutgoing_def Let_def case_prod_unfold
      trunk_loop_retry [OF assms(3-5)] trunk_loop_retry [OF assms(3,4) none]
    using assms(2) by (auto split: option.split)
qed

section \<open>Witnesses\<close>

text \<open>A proxy with one FreeSWITCH, 10.0.0.9.\<close>

definition demo_fs_proxy :: proxy where
  "demo_fs_proxy = demo_proxy\<lparr>px_disp := AddTarget ''sip:10.0.0.9:5070'' newDispatcher\<rparr>"

lemma demo_fs_proxy_empty [simp]:
  "px_calls demo_fs_proxy = []" "px_activeTx demo_fs_proxy = []" "px_affinity demo_fs_proxy = []"
  "px_cfg demo_fs_proxy = demo_config"
  by (simp_all add: demo_fs_proxy_def demo_proxy_def newProxy_def)

definition demo_reply :: "int \<Rightarrow> response" where
  "demo_reply n = demo_ok_response\<lparr>rs_status := n, rs_headers := [demo_far_to, HCSeq 9 ''INVITE'']\<rparr>"

lemma demo_invite_id [simp]: "rq_call_id demo_invite = Some ''call1''"
  by (simp add: demo_invite_def)

lemma unanswered_call_witness:
  "px_calls (run_acts (invite_to_fs demo_ctx demo_fs_proxy demo_invite True [TxResponse (demo_reply 180), TxResponse (demo_reply 486)])
     demo_fs_proxy) = []
   \<and> pin_of (px_affinity (run_acts (invite_to_fs demo_ctx demo_fs_proxy demo_invite True
        [TxResponse (demo_reply 180), TxResponse (demo_reply 486)]) demo_fs_proxy)) ''6001@a.example.com'' ''call1'' = None"
  using unanswered_call_leaves_nothing [OF demo_invite_id, of "[TxResponse (demo_reply 180), TxResponse (demo_reply 486)]"
      demo_fs_proxy demo_ctx True "''call1''" "''6001@a.example.com''"]
  by (simp add: demo_reply_def successful_def)

lemma digest_retry_witness:
  "cancelOutgoing sipgo_model (run_acts (invite_to_trunk demo_ctx demo_config demo_invite ''6002'' ''200'' demo_trunk True
      [TxResponse (demo_reply 100), TxResponse (demo_reply 407), TxResponse (demo_reply 180)]) demo_fs_proxy) ''call1'' = []"
proof -
  have "still_retrying [TxResponse (demo_reply 180)]" by (simp add: still_retrying_def)
  moreover have "rs_status (demo_reply 407) \<in> {401, 407}" "list_all (\<lambda>r. rs_status r < 200) [demo_reply 100]" by (simp_all add: demo_reply_def)
  moreover have "cx_sip demo_ctx = sipgo_model" by (simp add: demo_ctx_def)
  ultimately have "cancelOutgoing (cx_sip demo_ctx) (run_acts (invite_to_trunk demo_ctx demo_config demo_invite ''6002'' ''200'' demo_trunk True
      (map TxResponse [demo_reply 100] @ TxResponse (demo_reply 407) # [TxResponse (demo_reply 180)])) demo_fs_proxy) ''call1'' = []"
    by (intro digest_retry_cannot_be_cancelled [THEN conjunct1] demo_invite_id) simp_all
  then show ?thesis by (simp add: demo_ctx_def)
qed

end
