(* ===== verification/Proxy_Fork.thy ===== *)
theory Proxy_Fork
  imports Proxy_Invite
begin

text \<open>
  FreeSWITCH calls a registered user (\<^verbatim>\<open>handleInviteFromFSToUser\<close> of
  \<^verbatim>\<open>sbc/proxy.go\<close>): the INVITE is forked to every live contact of the call's media
  type, each by a goroutine of its own, which reports to the handler through a buffered
  channel.

  \<open>fork\<close> is what the goroutines share, and \<open>fork_step\<close> one step of one of them: a branch is
  sent, gets a response, finds its transaction over, notes that its final response was seen,
  or finds the fork given up; the handler takes the next result; the caller cancels. A step
  that is not enabled does nothing, so every list of events is an interleaving.
\<close>

section \<open>Shared state\<close>

datatype branch_result = BranchFailed nat | BranchAnswer nat response

text \<open>\<open>br_fwd\<close> is the entry of \<^verbatim>\<open>branches\<close> (nil until the INVITE is out, then the
  request with its Via), \<open>br_posted\<close> whether the goroutine has put its last result into the
  channel, \<open>br_final\<close> its atomic flag, \<open>br_ended\<close> whether it has returned.\<close>

record branch =
  br_fwd :: "request option"
  br_posted :: bool
  br_final :: bool
  br_ended :: bool

datatype phase = Ringing | Finished bool  \<comment> \<open>established\<close>

record fork =
  fk_req :: request
  fk_aor :: string
  fk_callID :: string
  fk_fsAddr :: string
  fk_fsURI :: string
  fk_preps :: "(contact \<times> request) list"
  fk_cap :: nat
  fk_branches :: "branch list"
  fk_results :: "branch_result list"
  fk_pending :: nat
  fk_relayed :: bool
  fk_best :: "response option"
  fk_phase :: phase

definition new_branch :: branch where
  "new_branch = \<lparr>br_fwd = None, br_posted = False, br_final = False, br_ended = False\<rparr>"

section \<open>Starting\<close>

text \<open>One iteration of the loop that prepares the branches.\<close>

definition prepare_branch :: "sipgo \<Rightarrow> config \<Rightarrow> request \<Rightarrow> string \<Rightarrow> contact \<Rightarrow> (contact \<times> request) list" where
  "prepare_branch S cfg req toUser ct =
     (case buildForwardRequestWithURI cfg S req (contactDestinationURI (ct_URI ct) (ct_Address ct) toUser) of
        None \<Rightarrow> []
      | Some fwd \<Rightarrow>
          let fwd1 = fwd\<lparr>rq_dest := ct_Address ct\<rparr>;
              fwd2 = (if ct_IsWebRTC ct then fwd1\<lparr>rq_transport := ''ws''\<rparr> else fwd1)
          in [(ct, addRecordRoute cfg S ''from_fs'' fwd2)])"

definition handleInviteFromFSToUser ::
  "ctx \<Rightarrow> proxy \<Rightarrow> request \<Rightarrow> string \<Rightarrow> string \<Rightarrow> acts \<times> fork option" where
  "handleInviteFromFSToUser c p req toUser toDomain =
     (let S = cx_sip c; aor = toUser @ ''@'' @ toDomain; webrtc = isWebRTCSDP (rq_body req) in
      case rq_call_id req of
        None \<Rightarrow> ([Panic], None)
      | Some callID \<Rightarrow>
          let contacts = LookupByType (cx_now c) (px_reg p) aor webrtc in
          if length contacts = 0 then ([respond c req 480 ''Temporarily Unavailable''], None)
          else
            let fsAddr = rq_source req;
                fsURI = requestContactURI S req (addr_uri [] fsAddr);
                preps = concat (map (prepare_branch S (px_cfg p) req toUser) contacts);
                begin_acts = [Act (ESaveAffinity callID fsAddr [aor]), respond c req 100 ''Trying'']
            in if length preps = 0
               then (begin_acts @ [respond c req 480 ''Temporarily Unavailable'', Act (EDeleteAffinity callID [aor])], None)
               else (begin_acts @ [Act (EStoreActive callID \<lparr>ae_req = req, ae_client = PublicSide\<rparr>)],
                     Some \<lparr>fk_req = req, fk_aor = aor, fk_callID = callID, fk_fsAddr = fsAddr, fk_fsURI = fsURI,
                       fk_preps = preps, fk_cap = length contacts * 8,
                       fk_branches = replicate (length preps) new_branch, fk_results = [],
                       fk_pending = length preps, fk_relayed = False, fk_best = None, fk_phase = Ringing\<rparr>))"

section \<open>Cancelling branches\<close>

definition cancelBranch :: "sipgo \<Rightarrow> branch \<Rightarrow> acts" where
  "cancelBranch S b =
     (case br_fwd b of
        None \<Rightarrow> []
      | Some fwd \<Rightarrow>
          if br_final b then []
          else (case cancel_request S fwd of
                  None \<Rightarrow> [Panic]
                | Some cancelReq \<Rightarrow> write_checked S PublicSide (cancelReq\<lparr>rq_transport := rq_transport fwd\<rparr>)))"

definition cancel_siblings :: "sipgo \<Rightarrow> nat \<Rightarrow> branch list \<Rightarrow> acts" where
  "cancel_siblings S idx bs = concat (map (\<lambda>(i, b). if i \<noteq> idx then cancelBranch S b else []) (enumerate 0 bs))"

section \<open>The handler's loop\<close>

definition is_ringing :: "fork \<Rightarrow> bool" where
  "is_ringing f \<longleftrightarrow> (case fk_phase f of Ringing \<Rightarrow> True | Finished e \<Rightarrow> False)"

text \<open>The deferred calls, when the handler returns.\<close>

definition fork_defers :: "bool \<Rightarrow> fork \<Rightarrow> acts" where
  "fork_defers established f =
     Act (EDeleteActive (fk_callID f)) #
     (if established then [] else [Act (EDeleteAffinity (fk_callID f) [fk_aor f])])"

definition finish :: "bool \<Rightarrow> acts \<Rightarrow> fork \<Rightarrow> acts \<times> fork" where
  "finish established as f = (as @ fork_defers established f, f\<lparr>fk_phase := Finished established\<rparr>)"

text \<open>The loop's condition: with no branch pending, the best response is relayed.\<close>

definition fork_continue :: "ctx \<Rightarrow> acts \<Rightarrow> fork \<Rightarrow> acts \<times> fork" where
  "fork_continue c as f =
     (if fk_pending f > 0 then (as, f)
      else finish False (as @ [case fk_best f of
             Some best \<Rightarrow> Reply (relay_response (cx_sip c) (fk_req f) best)
           | None \<Rightarrow> respond c (fk_req f) 480 ''Temporarily Unavailable'']) f)"

definition fork_call :: "fork \<Rightarrow> contact \<Rightarrow> callState" where
  "fork_call f ct = \<lparr>cs_fsAddr = fk_fsAddr f, cs_fsURI = fk_fsURI f, cs_userAddr = ct_Address ct,
     cs_userURI = ct_URI ct, cs_userAORs = [fk_aor f], cs_isWebRTC = ct_IsWebRTC ct,
     cs_spoofedUser = [], cs_fsCSeqOffset = 0\<rparr>"

definition take_failure :: "ctx \<Rightarrow> nat \<Rightarrow> fork \<Rightarrow> acts \<times> fork" where
  "take_failure c i f =
     (let address = ct_Address (fst (fk_preps f ! i))
      in fork_continue c [Act (EReg (OpUnregisterContact (fk_aor f) address)), Act (ELapsed (fk_aor f))]
           (f\<lparr>fk_pending := fk_pending f - 1\<rparr>))"

definition take_answer :: "ctx \<Rightarrow> nat \<Rightarrow> response \<Rightarrow> fork \<Rightarrow> acts \<times> fork" where
  "take_answer c i resp f =
     (let S = cx_sip c; req = fk_req f in
      if rs_status resp = 100 then ([], f)
      else if rs_status resp < 200 then
        (if fk_relayed f then ([], f)
         else ([Reply (relay_response S req resp)], f\<lparr>fk_relayed := True\<rparr>))
      else
        let f1 = f\<lparr>fk_pending := fk_pending f - 1\<rparr> in
        if isGlobalFailure (rs_status resp) then
          finish False (cancel_siblings S i (fk_branches f)
            @ [Reply (sg_new_response S req (rs_status resp) (rs_reason resp) [])]) f1
        else if rs_status resp < 300 then
          finish True ([Act (EStoreCall (fk_callID f) (fork_call f (fst (fk_preps f ! i)))),
             Reply (relay_response S req resp)] @ cancel_siblings S i (fk_branches f)) f1
        else
          fork_continue c []
            (f1\<lparr>fk_best := (case fk_best f of
                  None \<Rightarrow> Some resp
                | Some best \<Rightarrow> if rs_status resp < rs_status best then Some resp else Some best)\<rparr>))"

definition take_result :: "ctx \<Rightarrow> fork \<Rightarrow> acts \<times> fork" where
  "take_result c f =
     (if is_ringing f then
        (case fk_results f of
           [] \<Rightarrow> ([], f)
         | BranchFailed i # rest \<Rightarrow> take_failure c i (f\<lparr>fk_results := rest\<rparr>)
         | BranchAnswer i resp # rest \<Rightarrow> take_answer c i resp (f\<lparr>fk_results := rest\<rparr>))
      else ([], f))"

section \<open>The branches' goroutines\<close>

datatype fork_event =
    Sent nat bool              \<comment> \<open>the branch's transaction is started, or could not be\<close>
  | Answer nat response
  | ResponsesClosed nat
  | TransactionDone nat bool   \<comment> \<open>with an error?\<close>
  | NoteFinal nat              \<comment> \<open>\<^verbatim>\<open>final.Store(true)\<close> and return\<close>
  | GivenUp nat                \<comment> \<open>\<^verbatim>\<open>branchCtx.Done()\<close>\<close>
  | Take
  | CallerCancels

definition set_branch :: "nat \<Rightarrow> branch \<Rightarrow> fork \<Rightarrow> fork" where
  "set_branch i b f = f\<lparr>fk_branches := (fk_branches f)[i := b]\<rparr>"

definition put_result :: "branch_result \<Rightarrow> fork \<Rightarrow> fork" where
  "put_result r f = f\<lparr>fk_results := fk_results f @ [r]\<rparr>"

definition has_room :: "fork \<Rightarrow> bool" where
  "has_room f \<longleftrightarrow> length (fk_results f) < fk_cap f"

text \<open>Inside the goroutine's loop: the INVITE is out and nothing final was seen yet.\<close>

definition listening :: "fork \<Rightarrow> nat \<Rightarrow> bool" where
  "listening f i \<longleftrightarrow> i < length (fk_branches f) \<and> br_fwd (fk_branches f ! i) \<noteq> None
     \<and> \<not> br_posted (fk_branches f ! i) \<and> \<not> br_ended (fk_branches f ! i)"

definition leave_branch :: "nat \<Rightarrow> bool \<Rightarrow> fork \<Rightarrow> acts \<times> fork" where
  "leave_branch i final f =
     (let b = fk_branches f ! i
      in (case br_fwd b of Some fwd \<Rightarrow> [Act (ETerminate fwd)] | None \<Rightarrow> [],
          set_branch i (b\<lparr>br_final := (final \<or> br_final b), br_ended := True\<rparr>) f))"

fun fork_step :: "ctx \<Rightarrow> fork_event \<Rightarrow> fork \<Rightarrow> acts \<times> fork" where
  "fork_step c (Sent i ok) f =
     (if i < length (fk_branches f) \<and> br_fwd (fk_branches f ! i) = None \<and> \<not> br_ended (fk_branches f ! i) then
        (let b = fk_branches f ! i in
         case (if ok then outgoing (cx_sip c) (snd (fk_preps f ! i)) else None) of
           Some fwd \<Rightarrow> ([Act (ETransaction PublicSide fwd)], set_branch i (b\<lparr>br_fwd := Some fwd\<rparr>) f)
         | None \<Rightarrow> if has_room f
                   then ([], set_branch i (b\<lparr>br_posted := True, br_ended := True\<rparr>) (put_result (BranchFailed i) f))
                   else ([], f))
      else ([], f))"
| "fork_step c (Answer i resp) f =
     (if listening f i \<and> has_room f then
        ([], set_branch i ((fk_branches f ! i)\<lparr>br_posted := (rs_status resp \<ge> 200)\<rparr>) (put_result (BranchAnswer i resp) f))
      else ([], f))"
| "fork_step c (ResponsesClosed i) f = (if listening f i then leave_branch i False f else ([], f))"
| "fork_step c (TransactionDone i err) f =
     (if listening f i then
        (if err then
           (if has_room f
            then ([], set_branch i ((fk_branches f ! i)\<lparr>br_posted := True\<rparr>) (put_result (BranchFailed i) f))
            else ([], f))
         else leave_branch i True f)
      else ([], f))"
| "fork_step c (NoteFinal i) f =
     (if i < length (fk_branches f) \<and> br_posted (fk_branches f ! i) \<and> \<not> br_ended (fk_branches f ! i)
      then leave_branch i True f else ([], f))"
| "fork_step c (GivenUp i) f =
     (if listening f i \<and> \<not> is_ringing f then leave_branch i False f else ([], f))"
| "fork_step c Take f = take_result c f"
| "fork_step c CallerCancels f =
     (concat (map (cancelBranch (cx_sip c)) (fk_branches f)), f)"

fun fork_run :: "ctx \<Rightarrow> fork_event list \<Rightarrow> fork \<Rightarrow> acts \<times> fork" where
  "fork_run c [] f = ([], f)"
| "fork_run c (ev # evs) f =
     (case fork_step c ev f of (as, f1) \<Rightarrow> case fork_run c evs f1 of (bs, f2) \<Rightarrow> (as @ bs, f2))"

section \<open>What the caller is told\<close>

text \<open>The results the handler takes in a run, and the final responses among them.\<close>

definition taken_now :: "fork_event \<Rightarrow> fork \<Rightarrow> branch_result list" where
  "taken_now ev f = (case ev of Take \<Rightarrow> if is_ringing f then take 1 (fk_results f) else [] | _ \<Rightarrow> [])"

fun fork_taken :: "ctx \<Rightarrow> fork_event list \<Rightarrow> fork \<Rightarrow> branch_result list" where
  "fork_taken c [] f = []"
| "fork_taken c (ev # evs) f = taken_now ev f @ fork_taken c evs (snd (fork_step c ev f))"

fun final_answer :: "branch_result \<Rightarrow> response list" where
  "final_answer (BranchFailed i) = []"
| "final_answer (BranchAnswer i r) = (if rs_status r \<ge> 200 then [r] else [])"

definition finals :: "branch_result list \<Rightarrow> response list" where
  "finals rs = concat (map final_answer rs)"

lemma finals_simps [simp]: "finals [] = []" "finals (r # rs) = final_answer r @ finals rs" "finals (a @ b) = finals a @ finals b"
  by (simp_all add: finals_def)

text \<open>The reference: the first contact that accepts or declines decides; if none does, the
  first of the responses with the lowest status is relayed, and 480 when there is none.\<close>

definition decisive :: "response \<Rightarrow> bool" where
  "decisive r \<longleftrightarrow> successful r \<or> isGlobalFailure (rs_status r)"

definition first_lowest :: "response list \<Rightarrow> response option" where
  "first_lowest rs = find (\<lambda>r. list_all (\<lambda>r'. rs_status r \<le> rs_status r') rs) rs"

definition verdict :: "sipgo \<Rightarrow> request \<Rightarrow> branch_result list \<Rightarrow> response" where
  "verdict S req rs =
     (case find decisive (finals rs) of
        Some r \<Rightarrow> if successful r then relay_response S req r
                  else sg_new_response S req (rs_status r) (rs_reason r) []
      | None \<Rightarrow> (case first_lowest (finals rs) of
                  Some r \<Rightarrow> relay_response S req r
                | None \<Rightarrow> sg_new_response S req 480 ''Temporarily Unavailable'' []))"

definition final_of :: "acts \<Rightarrow> response list" where
  "final_of as = filter (\<lambda>r. rs_status r \<ge> 200) (sent_replies as)"

lemma final_of_simps [simp]:
  "final_of [] = []" "final_of (Act e # as) = final_of as" "final_of (Panic # as) = final_of as"
  "final_of (Reply r # as) = (if rs_status r \<ge> 200 then r # final_of as else final_of as)"
  "final_of (as @ bs) = final_of as @ final_of bs"
  by (simp_all add: final_of_def)

lemma first_lowest_append:
  "first_lowest (rs @ [r]) =
     (case first_lowest rs of None \<Rightarrow> Some r | Some b \<Rightarrow> if rs_status r < rs_status b then Some r else Some b)"
proof -
  have exists: "first_lowest rs \<noteq> None" if "rs \<noteq> []" for rs :: "response list"
  proof -
    have "Min (rs_status ` set rs) \<in> rs_status ` set rs" using that by (intro Min_in) auto
    then obtain b where b: "b \<in> set rs" "rs_status b = Min (rs_status ` set rs)" by auto
    then have "\<forall>r' \<in> set rs. rs_status b \<le> rs_status r'" by simp
    with b(1) show ?thesis by (auto simp: first_lowest_def find_None_iff_all list_all_iff)
  qed
  show ?thesis
  proof (cases "first_lowest rs")
    case None
    with exists have "rs = []" by blast
    then show ?thesis by (simp add: first_lowest_def)
  next
    case (Some b)
    then have b: "b \<in> set rs" "\<forall>r' \<in> set rs. rs_status b \<le> rs_status r'"
      by (auto simp: first_lowest_def list_all_iff dest: find_SomeD)
    show ?thesis
    proof (cases "rs_status r < rs_status b")
      case True
      with b have "find (\<lambda>x. list_all (\<lambda>r'. rs_status x \<le> rs_status r') (rs @ [r])) rs = None"
        by (fastforce simp: find_None_iff_all list_all_iff)
      moreover have "list_all (\<lambda>r'. rs_status r \<le> rs_status r') (rs @ [r])"
        using True b by (force simp: list_all_iff)
      ultimately show ?thesis using Some True by (simp add: first_lowest_def find_append)
    next
      case False
      have "find (\<lambda>x. list_all (\<lambda>r'. rs_status x \<le> rs_status r') (rs @ [r])) rs = find (\<lambda>x. list_all (\<lambda>r'. rs_status x \<le> rs_status r') rs) rs"
      proof (rule find_cong [OF refl])
        fix x assume "x \<in> set rs"
        have "rs_status x \<le> rs_status r" if "\<forall>r' \<in> set rs. rs_status x \<le> rs_status r'" using that b(1) False by force
        then show "list_all (\<lambda>r'. rs_status x \<le> rs_status r') (rs @ [r]) = list_all (\<lambda>r'. rs_status x \<le> rs_status r') rs"
          by (auto simp: list_all_iff)
      qed
      with Some False show ?thesis by (simp add: first_lowest_def find_append)
    qed
  qed
qed

lemma sent_replies_write [simp]: "sent_replies (write_checked S sd r) = []"
  by (simp add: write_checked_def)

lemma sent_replies_cancel [simp]: "sent_replies (cancelBranch S b) = []"
  by (simp add: cancelBranch_def split: option.split)

lemma sent_replies_cancels [simp]:
  "sent_replies (cancel_siblings S i bs) = []" "sent_replies (concat (map (cancelBranch S) bs)) = []"
proof -
  have "sent_replies (concat (map (\<lambda>(j, b). if j \<noteq> i then cancelBranch S b else []) xs)) = []" for xs
    by (induction xs) auto
  then show "sent_replies (cancel_siblings S i bs) = []" by (simp add: cancel_siblings_def)
  show "sent_replies (concat (map (cancelBranch S) bs)) = []" by (induction bs) auto
qed

lemma final_of_cancels [simp]: "final_of (cancel_siblings S i bs) = []"
  by (simp add: final_of_def)

lemma leave_branch_simps [simp]:
  "sent_replies (fst (leave_branch i b f)) = []" "fk_phase (snd (leave_branch i b f)) = fk_phase f"
  "fk_best (snd (leave_branch i b f)) = fk_best f" "fk_req (snd (leave_branch i b f)) = fk_req f"
  "fk_results (snd (leave_branch i b f)) = fk_results f" "fk_pending (snd (leave_branch i b f)) = fk_pending f"
  by (simp_all add: leave_branch_def set_branch_def Let_def split: option.split)

lemma quiet_step:
  assumes "ev \<noteq> Take"
  shows "sent_replies (fst (fork_step c ev f)) = []" "fk_phase (snd (fork_step c ev f)) = fk_phase f"
    "fk_best (snd (fork_step c ev f)) = fk_best f" "fk_req (snd (fork_step c ev f)) = fk_req f"
  using assms by (cases ev; simp add: set_branch_def put_result_def Let_def split: option.split)+

lemma is_ringing_simps [simp]:
  "is_ringing (f\<lparr>fk_phase := Finished e\<rparr>) = False" "fk_phase f = Ringing \<Longrightarrow> is_ringing f"
  by (simp_all add: is_ringing_def)

lemma is_ringing_phase: "is_ringing f \<longleftrightarrow> fk_phase f = Ringing"
  by (simp add: is_ringing_def split: phase.split)

text \<open>While the handler rings, its state is what the reference says of the results taken.\<close>

definition fork_knows :: "fork \<Rightarrow> branch_result list \<Rightarrow> bool" where
  "fork_knows f h \<longleftrightarrow> find decisive (finals h) = None \<and> fk_best f = first_lowest (finals h)"

lemma final_fork_defers [simp]: "final_of (fork_defers e f) = []"
  by (simp add: fork_defers_def)

lemma finals_above: "r \<in> set (finals h) \<Longrightarrow> rs_status r \<ge> 200"
proof (induction h)
  case (Cons x h)
  then show ?case by (cases x) (auto split: if_splits)
qed simp

lemma first_lowest_in: "first_lowest rs = Some b \<Longrightarrow> b \<in> set rs"
  by (auto simp: first_lowest_def dest: find_SomeD)

lemma knows_above: "fork_knows f h \<Longrightarrow> fk_best f = Some b \<Longrightarrow> rs_status b \<ge> 200"
  by (metis fork_knows_def finals_above first_lowest_in)

lemma fork_continue_tells:
  assumes S: "sipgo_ok (cx_sip c)" and ring: "is_ringing f" and quiet: "final_of as = []"
    and knows: "fork_knows f h"
  shows "final_of (fst (fork_continue c as f)) =
     (if is_ringing (snd (fork_continue c as f)) then [] else [verdict (cx_sip c) (fk_req f) h])
    \<and> fk_req (snd (fork_continue c as f)) = fk_req f
    \<and> (is_ringing (snd (fork_continue c as f)) \<longrightarrow> fork_knows (snd (fork_continue c as f)) h)"
  using knows ring quiet knows_above [OF knows] relay_status(1) [OF S]
  by (auto simp: fork_continue_def finish_def verdict_def fork_knows_def respond_def sipgo_okD [OF S]
      split: option.split)

lemma fork_take_tells:
  assumes S: "sipgo_ok (cx_sip c)" and ring: "is_ringing f" and knows: "fork_knows f h"
  defines "f' \<equiv> snd (fork_step c Take f)" and "h' \<equiv> h @ taken_now Take f"
  shows "final_of (fst (fork_step c Take f)) = (if is_ringing f' then [] else [verdict (cx_sip c) (fk_req f) h'])
    \<and> fk_req f' = fk_req f \<and> (is_ringing f' \<longrightarrow> fork_knows f' h')"
proof (cases "fk_results f")
  case Nil
  with ring knows show ?thesis by (simp add: f'_def h'_def take_result_def taken_now_def)
next
  case (Cons res rest)
  have h': "h' = h @ [res]" using Cons ring by (simp add: h'_def taken_now_def)
  let ?f = "f\<lparr>fk_results := rest\<rparr>"
  have ring': "is_ringing ?f" using ring by (simp add: is_ringing_phase)
  show ?thesis
  proof (cases res)
    case (BranchFailed i)
    have "fork_knows (?f\<lparr>fk_pending := fk_pending ?f - 1\<rparr>) h'" using knows by (simp add: fork_knows_def h' BranchFailed)
    then show ?thesis
      unfolding f'_def using Cons ring BranchFailed fork_continue_tells [OF S, of "?f\<lparr>fk_pending := fk_pending ?f - 1\<rparr>" _ h']
      by (simp add: take_result_def take_failure_def is_ringing_phase)
  next
    case (BranchAnswer i r)
    have step: "take_result c f = take_answer c i r ?f" using Cons ring BranchAnswer by (simp add: take_result_def)
    consider "rs_status r < 200" | "decisive r" "rs_status r \<ge> 200" | "\<not> decisive r" "rs_status r \<ge> 200" by linarith
    then show ?thesis
    proof cases
      case 1
      then show ?thesis
        using knows ring relay_status(1) [OF S]
        by (auto simp: f'_def step take_answer_def Let_def fork_knows_def h' BranchAnswer is_ringing_phase)
    next
      case 2
      then have "find decisive (finals h') = Some r" using knows by (simp add: h' BranchAnswer fork_knows_def find_append)
      with 2 relay_status(1) [OF S] show ?thesis
        by (auto simp: f'_def step take_answer_def Let_def finish_def verdict_def decisive_def successful_def
            isGlobalFailure_def sipgo_okD [OF S])
    next
      case 3
      let ?best = "case fk_best f of None \<Rightarrow> Some r | Some best \<Rightarrow> if rs_status r < rs_status best then Some r else Some best"
      let ?g = "?f\<lparr>fk_pending := fk_pending f - 1, fk_best := ?best\<rparr>"
      have fin: "finals h' = finals h @ [r]" using 3 by (simp add: h' BranchAnswer)
      have best: "?best = first_lowest (finals h')"
        using knows by (simp add: fin first_lowest_append fork_knows_def cong: option.case_cong)
      have kn: "fork_knows ?g h'" using 3 knows best by (simp add: fork_knows_def fin find_append)
      have "take_result c f = fork_continue c [] ?g"
        using 3 by (auto simp: step take_answer_def Let_def decisive_def successful_def isGlobalFailure_def)
      with fork_continue_tells [OF S _ _ kn, of "[]"] ring show ?thesis
        unfolding f'_def by (simp add: is_ringing_phase)
    qed
  qed
qed

lemma fork_step_tells:
  fixes ev :: fork_event
  assumes S: "sipgo_ok (cx_sip c)" and ring: "is_ringing f" and knows: "fork_knows f h"
  defines "f' \<equiv> snd (fork_step c ev f)" and "h' \<equiv> h @ taken_now ev f"
  shows "final_of (fst (fork_step c ev f)) = (if is_ringing f' then [] else [verdict (cx_sip c) (fk_req f) h'])
    \<and> fk_req f' = fk_req f \<and> (is_ringing f' \<longrightarrow> fork_knows f' h')"
proof (cases "ev = Take")
  case True
  show ?thesis unfolding f'_def h'_def True by (rule fork_take_tells [OF S ring knows])
next
  case False
  then have "taken_now ev f = []" by (cases ev) (simp_all add: taken_now_def)
  with quiet_step [OF False, of c f] ring knows show ?thesis
    by (simp add: f'_def h'_def final_of_def fork_knows_def is_ringing_phase)
qed

lemma fork_over_quiet:
  "\<not> is_ringing f \<Longrightarrow> final_of (fst (fork_step c ev f)) = [] \<and> \<not> is_ringing (snd (fork_step c ev f)) \<and> taken_now ev f = []"
proof (cases "ev = Take")
  case False
  assume "\<not> is_ringing f"
  with quiet_step [OF False, of c f] show ?thesis
    by (cases ev) (auto simp: is_ringing_phase final_of_def taken_now_def)
qed (simp add: take_result_def taken_now_def)

lemma fork_run_over: "\<not> is_ringing f \<Longrightarrow> final_of (fst (fork_run c evs f)) = [] \<and> \<not> is_ringing (snd (fork_run c evs f))
    \<and> fork_taken c evs f = []"
proof (induction evs arbitrary: f)
  case (Cons ev evs)
  with fork_over_quiet [OF Cons.prems, of c ev] show ?case by (simp add: case_prod_unfold)
qed simp

lemma fork_run_tells:
  assumes "sipgo_ok (cx_sip c)"
  shows "is_ringing f \<Longrightarrow> fork_knows f h \<Longrightarrow>
    final_of (fst (fork_run c evs f)) =
      (if is_ringing (snd (fork_run c evs f)) then [] else [verdict (cx_sip c) (fk_req f) (h @ fork_taken c evs f)])"
proof (induction evs arbitrary: f h)
  case (Cons ev evs)
  note step = fork_step_tells [OF assms Cons.prems, of ev]
  show ?case
  proof (cases "is_ringing (snd (fork_step c ev f))")
    case True
    with step Cons.IH [of "snd (fork_step c ev f)" "h @ taken_now ev f"] show ?thesis by (simp add: case_prod_unfold)
  next
    case False
    with step fork_run_over [OF False, of c evs] show ?thesis by (simp add: case_prod_unfold)
  qed
qed simp

section \<open>When the call ends\<close>

definition result_index :: "branch_result \<Rightarrow> nat" where
  "result_index res = (case res of BranchFailed i \<Rightarrow> i | BranchAnswer i r \<Rightarrow> i)"

definition is_last :: "branch_result \<Rightarrow> bool" where
  "is_last res \<longleftrightarrow> (case res of BranchFailed i \<Rightarrow> True | BranchAnswer i r \<Rightarrow> rs_status r \<ge> 200)"

definition branch_ok :: "branch \<Rightarrow> bool" where
  "branch_ok b \<longleftrightarrow> (br_posted b \<longrightarrow> br_fwd b \<noteq> None \<or> br_ended b)"

text \<open>The invariant: a result in the channel is of a branch, an answer of one that is out;
  and the handler's counter is the number of branches that have not posted their last
  result plus the number of last results still in the channel.\<close>

definition outstanding :: "fork \<Rightarrow> nat" where
  "outstanding f = length (filter (\<lambda>b. \<not> br_posted b) (fk_branches f)) + length (filter is_last (fk_results f))"

fun result_ok :: "nat \<Rightarrow> branch list \<Rightarrow> branch_result \<Rightarrow> bool" where
  "result_ok n bs (BranchFailed i) \<longleftrightarrow> i < n"
| "result_ok n bs (BranchAnswer i r) \<longleftrightarrow> i < n \<and> br_fwd (bs ! i) \<noteq> None"

definition fork_ok :: "fork \<Rightarrow> bool" where
  "fork_ok f \<longleftrightarrow> length (fk_branches f) = length (fk_preps f) \<and> (\<forall>b \<in> set (fk_branches f). branch_ok b)
     \<and> (\<forall>res \<in> set (fk_results f). result_ok (length (fk_preps f)) (fk_branches f) res)
     \<and> (is_ringing f \<longrightarrow> 0 < fk_pending f \<and> fk_pending f = outstanding f)"

lemma length_filter_update:
  "i < length xs \<Longrightarrow> length (filter P (xs[i := x])) + (if P (xs ! i) then 1 else 0)
     = length (filter P xs) + (if P x then 1 else 0)"
proof (induction xs arbitrary: i)
  case (Cons y ys)
  then show ?case by (cases i) auto
qed simp

lemma fork_ok_parts:
  assumes "fork_ok f" "i < length (fk_branches f)" "branch_ok b"
    and "br_fwd (fk_branches f ! i) \<noteq> None \<Longrightarrow> br_fwd b \<noteq> None"
  shows "\<forall>x \<in> set ((fk_branches f)[i := b]). branch_ok x"
    and "\<forall>res \<in> set (fk_results f). result_ok (length (fk_preps f)) ((fk_branches f)[i := b]) res"
proof -
  from assms(1) have "\<forall>x \<in> set (fk_branches f). branch_ok x" by (simp add: fork_ok_def)
  with assms(3) show "\<forall>x \<in> set ((fk_branches f)[i := b]). branch_ok x"
    using set_update_subset_insert [of "fk_branches f" i b] by blast
  have "br_fwd (fk_branches f ! j) \<noteq> None \<Longrightarrow> br_fwd ((fk_branches f)[i := b] ! j) \<noteq> None" for j
    using assms(2,4) by (cases "j = i") simp_all
  then have "result_ok n (fk_branches f) res \<Longrightarrow> result_ok n ((fk_branches f)[i := b]) res" for n res
    by (cases res) auto
  with assms(1) show "\<forall>res \<in> set (fk_results f). result_ok (length (fk_preps f)) ((fk_branches f)[i := b]) res"
    by (simp add: fork_ok_def)
qed

lemma fork_ok_set:
  assumes "fork_ok f" "i < length (fk_branches f)" "branch_ok b"
    and "br_posted b = br_posted (fk_branches f ! i)" "br_fwd (fk_branches f ! i) \<noteq> None \<Longrightarrow> br_fwd b \<noteq> None"
  shows "fork_ok (set_branch i b f)"
proof -
  have "outstanding (set_branch i b f) = outstanding f"
    using length_filter_update [OF assms(2), of "\<lambda>b. \<not> br_posted b" b] assms(4)
    by (simp add: outstanding_def set_branch_def split: if_splits)
  moreover note fork_ok_parts [OF assms(1-3,5)]
  ultimately show ?thesis using assms(1) by (auto simp: fork_ok_def set_branch_def is_ringing_phase)
qed

lemma fork_ok_post:
  assumes "fork_ok f" "i < length (fk_branches f)" "branch_ok b"
    and "\<not> br_posted (fk_branches f ! i)" "br_fwd (fk_branches f ! i) \<noteq> None \<Longrightarrow> br_fwd b \<noteq> None"
    and "result_index res = i" "is_last res = br_posted b" "\<And>r. res = BranchAnswer i r \<Longrightarrow> br_fwd b \<noteq> None"
  shows "fork_ok (set_branch i b (put_result res f))"
proof -
  let ?f = "set_branch i b (put_result res f)"
  have "outstanding ?f = outstanding f"
    using length_filter_update [OF assms(2), of "\<lambda>b. \<not> br_posted b" b] assms(4,7)
    by (simp add: outstanding_def set_branch_def put_result_def split: if_splits)
  moreover have "result_ok (length (fk_preps f)) ((fk_branches f)[i := b]) res"
    using assms(1,2,6,8) by (cases res) (simp_all add: result_index_def fork_ok_def)
  moreover note fork_ok_parts [OF assms(1-3,5)]
  ultimately show ?thesis using assms(1) by (auto simp: fork_ok_def set_branch_def put_result_def is_ringing_phase)
qed

lemma fork_ok_change:
  assumes "fork_ok f" "fk_branches g = fk_branches f" "fk_preps g = fk_preps f"
    and "set (fk_results g) \<subseteq> set (fk_results f)" "is_ringing g \<Longrightarrow> 0 < fk_pending g \<and> fk_pending g = outstanding g"
  shows "fork_ok g"
  using assms by (auto simp: fork_ok_def)

lemma fork_continue_branches [simp]:
  "fk_branches (snd (fork_continue c as f)) = fk_branches f" "fk_preps (snd (fork_continue c as f)) = fk_preps f"
  "fk_results (snd (fork_continue c as f)) = fk_results f"
  by (simp_all add: fork_continue_def finish_def)

lemma fork_ok_continue:
  assumes "fork_ok f" "fk_branches g = fk_branches f" "fk_preps g = fk_preps f"
    and "set (fk_results g) \<subseteq> set (fk_results f)" "fk_pending g = outstanding g"
  shows "fork_ok (snd (fork_continue c as g))"
proof (rule fork_ok_change [OF assms(1)])
  assume "is_ringing (snd (fork_continue c as g))"
  with assms(5) show "0 < fk_pending (snd (fork_continue c as g))
      \<and> fk_pending (snd (fork_continue c as g)) = outstanding (snd (fork_continue c as g))"
    by (simp add: fork_continue_def finish_def split: if_splits)
qed (use assms in simp_all)

lemma fork_ok_take:
  assumes "fork_ok f"
  shows "fork_ok (snd (take_result c f))"
proof (cases "is_ringing f \<and> fk_results f \<noteq> []")
  case False
  with assms show ?thesis by (auto simp: take_result_def)
next
  case True
  then obtain res rest where q: "fk_results f = res # rest" by (cases "fk_results f") auto
  have pend: "fk_pending f = outstanding f" "0 < fk_pending f" using assms True by (simp_all add: fork_ok_def)
  have out: "outstanding (f\<lparr>fk_results := rest\<rparr>) + (if is_last res then 1 else 0) = outstanding f"
    by (simp add: outstanding_def q)
  have same: "outstanding (g\<lparr>fk_pending := n\<rparr>) = outstanding g" "outstanding (g\<lparr>fk_best := b\<rparr>) = outstanding g"
    "outstanding (g\<lparr>fk_relayed := r\<rparr>) = outstanding g" for g n b r
    by (simp_all add: outstanding_def)
  show ?thesis
  proof (cases res)
    case (BranchFailed i)
    with out pend show ?thesis
      using True q same by (auto simp: take_result_def take_failure_def is_last_def Let_def intro!: fork_ok_continue [OF assms])
  next
    case (BranchAnswer i r)
    show ?thesis
    proof (cases "rs_status r < 200")
      case True
      with out pend BranchAnswer have "fk_pending f = outstanding (f\<lparr>fk_results := rest\<rparr>)" by (simp add: is_last_def)
      with True pend q BranchAnswer \<open>is_ringing f \<and> fk_results f \<noteq> []\<close> same show ?thesis
        by (auto simp: take_result_def take_answer_def Let_def intro!: fork_ok_change [OF assms])
    next
      case False
      with out pend BranchAnswer have "fk_pending f - 1 = outstanding (f\<lparr>fk_results := rest\<rparr>)" by (simp add: is_last_def)
      with False q BranchAnswer \<open>is_ringing f \<and> fk_results f \<noteq> []\<close> same show ?thesis
        by (auto simp: take_result_def take_answer_def finish_def Let_def intro!: fork_ok_continue [OF assms]
            intro: fork_ok_change [OF assms])
    qed
  qed
qed

lemma branch_ok_nth: "fork_ok f \<Longrightarrow> i < length (fk_branches f) \<Longrightarrow> branch_ok (fk_branches f ! i)"
  by (simp add: fork_ok_def)

lemma fork_ok_leave:
  "fork_ok f \<Longrightarrow> i < length (fk_branches f) \<Longrightarrow> fork_ok (snd (leave_branch i b f))"
  by (simp add: leave_branch_def Let_def) (rule fork_ok_set, simp_all add: branch_ok_def)

lemma fork_ok_step: "fork_ok f \<Longrightarrow> fork_ok (snd (fork_step c ev f))"
proof (cases ev)
  case (Sent i ok)
  assume f: "fork_ok f"
  let ?b = "fk_branches f ! i"
  show ?thesis
  proof (cases "i < length (fk_branches f) \<and> br_fwd ?b = None \<and> \<not> br_ended ?b")
    case True
    with branch_ok_nth [OF f, of i] have np: "\<not> br_posted ?b" by (auto simp: branch_ok_def)
    have "fork_ok (set_branch i (?b\<lparr>br_fwd := Some fwd\<rparr>) f)" for fwd
      using f True by (intro fork_ok_set) (simp_all add: branch_ok_def)
    moreover have "fork_ok (set_branch i (?b\<lparr>br_posted := True, br_ended := True\<rparr>) (put_result (BranchFailed i) f))"
      using f True np by (intro fork_ok_post) (simp_all add: branch_ok_def result_index_def is_last_def)
    ultimately show ?thesis using f True Sent by (simp add: Let_def split: option.split)
  qed (use f Sent in auto)
next
  case (Answer i r)
  assume f: "fork_ok f"
  show ?thesis
  proof (cases "listening f i \<and> has_room f")
    case True
    then have "fork_ok (set_branch i ((fk_branches f ! i)\<lparr>br_posted := (rs_status r \<ge> 200)\<rparr>) (put_result (BranchAnswer i r) f))"
      using f by (intro fork_ok_post) (simp_all add: branch_ok_def result_index_def is_last_def listening_def)
    with True Answer show ?thesis by simp
  qed (use f Answer in auto)
next
  case (TransactionDone i err)
  assume f: "fork_ok f"
  have "fork_ok (set_branch i ((fk_branches f ! i)\<lparr>br_posted := True\<rparr>) (put_result (BranchFailed i) f))" if "listening f i"
    using f that by (intro fork_ok_post) (simp_all add: branch_ok_def result_index_def is_last_def listening_def)
  moreover have "i < length (fk_branches f)" if "listening f i" using that by (simp add: listening_def)
  ultimately show ?thesis using f TransactionDone fork_ok_leave [OF f] by simp
qed (simp_all add: fork_ok_leave fork_ok_take listening_def)

lemma fork_ok_run: "fork_ok f \<Longrightarrow> fork_ok (snd (fork_run c evs f))"
  by (induction evs arbitrary: f) (simp_all add: case_prod_unfold fork_ok_step)

text \<open>The fork a call starts with.\<close>

lemma started_fork:
  assumes "snd (handleInviteFromFSToUser c p req toUser toDomain) = Some f"
  shows "fk_phase f = Ringing" "fk_best f = None" "fk_results f = []" "fk_req f = req"
    "fk_branches f = replicate (length (fk_preps f)) new_branch" "fk_pending f = length (fk_preps f)" "fk_preps f \<noteq> []"
    "rq_call_id req = Some (fk_callID f)" "fk_aor f = toUser @ ''@'' @ toDomain"
    "fk_fsAddr f = rq_source req"
  using assms by (auto simp: handleInviteFromFSToUser_def Let_def split: option.splits if_splits)

lemma fork_ok_started:
  assumes "snd (handleInviteFromFSToUser c p req toUser toDomain) = Some f"
  shows "fork_ok f" "is_ringing f" "fork_knows f []"
proof -
  note st = started_fork [OF assms]
  show "is_ringing f" by (simp add: is_ringing_phase st(1))
  show "fork_knows f []" by (simp add: fork_knows_def st(2) first_lowest_def)
  have "outstanding f = length (fk_preps f)" by (simp add: outstanding_def st(3,5) new_branch_def)
  then show "fork_ok f" unfolding fork_ok_def st(3,6) using st(7) by (auto simp: st(5) branch_ok_def new_branch_def)
qed

text \<open>
  Property (C3). However the branches of a fork run and interleave, the caller gets no final answer while the
  handler still waits, and exactly one when it stops: that of the first contact whose
  acceptance or decline is taken from the channel, else the first response with the lowest
  status, else 480. And the handler stops: while it waits with an empty channel, some branch
  has not posted its last result.
\<close>

theorem fork_answers_once:
  fixes evs :: "fork_event list"
  assumes "sipgo_ok (cx_sip c)"
    and "snd (handleInviteFromFSToUser c p req toUser toDomain) = Some f"
  defines "f' \<equiv> snd (fork_run c evs f)"
  shows "final_of (fst (fork_run c evs f)) =
      (if is_ringing f' then [] else [verdict (cx_sip c) req (fork_taken c evs f)])
    \<and> (is_ringing f' \<and> fk_results f' = [] \<longrightarrow> (\<exists>b \<in> set (fk_branches f'). \<not> br_posted b))"
proof -
  note f = fork_ok_started [OF assms(2)]
  have "fork_ok f'" using f(1) by (simp add: f'_def fork_ok_run)
  then have "is_ringing f' \<and> fk_results f' = [] \<Longrightarrow> filter (\<lambda>b. \<not> br_posted b) (fk_branches f') \<noteq> []"
    by (auto simp: fork_ok_def outstanding_def)
  then have "is_ringing f' \<and> fk_results f' = [] \<Longrightarrow> \<exists>b \<in> set (fk_branches f'). \<not> br_posted b"
    by (auto simp: filter_empty_conv)
  with fork_run_tells [OF assms(1) f(2,3), of evs] started_fork(4) [OF assms(2)] show ?thesis
    unfolding f'_def by simp
qed

section \<open>The call is recorded before its 2xx goes out\<close>

text \<open>What cancelling and leaving a branch do: nothing that answers or records.\<close>

definition wire_only :: "effect act \<Rightarrow> bool" where
  "wire_only a \<longleftrightarrow> (case a of Reply r \<Rightarrow> False | Panic \<Rightarrow> True
     | Act (EWrite sd r) \<Rightarrow> True | Act (ETransaction sd r) \<Rightarrow> True | Act (ETerminate r) \<Rightarrow> True | Act e \<Rightarrow> False)"

lemma wire_only_write [simp]: "list_all wire_only (write_checked S sd r)"
  by (simp add: write_checked_def wire_only_def)

lemma wire_only_cancel [simp]: "list_all wire_only (cancelBranch S b)"
  by (simp add: cancelBranch_def wire_only_def split: option.split)

lemma wire_only_cancels [simp]:
  "list_all wire_only (cancel_siblings S i bs)" "list_all wire_only (concat (map (cancelBranch S) bs))"
proof -
  have "list_all wire_only (concat (map (\<lambda>(j, b). if j \<noteq> i then cancelBranch S b else []) xs))" for xs
    by (induction xs) auto
  then show "list_all wire_only (cancel_siblings S i bs)" by (simp add: cancel_siblings_def)
  show "list_all wire_only (concat (map (cancelBranch S) bs))" by (induction bs) auto
qed

lemma wire_only_leave [simp]: "list_all wire_only (fst (leave_branch i b f))"
  by (simp add: leave_branch_def Let_def wire_only_def split: option.split)

lemma wire_only_step: "ev \<noteq> Take \<Longrightarrow> list_all wire_only (fst (fork_step c ev f))"
  by (cases ev) (simp_all add: Let_def wire_only_def split: option.split)

lemma wire_only_no_success: "wire_only a \<Longrightarrow> no_success a"
  by (auto simp: wire_only_def no_success_def split: act.splits effect.splits)

lemma do_wire_only: "wire_only a \<Longrightarrow> do_act a q = q"
proof (cases a)
  case (Act e)
  assume "wire_only a"
  then show ?thesis unfolding Act by (cases e) (simp_all add: wire_only_def)
qed simp_all

lemma run_wire_only: "list_all wire_only as \<Longrightarrow> run_acts as q = q"
  by (induction as) (simp_all add: do_wire_only)

lemma recorded_first_wire: "list_all wire_only as \<Longrightarrow> recorded_first k b as"
  by (rule recorded_first_none) (auto simp: list_all_iff wire_only_no_success)

lemma recorded_first_wire_append: "list_all wire_only as \<Longrightarrow> recorded_first k False bs \<Longrightarrow> recorded_first k b (as @ bs)"
  by (rule recorded_first_append [OF recorded_first_wire])

lemma fork_defers_recorded: "recorded_first k b (fork_defers e f)"
  by (simp add: fork_defers_def)

lemma fork_continue_recorded:
  assumes "sipgo_ok (cx_sip c)" "recorded_first k False as" "fork_knows f h"
  shows "recorded_first k False (fst (fork_continue c as f))"
proof -
  have "\<not> successful b" if "fk_best f = Some b" for b
    using that assms(3) first_lowest_in by (fastforce simp: fork_knows_def decisive_def find_None_iff_all)
  then have "recorded_first k False ((case fk_best f of
             Some best \<Rightarrow> Reply (relay_response (cx_sip c) (fk_req f) best)
           | None \<Rightarrow> respond c (fk_req f) 480 ''Temporarily Unavailable'') # fork_defers False f)"
    using assms(1) by (auto simp: recorded_first_respond successful_relay fork_defers_recorded split: option.split)
  with assms(2) show ?thesis by (simp add: fork_continue_def finish_def recorded_first_append)
qed

lemma fork_step_recorded:
  assumes S: "sipgo_ok (cx_sip c)" and knows: "is_ringing f \<Longrightarrow> fork_knows f h"
  shows "recorded_first (fk_callID f) False (fst (fork_step c ev f))"
proof (cases "ev = Take \<and> is_ringing f \<and> fk_results f \<noteq> []")
  case False
  then show ?thesis
  proof (cases "ev = Take")
    case True
    with False show ?thesis by (auto simp: take_result_def)
  qed (simp add: recorded_first_wire wire_only_step)
next
  case True
  then obtain res rest where q: "fk_results f = res # rest" by (cases "fk_results f") auto
  let ?f = "f\<lparr>fk_results := rest\<rparr>"
  have kn: "fork_knows f h" using knows True by simp
  show ?thesis
  proof (cases res)
    case (BranchFailed i)
    have "fork_knows (?f\<lparr>fk_pending := fk_pending ?f - 1\<rparr>) h" using kn by (simp add: fork_knows_def)
    from fork_continue_recorded [OF S _ this] True q BranchFailed show ?thesis
      by (simp add: take_result_def take_failure_def Let_def)
  next
    case (BranchAnswer i r)
    have step: "take_result c f = take_answer c i r ?f" using True q BranchAnswer by (simp add: take_result_def)
    consider "rs_status r < 200" | "decisive r" "rs_status r \<ge> 200" | "\<not> decisive r" "rs_status r \<ge> 200" by linarith
    then show ?thesis
    proof cases
      case 1
      with True relay_status(1) [OF S] show ?thesis by (simp add: step take_answer_def Let_def successful_def)
    next
      case 2
      with True S show ?thesis
        by (auto simp: step take_answer_def Let_def finish_def decisive_def successful_relay successful_def isGlobalFailure_def
            sipgo_okD fork_defers_recorded intro!: recorded_first_wire_append)
    next
      case 3
      let ?best = "case fk_best f of None \<Rightarrow> Some r | Some best \<Rightarrow> if rs_status r < rs_status best then Some r else Some best"
      let ?g = "?f\<lparr>fk_pending := fk_pending f - 1, fk_best := ?best\<rparr>"
      have fin: "final_answer res = [r]" using 3 by (simp add: BranchAnswer)
      have best: "?best = first_lowest (finals (h @ [res]))"
        using kn by (simp add: fin first_lowest_append fork_knows_def cong: option.case_cong)
      have "fork_knows ?g (h @ [res])" using 3 kn best by (simp add: fork_knows_def fin find_append)
      moreover have "take_result c f = fork_continue c [] ?g"
        using 3 by (auto simp: step take_answer_def Let_def decisive_def successful_def isGlobalFailure_def)
      ultimately show ?thesis using True fork_continue_recorded [OF S, of _ "[]" ?g] by simp
    qed
  qed
qed

lemma fork_step_callID [simp]: "fk_callID (snd (fork_step c ev f)) = fk_callID f" "fk_aor (snd (fork_step c ev f)) = fk_aor f"
proof -
  have take: "fk_callID (snd (take_result c f)) = fk_callID f \<and> fk_aor (snd (take_result c f)) = fk_aor f"
    by (simp add: take_result_def take_failure_def take_answer_def fork_continue_def finish_def Let_def
        split: list.split branch_result.split)
  have leave: "fk_callID (snd (leave_branch i b f)) = fk_callID f \<and> fk_aor (snd (leave_branch i b f)) = fk_aor f" for i b
    by (simp add: leave_branch_def set_branch_def Let_def)
  show "fk_callID (snd (fork_step c ev f)) = fk_callID f" "fk_aor (snd (fork_step c ev f)) = fk_aor f"
    using take leave by (cases ev; simp add: set_branch_def put_result_def Let_def split: option.split)+
qed

lemma fork_run_recorded:
  assumes "sipgo_ok (cx_sip c)"
  shows "(is_ringing f \<Longrightarrow> fork_knows f h) \<Longrightarrow> recorded_first (fk_callID f) False (fst (fork_run c evs f))"
proof (induction evs arbitrary: f h)
  case (Cons ev evs)
  let ?f = "snd (fork_step c ev f)"
  have "fork_knows ?f (h @ taken_now ev f)" if "is_ringing ?f"
  proof (cases "is_ringing f")
    case True
    with fork_step_tells [OF assms True Cons.prems [OF True], of ev] that show ?thesis by simp
  qed (use fork_over_quiet [of f c ev] that in simp)
  from Cons.IH [OF this] fork_step_recorded [OF assms Cons.prems, of ev] show ?case
    by (simp add: case_prod_unfold recorded_first_append)
qed simp

section \<open>What a forked call leaves behind\<close>

text \<open>The part of the state a call lives in.\<close>

definition call_view :: "proxy \<Rightarrow> (string, callState) gomap \<times> (string, activeTxEntry) gomap \<times> affinity" where
  "call_view q = (px_calls q, px_activeTx q, px_affinity q)"

definition forgotten :: "fork \<Rightarrow> proxy \<Rightarrow> (string, callState) gomap \<times> (string, activeTxEntry) gomap \<times> affinity" where
  "forgotten f q = (px_calls q, gm_del (fk_callID f) (px_activeTx q), deleteAffinity (fk_callID f) [fk_aor f] (px_affinity q))"

text \<open>A step keeps the view while the handler's state stays what it is; when the handler
  stops without an established call, the call is forgotten.\<close>

definition tidy :: "fork \<Rightarrow> acts \<times> fork \<Rightarrow> bool" where
  "tidy f res \<longleftrightarrow> (\<forall>q. (fk_phase (snd res) = fk_phase f \<longrightarrow> call_view (run_acts (fst res) q) = call_view q)
     \<and> (is_ringing f \<and> fk_phase (snd res) = Finished False \<longrightarrow> call_view (run_acts (fst res) q) = forgotten f q))"

lemma tidy_continue:
  assumes "\<And>q. call_view (run_acts as q) = call_view q" "fk_callID g = fk_callID f" "fk_aor g = fk_aor f"
    "is_ringing f" "is_ringing g"
  shows "tidy f (fork_continue c as g)"
  using assms by (auto simp: tidy_def fork_continue_def finish_def fork_defers_def is_ringing_phase call_view_def
      forgotten_def split: option.split)

lemma tidy_step: "tidy f (fork_step c ev f)"
proof (cases "ev = Take")
  case False
  then show ?thesis
    using quiet_step(2) [OF False, of c f] run_wire_only [OF wire_only_step [OF False]]
    by (auto simp: tidy_def is_ringing_phase)
next
  case True
  show ?thesis
  proof (cases "is_ringing f \<and> fk_results f \<noteq> []")
    case False
    with True show ?thesis by (auto simp: tidy_def take_result_def is_ringing_phase)
  next
    case ring: True
    then obtain res rest where q: "fk_results f = res # rest" by (cases "fk_results f") auto
    have "tidy f (take_result c f)"
    proof (cases res)
      case (BranchFailed i)
      with ring q show ?thesis
        by (auto simp: take_result_def take_failure_def Let_def is_ringing_phase call_view_def intro!: tidy_continue)
    next
      case (BranchAnswer i r)
      let ?f = "f\<lparr>fk_results := rest\<rparr>"
      have "tidy f (take_answer c i r ?f)"
        using ring run_wire_only [OF wire_only_cancels(1), of "cx_sip c" i "fk_branches f"]
        unfolding take_answer_def Let_def
        by (auto simp: is_ringing_phase call_view_def intro!: tidy_continue)
          (auto simp: tidy_def finish_def fork_defers_def forgotten_def call_view_def)
      with ring q BranchAnswer show ?thesis by (simp add: take_result_def)
    qed
    with True show ?thesis by simp
  qed
qed

lemma fork_over_phase: "\<not> is_ringing f \<Longrightarrow> fk_phase (snd (fork_step c ev f)) = fk_phase f"
  by (cases "ev = Take") (simp_all add: quiet_step take_result_def)

lemma forgotten_cong: "call_view q = call_view q' \<Longrightarrow> fk_callID g = fk_callID f \<Longrightarrow> fk_aor g = fk_aor f \<Longrightarrow> forgotten g q = forgotten f q'"
  by (simp add: forgotten_def call_view_def)

lemma fork_run_over_view:
  "\<not> is_ringing f \<Longrightarrow> call_view (run_acts (fst (fork_run c evs f)) q) = call_view q \<and> fk_phase (snd (fork_run c evs f)) = fk_phase f"
proof (induction evs arbitrary: f q)
  case (Cons ev evs)
  note ph = fork_over_phase [OF Cons.prems, of c ev]
  with Cons.prems have "\<not> is_ringing (snd (fork_step c ev f))" by (simp add: is_ringing_phase)
  from Cons.IH [OF this] ph tidy_step [of f c ev] show ?case by (simp add: case_prod_unfold tidy_def)
qed simp

lemma fork_run_view:
  "is_ringing f \<Longrightarrow> fk_phase (snd (fork_run c evs f)) = Finished False \<Longrightarrow>
     call_view (run_acts (fst (fork_run c evs f)) q) = forgotten f q"
proof (induction evs arbitrary: f q)
  case Nil
  then show ?case by (simp add: is_ringing_phase)
next
  case (Cons ev evs)
  let ?f = "snd (fork_step c ev f)" and ?q = "run_acts (fst (fork_step c ev f)) q"
  note tidy = tidy_step [of f c ev]
  show ?case
  proof (cases "is_ringing ?f")
    case True
    with Cons.prems(1) tidy have "call_view ?q = call_view q" by (simp add: tidy_def is_ringing_phase)
    then have "forgotten ?f ?q = forgotten f q" by (rule forgotten_cong) simp_all
    with Cons.IH [OF True, of ?q] Cons.prems(2) show ?thesis by (simp add: case_prod_unfold)
  next
    case False
    note over = fork_run_over_view [OF False, of c evs]
    with Cons.prems(2) have "fk_phase ?f = Finished False" by (simp add: case_prod_unfold)
    with Cons.prems(1) tidy have "call_view ?q = forgotten f q" by (simp add: tidy_def)
    with over show ?thesis by (simp add: case_prod_unfold)
  qed
qed

text \<open>
  Property (C12). A forked call nobody answers leaves nothing behind: when the handler has stopped without an
  established call, the recorded calls, the entry kept for CANCEL and every user's pinned
  calls are what they were before the INVITE arrived.
\<close>

theorem unanswered_fork_leaves_nothing:
  fixes q :: proxy and evs :: "fork_event list"
  assumes start: "handleInviteFromFSToUser c p req toUser toDomain = (as, Some f)"
    and over: "fk_phase (snd (fork_run c evs f)) = Finished False"
    and before: "aff_ok (px_affinity q)" "\<And>u. pin_of (px_affinity q) u (fk_callID f) = None"
      "gm_get (px_activeTx q) (fk_callID f) = None"
  defines "q' \<equiv> run_acts (as @ fst (fork_run c evs f)) q"
  shows "px_calls q' = px_calls q \<and> gm_get (px_activeTx q') k = gm_get (px_activeTx q) k
    \<and> pin_of (px_affinity q') u k = pin_of (px_affinity q) u k"
proof -
  have "snd (handleInviteFromFSToUser c p req toUser toDomain) = Some f" by (simp add: start)
  note ring = fork_ok_started(2) [OF this] and ids = started_fork(8-10) [OF this]
  have "as = [Act (ESaveAffinity (fk_callID f) (fk_fsAddr f) [fk_aor f]), respond c req 100 ''Trying'',
      Act (EStoreActive (fk_callID f) \<lparr>ae_req = req, ae_client = PublicSide\<rparr>)]"
    using start ids by (auto simp: handleInviteFromFSToUser_def Let_def split: if_splits)
  then have "call_view q' = (px_calls q, gm_del (fk_callID f) (gm_set (fk_callID f) \<lparr>ae_req = req, ae_client = PublicSide\<rparr> (px_activeTx q)),
      deleteAffinity (fk_callID f) [fk_aor f] (saveAffinity (fk_callID f) (fk_fsAddr f) [fk_aor f] (px_affinity q)))"
    using fork_run_view [OF ring over] by (simp add: q'_def forgotten_def)
  moreover have "pin_of (deleteAffinity (fk_callID f) us (saveAffinity (fk_callID f) a us (px_affinity q))) u k = pin_of (px_affinity q) u k" for us a
    using before(2) pins.pin_save [OF before(1)] pins.pin_drop [OF pins.ok_save [OF before(1)]] by (auto split: if_splits)
  ultimately show ?thesis using before(3) by (simp add: call_view_def)
qed

text \<open>
  A branch that is not out when the handler stops is never cancelled afterwards.
\<close>

lemma no_cancel_after:
  "\<not> is_ringing f \<Longrightarrow> CallerCancels \<notin> set evs \<Longrightarrow> Act (EWrite sd r) \<notin> set (fst (fork_run c evs f))"
proof (induction evs arbitrary: f)
  case (Cons ev evs)
  have "Act (EWrite sd r) \<notin> set (fst (fork_step c ev f))"
    using Cons.prems by (cases ev) (auto simp: leave_branch_def take_result_def Let_def split: option.splits if_splits)
  with Cons fork_over_quiet [OF Cons.prems(1), of c ev] show ?case by (simp add: case_prod_unfold)
qed simp

text \<open>
  A branch whose INVITE goes out after the call was answered elsewhere is never cancelled: its
  goroutine sends the INVITE, and whatever happens next, no CANCEL for it (or anything else)
  is written unless the caller cancels; it is only forgotten.
\<close>

theorem late_branch_is_not_cancelled:
  assumes "\<not> is_ringing f" "i < length (fk_branches f)" "fk_branches f ! i = new_branch"
    and "outgoing (cx_sip c) (snd (fk_preps f ! i)) = Some fwd" "CallerCancels \<notin> set evs"
  shows "hd (fst (fork_run c (Sent i True # evs) f)) = Act (ETransaction PublicSide fwd)
    \<and> Act (EWrite sd r) \<notin> set (fst (fork_run c (Sent i True # evs) f))"
proof -
  have "fst (fork_step c (Sent i True) f) = [Act (ETransaction PublicSide fwd)]"
    using assms(2-4) by (simp add: new_branch_def)
  then have "hd (fst (fork_run c (Sent i True # evs) f)) = Act (ETransaction PublicSide fwd)"
    by (simp add: case_prod_unfold)
  with no_cancel_after [OF assms(1), of "Sent i True # evs" sd r c] assms(5) show ?thesis by simp
qed

section \<open>Whether the handler stops\<close>

lemma take_result_channel:
  "is_ringing f \<Longrightarrow> fk_results (snd (take_result c f)) = tl (fk_results f)"
  "fk_branches (snd (take_result c f)) = fk_branches f"
  by (simp_all add: take_result_def take_failure_def take_answer_def finish_def Let_def split: list.split branch_result.split)

lemma drained:
  "fork_ok f \<Longrightarrow> \<forall>b \<in> set (fk_branches f). br_posted b \<Longrightarrow>
     \<not> is_ringing (snd (fork_run c (replicate (length (fk_results f)) Take) f))"
proof (induction "length (fk_results f)" arbitrary: f)
  case 0
  then have "outstanding f = 0" by (simp add: outstanding_def)
  with 0 show ?case by (auto simp: fork_ok_def)
next
  case (Suc n)
  let ?f = "snd (take_result c f)"
  show ?case
  proof (cases "is_ringing f")
    case False
    then show ?thesis using fork_run_over by blast
  next
    case True
    then have "length (fk_results ?f) = n" using Suc.hyps(2) by (simp add: take_result_channel)
    with Suc.hyps(1) [of ?f] fork_ok_take [OF Suc.prems(1)] Suc.prems(2)
    have "\<not> is_ringing (snd (fork_run c (replicate n Take) ?f))" by (simp add: take_result_channel)
    with Suc.hyps(2) show ?thesis by (simp add: case_prod_unfold flip: Suc.hyps(2))
  qed
qed

lemma fork_run_append:
  "fork_run c (xs @ ys) f = (fst (fork_run c xs f) @ fst (fork_run c ys (snd (fork_run c xs f))), snd (fork_run c ys (snd (fork_run c xs f))))"
  by (induction xs arbitrary: f) (simp_all add: case_prod_unfold)

text \<open>
  Property (C11). A forked call ends: once every branch has reported its last result (its final response, or
  that it could not be sent or failed), the handler needs only to take what is in the channel,
  at most so many steps, to stop, and the caller has then been given exactly one final answer.
\<close>

theorem reported_fork_is_answered:
  fixes evs :: "fork_event list"
  assumes S: "sipgo_ok (cx_sip c)" and start: "snd (handleInviteFromFSToUser c p req toUser toDomain) = Some f"
    and all: "\<forall>b \<in> set (fk_branches (snd (fork_run c evs f))). br_posted b"
  defines "ending \<equiv> evs @ replicate (length (fk_results (snd (fork_run c evs f)))) Take"
  shows "\<not> is_ringing (snd (fork_run c ending f)) \<and> length (final_of (fst (fork_run c ending f))) = 1"
proof -
  note f = fork_ok_started [OF start]
  have "\<not> is_ringing (snd (fork_run c ending f))"
    using drained [OF fork_ok_run [OF f(1)] all] by (simp add: ending_def fork_run_append)
  with fork_run_tells [OF S f(2,3), of ending] show ?thesis by simp
qed

text \<open>A goroutine that returned without reporting: its branch is over, and not counted.\<close>

definition vanished :: "fork \<Rightarrow> nat \<Rightarrow> bool" where
  "vanished f i \<longleftrightarrow> i < length (fk_branches f) \<and> br_ended (fk_branches f ! i) \<and> \<not> br_posted (fk_branches f ! i)"

lemma vanished_set: "vanished f i \<Longrightarrow> \<not> br_ended (fk_branches f ! j) \<Longrightarrow> vanished (set_branch j b (g f)) i"
  if "fk_branches (g f) = fk_branches f"
  using that by (cases "j = i") (auto simp: vanished_def set_branch_def)

lemma vanished_step: "vanished f i \<Longrightarrow> vanished (snd (fork_step c ev f)) i"
  using vanished_set [of "\<lambda>f. f"] vanished_set [of "put_result r" for r]
  by (cases ev) (auto simp: listening_def leave_branch_def Let_def put_result_def take_result_channel vanished_def split: option.split)

lemma vanished_run: "vanished f i \<Longrightarrow> vanished (snd (fork_run c evs f)) i"
  by (induction evs arbitrary: f) (simp_all add: case_prod_unfold vanished_step)

text \<open>A branch that has not reported keeps the handler waiting.\<close>

definition unreported :: "fork \<Rightarrow> nat \<Rightarrow> bool" where
  "unreported f i \<longleftrightarrow> i < length (fk_branches f) \<and> \<not> br_posted (fk_branches f ! i)"

lemma unreported_set: "unreported (set_branch j b f) i \<Longrightarrow> br_posted b = br_posted (fk_branches f ! j) \<or> \<not> br_posted (fk_branches f ! j)
    \<Longrightarrow> unreported f i"
  by (cases "j = i") (auto simp: unreported_def set_branch_def)

lemma unreported_put [simp]: "unreported (put_result r f) i = unreported f i" "fk_branches (put_result r f) = fk_branches f"
  by (simp_all add: unreported_def put_result_def)

lemma unreported_before: "unreported (snd (fork_step c ev f)) i \<Longrightarrow> fork_ok f \<Longrightarrow> unreported f i"
proof (cases ev)
  case Take
  assume "unreported (snd (fork_step c ev f)) i"
  with Take show ?thesis by (simp add: unreported_def take_result_channel)
next
  case (Sent j ok)
  assume after: "unreported (snd (fork_step c ev f)) i" and ok: "fork_ok f"
  have "\<not> br_posted (fk_branches f ! j)" if "j < length (fk_branches f)" "br_fwd (fk_branches f ! j) = None" "\<not> br_ended (fk_branches f ! j)"
    using branch_ok_nth [OF ok that(1)] that by (auto simp: branch_ok_def)
  with after Sent show ?thesis by (auto simp: Let_def split: if_splits option.splits dest!: unreported_set)
qed (auto simp: listening_def leave_branch_def Let_def split: if_splits option.splits dest!: unreported_set)

lemma unreported_keeps_ringing:
  assumes ok: "fork_ok f" and v: "unreported f i" and ring: "is_ringing f"
    and none: "find decisive (finals (taken_now ev f)) = None"
  shows "is_ringing (snd (fork_step c ev f))"
proof (cases "ev = Take \<and> fk_results f \<noteq> []")
  case False
  then show ?thesis
    using ring quiet_step(2) [of ev c f] by (cases "ev = Take") (simp_all add: take_result_def is_ringing_phase)
next
  case True
  then obtain res rest where q: "fk_results f = res # rest" by (cases "fk_results f") auto
  have "0 < length (filter (\<lambda>b. \<not> br_posted b) (fk_branches f))"
    using v by (auto simp: unreported_def filter_empty_conv)
  then have pend: "fk_pending f > (if is_last res then 1 else 0)"
    using ok ring by (simp add: fork_ok_def outstanding_def q)
  have "find decisive (final_answer res) = None" using none True ring q by (simp add: taken_now_def)
  with pend ring q True show ?thesis
    by (cases res) (auto simp: take_result_def take_failure_def take_answer_def fork_continue_def is_last_def Let_def
        is_ringing_phase decisive_def successful_def split: if_splits)
qed

lemma fork_taken_append:
  "fork_taken c (xs @ ys) f = fork_taken c xs f @ fork_taken c ys (snd (fork_run c xs f))"
  by (induction xs arbitrary: f) (simp_all add: case_prod_unfold)

lemma unreported_earlier: "unreported (snd (fork_run c evs f)) i \<Longrightarrow> fork_ok f \<Longrightarrow> unreported f i"
proof (induction evs arbitrary: f)
  case (Cons ev evs)
  from Cons.IH [OF _ fork_ok_step [OF Cons.prems(2), of c ev]] Cons.prems(1)
  have "unreported (snd (fork_step c ev f)) i" by (simp add: case_prod_unfold)
  then show ?case by (rule unreported_before [OF _ Cons.prems(2)])
qed simp

lemma unreported_waits:
  "fork_ok f \<Longrightarrow> is_ringing f \<Longrightarrow> unreported (snd (fork_run c evs f)) i \<Longrightarrow>
     find decisive (finals (fork_taken c evs f)) = None \<Longrightarrow> is_ringing (snd (fork_run c evs f))"
proof (induction evs arbitrary: f)
  case (Cons ev evs)
  let ?f = "snd (fork_step c ev f)"
  have none: "find decisive (finals (taken_now ev f)) = None" "find decisive (finals (fork_taken c evs ?f)) = None"
    using Cons.prems(4) by (simp_all add: find_append split: option.splits)
  have un: "unreported (snd (fork_run c evs ?f)) i" using Cons.prems(3) by (simp add: case_prod_unfold)
  have "unreported f i" by (rule unreported_earlier [OF Cons.prems(3,1)])
  from Cons.IH [OF fork_ok_step [OF Cons.prems(1)] unreported_keeps_ringing [OF Cons.prems(1) this Cons.prems(2) none(1)] un none(2)]
  show ?case by (simp add: case_prod_unfold)
qed simp

text \<open>
  Property (C25). A branch whose transaction ends without an error or a response, or whose response channel is
  closed, keeps the caller waiting for ever: its goroutine returns without a result, and
  unless some contact accepts or declines, nothing that happens afterwards, not even every
  other branch failing, makes the handler stop or send a final answer.
\<close>

theorem vanished_branch_blocks_the_fork:
  fixes evs evs' :: "fork_event list"
  assumes S: "sipgo_ok (cx_sip c)" and start: "snd (handleInviteFromFSToUser c p req toUser toDomain) = Some f"
    and out: "listening (snd (fork_run c evs f)) i" "ev \<in> {ResponsesClosed i, TransactionDone i False}"
  defines "run \<equiv> evs @ ev # evs'"
  assumes none: "find decisive (finals (fork_taken c run f)) = None"
  shows "is_ringing (snd (fork_run c run f)) \<and> final_of (fst (fork_run c run f)) = []"
proof -
  note f = fork_ok_started [OF start]
  let ?g = "snd (fork_run c evs f)"
  have "vanished (snd (fork_step c ev ?g)) i"
    using out by (auto simp: listening_def vanished_def leave_branch_def set_branch_def Let_def)
  then have "vanished (snd (fork_run c run f)) i" by (simp add: run_def fork_run_append case_prod_unfold vanished_run)
  then have "unreported (snd (fork_run c run f)) i" by (simp add: vanished_def unreported_def)
  with unreported_waits [OF f(1,2) _ none] have "is_ringing (snd (fork_run c run f))" by blast
  with fork_run_tells [OF S f(2,3), of run] show ?thesis by simp
qed

section \<open>Witnesses\<close>

text \<open>The user 6002 is registered with two phones.\<close>

definition demo_phone :: "string \<Rightarrow> contact" where
  "demo_phone address = \<lparr>ct_URI = ''sip:6002@'' @ address, ct_Address = address, ct_Transport = ''UDP'', ct_IsWebRTC = False,
     ct_ExpiresAt = 1000, ct_NAT = False, ct_missedPings = 0\<rparr>"

definition demo_phones :: proxy where
  "demo_phones = demo_fs_proxy\<lparr>px_reg := [(''6002@a.example.com'', [demo_phone ''192.0.2.1:5060'', demo_phone ''192.0.2.2:5060''])]\<rparr>"

definition demo_dialled :: "acts \<times> fork option" where
  "demo_dialled = handleInviteFromFSToUser demo_ctx demo_phones demo_invite ''6002'' ''a.example.com''"

abbreviation demo_ringing :: fork where
  "demo_ringing \<equiv> the (snd demo_dialled)"

lemma demo_dialled: "handleInviteFromFSToUser demo_ctx demo_phones demo_invite ''6002'' ''a.example.com''
    = (fst demo_dialled, Some demo_ringing)"
proof -
  have "(case snd demo_dialled of None \<Rightarrow> False | Some f \<Rightarrow> True)" by code_simp
  then show ?thesis by (auto simp: demo_dialled_def split: option.splits intro: prod_eqI)
qed

lemma demo_ringing_id: "fk_callID demo_ringing = ''call1''" by code_simp

lemma demo_later: "cx_sip demo_ctx = sipgo_model" by (simp add: demo_ctx_def)

lemma fork_answers_once_witness:
  "length (final_of (fst (fork_run demo_ctx [Sent 0 True, Answer 0 (demo_reply 486), Sent 1 True, Answer 1 (demo_reply 180), Take,
       Take, Answer 1 (demo_reply 404), Take] demo_ringing))) = 1"
proof -
  let ?evs = "[Sent 0 True, Answer 0 (demo_reply 486), Sent 1 True, Answer 1 (demo_reply 180), Take,
       Take, Answer 1 (demo_reply 404), Take]"
  have over: "\<not> is_ringing (snd (fork_run demo_ctx ?evs demo_ringing))" by code_simp
  have S: "sipgo_ok (cx_sip demo_ctx)" using sipgo_ok_model by (simp only: demo_later)
  have "snd (handleInviteFromFSToUser demo_ctx demo_phones demo_invite ''6002'' ''a.example.com'') = Some demo_ringing"
    unfolding demo_dialled by (rule snd_conv)
  from conjunct1 [OF fork_answers_once [OF S this, of ?evs]] over
  have "final_of (fst (fork_run demo_ctx ?evs demo_ringing)) =
      [verdict (cx_sip demo_ctx) demo_invite (fork_taken demo_ctx ?evs demo_ringing)]" by (simp only: if_False)
  then show ?thesis by (simp only: list.size)
qed

lemma unanswered_fork_witness:
  "px_calls (run_acts (fst demo_dialled @ fst (fork_run demo_ctx [Sent 0 False, Sent 1 False, Take, Take] demo_ringing)) demo_phones) = []"
proof -
  have "fk_phase (snd (fork_run demo_ctx [Sent 0 False, Sent 1 False, Take, Take] demo_ringing)) = Finished False" by code_simp
  moreover have "px_affinity demo_phones = []" "px_activeTx demo_phones = []" "px_calls demo_phones = []" by (simp_all add: demo_phones_def)
  ultimately show ?thesis
    using unanswered_fork_leaves_nothing [OF demo_dialled, of "[Sent 0 False, Sent 1 False, Take, Take]" demo_phones]
    by simp
qed

lemma late_branch_witness:
  "\<exists>f fwd. f = snd (fork_run demo_ctx [Sent 0 True, Answer 0 (demo_reply 200), Take] demo_ringing)
     \<and> hd (fst (fork_run demo_ctx [Sent 1 True, Answer 1 (demo_reply 180), GivenUp 1] f)) = Act (ETransaction PublicSide fwd)
     \<and> Act (EWrite PublicSide (demo_invite\<lparr>rq_method := ''CANCEL''\<rparr>))
         \<notin> set (fst (fork_run demo_ctx [Sent 1 True, Answer 1 (demo_reply 180), GivenUp 1] f))"
proof -
  let ?f = "snd (fork_run demo_ctx [Sent 0 True, Answer 0 (demo_reply 200), Take] demo_ringing)"
  have f: "\<not> is_ringing ?f" "1 < length (fk_branches ?f)" "fk_branches ?f ! 1 = new_branch"
    by code_simp+
  have "(case outgoing (cx_sip demo_ctx) (snd (fk_preps ?f ! 1)) of None \<Rightarrow> False | Some fwd \<Rightarrow> True)" by code_simp
  from is_SomeD [OF this] obtain fwd where fwd: "outgoing (cx_sip demo_ctx) (snd (fk_preps ?f ! 1)) = Some fwd" ..
  have "CallerCancels \<notin> set [Answer 1 (demo_reply 180), GivenUp 1]" by simp
  from late_branch_is_not_cancelled [OF f fwd this] show ?thesis by blast
qed

lemma demo_started: "snd (handleInviteFromFSToUser demo_ctx demo_phones demo_invite ''6002'' ''a.example.com'') = Some demo_ringing"
  unfolding demo_dialled by (rule snd_conv)

lemma demo_sipgo: "sipgo_ok (cx_sip demo_ctx)"
  using sipgo_ok_model by (simp only: demo_later)

lemma reported_fork_witness:
  "length (final_of (fst (fork_run demo_ctx ([Sent 0 False, Sent 1 False] @ replicate 2 Take) demo_ringing))) = 1"
proof -
  have "list_all br_posted (fk_branches (snd (fork_run demo_ctx [Sent 0 False, Sent 1 False] demo_ringing)))"
    "length (fk_results (snd (fork_run demo_ctx [Sent 0 False, Sent 1 False] demo_ringing))) = 2" by code_simp+
  then show ?thesis
    using reported_fork_is_answered [OF demo_sipgo demo_started, of "[Sent 0 False, Sent 1 False]"] by (simp only: list_all_iff)
qed

lemma vanished_branch_witness:
  "is_ringing (snd (fork_run demo_ctx ([Sent 0 True] @ TransactionDone 0 False # [Sent 1 False, Take, Take]) demo_ringing))"
proof -
  have l: "listening (snd (fork_run demo_ctx [Sent 0 True] demo_ringing)) 0" by code_simp
  have "(case find decisive (finals (fork_taken demo_ctx ([Sent 0 True] @ TransactionDone 0 False # [Sent 1 False, Take, Take]) demo_ringing)) of
      None \<Rightarrow> True | Some r \<Rightarrow> False)" by code_simp
  then have n: "find decisive (finals (fork_taken demo_ctx ([Sent 0 True] @ TransactionDone 0 False # [Sent 1 False, Take, Take]) demo_ringing)) = None"
    by (rule is_NoneD)
  have "TransactionDone 0 False \<in> {ResponsesClosed 0, TransactionDone 0 False}" by simp
  from vanished_branch_blocks_the_fork [OF demo_sipgo demo_started l this n] show ?thesis ..
qed

end
