(* ===== verification/Proxy_Dialog.thy ===== *)
theory Proxy_Dialog
  imports Proxy_Fork
begin

text \<open>
  Requests inside a call, ACK, CANCEL and OPTIONS (\<^verbatim>\<open>sbc/proxy.go\<close>:
  \<^verbatim>\<open>relayInDialog\<close>, \<^verbatim>\<open>handleAck\<close>,
  \<^verbatim>\<open>handleCancel\<close>, \<^verbatim>\<open>handleOptions\<close>,
  \<^verbatim>\<open>handlePassthrough\<close>), and the routing of INVITE
  (\<^verbatim>\<open>handleInvite\<close>, \<^verbatim>\<open>handleInviteFromFS\<close>) that puts the
  paths of \<open>Proxy_Invite\<close> and \<open>Proxy_Fork\<close> together.

  \<^verbatim>\<open>client.Do\<close> waits for the answer of the far side; \<open>answer\<close> is what it returns,
  \<open>None\<close> its error.
\<close>

section \<open>Forwarding within a call\<close>

definition forward_to_user :: "sipgo \<Rightarrow> config \<Rightarrow> request \<Rightarrow> callState \<Rightarrow> request option" where
  "forward_to_user S cfg req state =
     map_option (\<lambda>fwd0.
       let fwd = shiftCSeq (cs_fsCSeqOffset state) fwd0
       in if cs_userAddr state \<noteq> [] then
            (let fwd1 = fwd\<lparr>rq_dest := cs_userAddr state\<rparr>
             in if cs_isWebRTC state then fwd1\<lparr>rq_transport := ''ws''\<rparr> else fwd1)
          else fwd)
       (buildInDialogForwardRequestForHop cfg S req (cs_userURI state) [])"

definition forward_to_fs :: "sipgo \<Rightarrow> config \<Rightarrow> request \<Rightarrow> callState \<Rightarrow> request option" where
  "forward_to_fs S cfg req state =
     map_option (\<lambda>fwd. fwd\<lparr>rq_dest := cs_fsAddr state, rq_transport := ''udp''\<rparr>)
       (buildInDialogForwardRequestForHop cfg S req [] [])"

text \<open>The side the request goes out on, and the request.\<close>

definition in_dialog_request :: "sipgo \<Rightarrow> config \<Rightarrow> bool \<Rightarrow> request \<Rightarrow> callState \<Rightarrow> (side \<times> request) option" where
  "in_dialog_request S cfg isFS req state =
     (if isFS then map_option (Pair PublicSide) (forward_to_user S cfg req state)
      else map_option (Pair PrivateSide) (forward_to_fs S cfg req state))"

section \<open>In-dialog relay\<close>

text \<open>What \<^verbatim>\<open>relayInDialog\<close> does once the answer is there.\<close>

definition relay_answer :: "ctx \<Rightarrow> request \<Rightarrow> string \<Rightarrow> callState \<Rightarrow> response option \<Rightarrow> acts" where
  "relay_answer c req callID state answer =
     (case answer of
        None \<Rightarrow> if rq_method req = ''BYE'' then respond c req 200 ''OK'' # cleanupCall callID state
                else [respond c req 408 ''Request Timeout'']
      | Some resp \<Rightarrow>
          if rq_method req = ''BYE'' \<and> rs_status resp = 481 then respond c req 200 ''OK'' # cleanupCall callID state
          else Reply (relay_response (cx_sip c) req resp) #
               (if rq_method req = ''BYE'' \<and> rs_status resp = 200 then cleanupCall callID state else []))"

text \<open>The log line about a REFER or ACK from the user reads both headers.\<close>

definition logs_addresses :: "bool \<Rightarrow> request \<Rightarrow> request \<Rightarrow> bool" where
  "logs_addresses isFS req fwd \<longleftrightarrow>
     (if isFS \<or> rq_method req \<notin> {''REFER'', ''ACK''} then True else rq_from fwd \<noteq> None \<and> rq_to fwd \<noteq> None)"

definition relay_known :: "ctx \<Rightarrow> config \<Rightarrow> bool \<Rightarrow> request \<Rightarrow> string \<Rightarrow> callState \<Rightarrow> response option \<Rightarrow> acts" where
  "relay_known c cfg isFS req callID state answer =
     (case in_dialog_request (cx_sip c) cfg isFS req state of
        None \<Rightarrow> [respond c req 483 ''Too Many Hops'']
      | Some (sd, fwdReq) \<Rightarrow>
          if \<not> logs_addresses isFS req fwdReq then [Panic]
          else (case outgoing (cx_sip c) fwdReq of
                  None \<Rightarrow> relay_answer c req callID state None
                | Some fwd \<Rightarrow> Act (ETransaction sd fwd) # relay_answer c req callID state answer))"

definition relayInDialog :: "ctx \<Rightarrow> proxy \<Rightarrow> request \<Rightarrow> response option \<Rightarrow> acts" where
  "relayInDialog c p req answer =
     (case rq_call_id req of
        None \<Rightarrow> [Panic]
      | Some callID \<Rightarrow>
          (case gm_get (px_calls p) callID of
             None \<Rightarrow> if rq_method req = ''BYE'' then [respond c req 200 ''OK'']
                     else [respond c req 481 ''Call Does Not Exist'']
           | Some state \<Rightarrow>
               let sourceIP = sourceIPFromRequest req; isFS = IsFromFS (px_disp p) sourceIP in
               if isFS then relay_known c (px_cfg p) True req callID state answer
               else (case authorizeExternalInDialog c p req state sourceIP of (ok, as) \<Rightarrow>
                       as @ (if ok then relay_known c (px_cfg p) False req callID state answer else []))))"

definition handlePassthrough :: "ctx \<Rightarrow> proxy \<Rightarrow> request \<Rightarrow> response option \<Rightarrow> acts" where
  "handlePassthrough c p req answer = relayInDialog c p req answer"

section \<open>ACK, CANCEL, OPTIONS\<close>

definition handleAck :: "ctx \<Rightarrow> proxy \<Rightarrow> request \<Rightarrow> acts" where
  "handleAck c p req =
     (case rq_call_id req of
        None \<Rightarrow> [Panic]
      | Some callID \<Rightarrow>
          (case gm_get (px_calls p) callID of
             None \<Rightarrow> []
           | Some state \<Rightarrow>
               (case in_dialog_request (cx_sip c) (px_cfg p) (IsFromFS (px_disp p) (sourceIPFromRequest req)) req state of
                  None \<Rightarrow> []
                | Some (sd, fwdReq) \<Rightarrow>
                    (case outgoing (cx_sip c) fwdReq of None \<Rightarrow> [] | Some fwd \<Rightarrow> [Act (EWrite sd fwd)]))))"

text \<open>The level an ACK without a call is logged at.\<close>

definition LevelInfo :: int where
  "LevelInfo = 0"

definition unmatched_ack_level :: "instant \<Rightarrow> proxy \<Rightarrow> string \<Rightarrow> int" where
  "unmatched_ack_level now p callID = (if rejected_has now (px_rejected p) callID then LevelDebug else LevelInfo)"

text \<open>\<open>q\<close> is the state once the CANCEL has been answered.\<close>

definition handleCancel :: "ctx \<Rightarrow> proxy \<Rightarrow> proxy \<Rightarrow> request \<Rightarrow> acts" where
  "handleCancel c p q req =
     (if tooManyHops req then [respond c req 483 ''Too Many Hops'']
      else
        let sourceIP = sourceIPFromRequest req;
            (ok, as) = (if IsFromFS (px_disp p) sourceIP then (True, [])
                        else authenticateExternalRequest c p req sourceIP)
        in as @ (if ok then respond c req 200 ''OK'' #
                   (case rq_call_id req of None \<Rightarrow> [Panic] | Some callID \<Rightarrow> cancelOutgoing (cx_sip c) q callID)
                 else []))"

definition allowed_methods :: string where
  "allowed_methods = ''INVITE, ACK, CANCEL, BYE, OPTIONS, REGISTER, REFER, INFO, UPDATE, NOTIFY''"

definition handleOptions :: "ctx \<Rightarrow> request \<Rightarrow> acts" where
  "handleOptions c req =
     (let resp = sg_new_response (cx_sip c) req 200 ''OK'' []
      in [Reply (resp\<lparr>rs_headers := sg_append (cx_sip c) (HText ''Allow'' allowed_methods) (rs_headers resp)\<rparr>)])"

section \<open>INVITE\<close>

text \<open>What a handler that waits meets: whether its transaction could be started and the
  events of its transaction, the steps of a fork, the answer to an in-dialog request.\<close>

record meets =
  mt_sent :: bool
  mt_events :: "tx_event list"
  mt_fork :: "fork_event list"
  mt_answer :: "response option"

definition handleInviteFromFS :: "ctx \<Rightarrow> proxy \<Rightarrow> request \<Rightarrow> meets \<Rightarrow> acts" where
  "handleInviteFromFS c p req m =
     (case rq_to req of
        None \<Rightarrow> [Panic]
      | Some tu \<Rightarrow>
          if has_suffix (uri_host tu) (SIPUserRootDomain (px_cfg p)) then
            (case handleInviteFromFSToUser c p req (uri_user tu) (uri_host tu) of
               (as, None) \<Rightarrow> as
             | (as, Some f) \<Rightarrow> as @ fst (fork_run c (mt_fork m) f))
          else handleInviteFromFSToTrunk c p req (uri_user tu) (mt_sent m) (mt_events m))"

definition handleInvite :: "ctx \<Rightarrow> proxy \<Rightarrow> proxy \<Rightarrow> request \<Rightarrow> meets \<Rightarrow> acts" where
  "handleInvite c p q req m =
     (if tooManyHops req then [respond c req 483 ''Too Many Hops'']
      else if rq_to req = None then [Panic]
      else if rq_to_tag req \<noteq> [] then relayInDialog c p req (mt_answer m)
      else if rq_from req = None then [Panic]
      else
        let sourceIP = sourceIPFromRequest req in
        if IsFromFS (px_disp p) sourceIP then handleInviteFromFS c p req m
        else handleInviteToFS c p q req sourceIP (mt_sent m) (mt_events m))"

section \<open>A 2xx to an INVITE never overtakes the recording of its call\<close>

lemma fork_start_no_success:
  "sipgo_ok (cx_sip c) \<Longrightarrow> list_all no_success (fst (handleInviteFromFSToUser c p req u d))"
  by (auto simp: handleInviteFromFSToUser_def Let_def no_success_respond split: option.split)
    (simp_all add: no_success_def)

lemma handleInvite_recorded:
  assumes S: "sipgo_ok (cx_sip c)" and id: "rq_call_id req = Some callID" and new: "rq_to_tag req = []"
  shows "recorded_first callID False (handleInvite c p q req m)"
proof -
  have fs: "recorded_first callID False (handleInviteToFS c p q req ip s evs)" for ip s evs
    using recorded_first_append [OF recorded_first_none [OF authenticate_no_success [OF S]] invite_to_fs_recorded [OF S id]]
      recorded_first_none [OF authenticate_no_success [OF S]]
    by (simp add: handleInviteToFS_def case_prod_unfold)
  have trunk: "recorded_first callID False (handleInviteFromFSToTrunk c p req u s evs)" for u s evs
    using invite_to_trunk_recorded [OF S id]
    by (auto simp: handleInviteFromFSToTrunk_def recorded_first_respond [OF S] split: option.split sum.split)
  have user: "recorded_first callID False (case handleInviteFromFSToUser c p req u d of
               (as, None) \<Rightarrow> as | (as, Some f) \<Rightarrow> as @ fst (fork_run c evs f))" for u d evs
  proof -
    obtain as x where start: "handleInviteFromFSToUser c p req u d = (as, x)" by fastforce
    then have as: "recorded_first callID False as" using recorded_first_none [OF fork_start_no_success [OF S, of p req u d]] by simp
    show ?thesis
    proof (cases x)
      case None
      with start as show ?thesis by simp
    next
      case (Some f)
      then have st: "snd (handleInviteFromFSToUser c p req u d) = Some f" by (simp add: start)
      have "fk_callID f = callID" using started_fork(8) [OF st] id by simp
      moreover have "recorded_first (fk_callID f) False (fst (fork_run c evs f))"
        by (rule fork_run_recorded [OF S]) (rule fork_ok_started(3) [OF st])
      ultimately show ?thesis using start Some as by (simp add: recorded_first_append)
    qed
  qed
  show ?thesis
    using fs trunk user new
    by (auto simp: handleInvite_def handleInviteFromFS_def Let_def recorded_first_respond [OF S] split: option.split)
qed

text \<open>
  Property (C2). Whatever way an initial INVITE takes (to FreeSWITCH, to a user's devices, to a trunk with or
  without a digest challenge), and however the far ends behave, every 2xx it is answered with
  comes right after its call has been recorded: the ACK to the 2xx finds the call.
\<close>

theorem call_recorded_before_2xx:
  assumes "sipgo_ok (cx_sip c)" "rq_call_id req = Some callID" "rq_to_tag req = []"
    and "handleInvite c p q req m = pre @ Reply r # post" "200 \<le> rs_status r" "rs_status r < 300"
  shows "\<exists>pre' cs. pre = pre' @ [Act (EStoreCall callID cs)]"
  using handleInvite_recorded [OF assms(1-3), of p q m] recorded_first_split [of callID False pre r post] assms(4-6)
  by (simp add: successful_def)

section \<open>The end of a call\<close>

text \<open>Answers to a BYE after which the proxy forgets the call.\<close>

definition call_over :: "response option \<Rightarrow> bool" where
  "call_over answer \<longleftrightarrow> (case answer of None \<Rightarrow> True | Some r \<Rightarrow> rs_status r \<in> {200, 481})"

lemma run_cleanup:
  "run_acts (cleanupCall callID state) p = p\<lparr>px_calls := gm_del callID (px_calls p),
     px_affinity := deleteAffinity callID (cs_userAORs state) (px_affinity p),
     px_spoofCache := (if cs_spoofedUser state \<noteq> [] then gm_del (spoofCacheKey callID (cs_spoofedUser state)) (px_spoofCache p)
        else px_spoofCache p)\<rparr>"
  by (simp add: cleanupCall_def)

lemma bye_answer_run:
  "rq_method req = ''BYE'' \<Longrightarrow> run_acts (relay_answer c req callID state answer) p =
     (if call_over answer then run_acts (cleanupCall callID state) p else p)"
  by (auto simp: relay_answer_def call_over_def split: option.split)

text \<open>Checking a request from outside: what it does to the state, and that it leaves the rest alone.\<close>

fun checks_only :: "bool \<Rightarrow> effect act \<Rightarrow> bool" where
  "checks_only ok (Act (EApi call)) \<longleftrightarrow> True"
| "checks_only ok (Act (EFail t addr)) \<longleftrightarrow> \<not> ok"
| "checks_only ok (Act (EReject t req)) \<longleftrightarrow> \<not> ok"
| "checks_only ok (Act e) \<longleftrightarrow> False"
| "checks_only ok a \<longleftrightarrow> True"

definition checked_state :: "bool \<Rightarrow> proxy \<Rightarrow> proxy \<Rightarrow> bool" where
  "checked_state ok p p' \<longleftrightarrow> px_cfg p' = px_cfg p \<and> px_reg p' = px_reg p \<and> px_disp p' = px_disp p
     \<and> px_calls p' = px_calls p \<and> px_activeTx p' = px_activeTx p \<and> px_spoofCache p' = px_spoofCache p
     \<and> px_affinity p' = px_affinity p \<and> (ok \<longrightarrow> px_ban p' = px_ban p \<and> px_rejected p' = px_rejected p)"

lemma checked_state_refl: "checked_state ok p p"
  by (simp add: checked_state_def)

lemma checked_state_act: "checked_state ok p p' \<Longrightarrow> checks_only ok a \<Longrightarrow> checked_state ok p (do_act a p')"
  by (induction ok a rule: checks_only.induct) (auto simp: checked_state_def)

lemma run_checks: "checked_state ok p p' \<Longrightarrow> list_all (checks_only ok) as \<Longrightarrow> checked_state ok p (run_acts as p')"
  by (induction as arbitrary: p') (simp_all add: checked_state_act)

lemma checks_only_reply [simp]: "checks_only ok (respond c req n s)" "checks_only ok (send_challenge c req d)"
  by (simp_all add: respond_def send_challenge_def)

lemma authorize_checks_only:
  "list_all (checks_only (fst (authorizeExternalInDialog c p req state ip))) (snd (authorizeExternalInDialog c p req state ip))"
  by (auto simp: authorizeExternalInDialog_def authenticateExternalRequest_def authenticate_user_def authenticate_trunk_def
      failedAuth_def failed_def Let_def split: option.split sum.split api_error.split)

text \<open>Whether a BYE of a known call ends it: it may pass, can be forwarded, and is confirmed, comes
  back as unknown, or cannot be delivered.\<close>

definition bye_passes :: "ctx \<Rightarrow> proxy \<Rightarrow> request \<Rightarrow> callState \<Rightarrow> bool" where
  "bye_passes c p req state \<longleftrightarrow> IsFromFS (px_disp p) (sourceIPFromRequest req)
     \<or> fst (authorizeExternalInDialog c p req state (sourceIPFromRequest req))"

definition bye_ends :: "ctx \<Rightarrow> proxy \<Rightarrow> request \<Rightarrow> callState \<Rightarrow> response option \<Rightarrow> bool" where
  "bye_ends c p req state answer \<longleftrightarrow> bye_passes c p req state
     \<and> (case in_dialog_request (cx_sip c) (px_cfg p) (IsFromFS (px_disp p) (sourceIPFromRequest req)) req state of
          None \<Rightarrow> False
        | Some (sd, fwdReq) \<Rightarrow> outgoing (cx_sip c) fwdReq = None \<or> call_over answer)"

lemma bye_run:
  assumes req: "rq_method req = ''BYE''" "rq_call_id req = Some callID" "gm_get (px_calls p) callID = Some state"
  obtains p1 where "checked_state (bye_passes c p req state) p p1"
    and "IsFromFS (px_disp p) (sourceIPFromRequest req) \<Longrightarrow> p1 = p"
    and "run_acts (relayInDialog c p req answer) p =
      (if bye_ends c p req state answer then run_acts (cleanupCall callID state) p1 else p1)"
proof -
  let ?ip = "sourceIPFromRequest req"
  let ?p1 = "if IsFromFS (px_disp p) ?ip then p else run_acts (snd (authorizeExternalInDialog c p req state ?ip)) p"
  have relay: "run_acts (relay_known c (px_cfg p) isFS req callID state answer) q =
      (if (case in_dialog_request (cx_sip c) (px_cfg p) isFS req state of None \<Rightarrow> False
           | Some (sd, fwdReq) \<Rightarrow> outgoing (cx_sip c) fwdReq = None \<or> call_over answer)
       then run_acts (cleanupCall callID state) q else q)" for isFS q
    by (auto simp: relay_known_def logs_addresses_def req(1) bye_answer_run call_over_def respond_def split: option.split)
  have "checked_state (bye_passes c p req state) p ?p1"
    using run_checks [OF checked_state_refl authorize_checks_only]
    by (auto simp: bye_passes_def checked_state_refl)
  moreover have "run_acts (relayInDialog c p req answer) p =
      (if bye_ends c p req state answer then run_acts (cleanupCall callID state) ?p1 else ?p1)"
    by (simp add: relayInDialog_def req Let_def case_prod_unfold relay bye_ends_def bye_passes_def)
  ultimately show ?thesis by (intro that [of ?p1]) simp_all
qed

text \<open>
  Property (C10). A BYE of a known call, from either side, ends the call exactly when it may pass (it comes from
  FreeSWITCH, or is admitted as every request of the call from outside), has hops left, and
  the far side confirms it (200), no longer knows the call (481), does not answer or cannot be
  reached. Then this call, the pins of its users for it and its hidden caller number are
  forgotten; any other outcome keeps them. In either case no other call, pin or hidden number
  is touched, nor any registration, pending INVITE or target, and a BYE that passes counts
  no failure.
\<close>

theorem bye_ends_the_call:
  fixes c :: ctx and p :: proxy and req :: request and answer :: "response option"
  assumes req: "rq_method req = ''BYE''" "rq_call_id req = Some callID" "gm_get (px_calls p) callID = Some state"
    and ok: "aff_ok (px_affinity p)"
  defines "p' \<equiv> run_acts (relayInDialog c p req answer) p" and "over \<equiv> bye_ends c p req state answer"
  shows "px_calls p' = (if over then gm_del callID (px_calls p) else px_calls p)
    \<and> pin_of (px_affinity p') u k =
        (if over \<and> u \<in> set (cs_userAORs state) \<and> k = callID then None else pin_of (px_affinity p) u k)
    \<and> gm_get (px_spoofCache p') key =
        (if over \<and> cs_spoofedUser state \<noteq> [] \<and> key = spoofCacheKey callID (cs_spoofedUser state) then None
         else gm_get (px_spoofCache p) key)
    \<and> px_cfg p' = px_cfg p \<and> px_reg p' = px_reg p \<and> px_disp p' = px_disp p \<and> px_activeTx p' = px_activeTx p
    \<and> (bye_passes c p req state \<longrightarrow> px_ban p' = px_ban p \<and> px_rejected p' = px_rejected p)
    \<and> (IsFromFS (px_disp p) (sourceIPFromRequest req) \<longrightarrow> px_api p' = px_api p)"
proof -
  from bye_run [OF req, of c answer] obtain p1 where p1: "checked_state (bye_passes c p req state) p p1"
    "IsFromFS (px_disp p) (sourceIPFromRequest req) \<longrightarrow> p1 = p"
    "p' = (if over then run_acts (cleanupCall callID state) p1 else p1)" unfolding p'_def over_def by blast
  note same = p1(1) [unfolded checked_state_def]
  show ?thesis
    unfolding p1(3) using same p1(2) by (auto simp: run_cleanup pins.pin_drop [OF ok])
qed

section \<open>Sequence numbers after a digest retry\<close>

lemma find_cseq_forwarded: "find_cseq (forwarded_headers cfg S keepHop hs) = find_cseq hs"
proof (induction hs)
  case (Cons h hs)
  then show ?case by (cases h) (auto simp: forwarded_def)
qed simp

lemma forward_cseq:
  assumes "sipgo_ok S" "buildForwardRequestWithURIAndRoute cfg S req u keepHop = Some fwd"
  shows "rq_cseq fwd = rq_cseq req"
proof -
  have "rq_max_forwards req \<noteq> Some 0" using build_forward_eq [OF assms(1), of req cfg u keepHop] assms(2) by auto
  with build_forward_eq [OF assms(1), of req cfg u keepHop] assms(2) obtain v where
    "rq_headers fwd = forwarded_headers cfg S keepHop (rq_headers req)
       @ [HMaxForwards (next_hops (rq_max_forwards req)), HText ''Content-Length'' v]" by auto
  then show ?thesis by (simp add: find_cseq_append find_cseq_forwarded split: option.split)
qed

lemma outgoing_cseq: "sipgo_ok S \<Longrightarrow> outgoing S fwdReq = Some fwd \<Longrightarrow> rq_cseq fwd = rq_cseq fwdReq"
proof -
  assume S: "sipgo_ok S" and "outgoing S fwdReq = Some fwd"
  then have "fwd = sg_add_via S fwdReq" by (simp add: outgoing_def Let_def split: if_splits)
  moreover obtain v where "sg_add_via S fwdReq = fwdReq\<lparr>rq_headers := HText ''Via'' v # rq_headers fwdReq\<rparr>"
    using sipgo_add_via [OF S] by blast
  ultimately show ?thesis by simp
qed

lemma forward_to_user_cseq:
  assumes "sipgo_ok S" "forward_to_user S cfg req state = Some fwd"
  shows "rq_cseq fwd = map_option (\<lambda>(n, m). (n + cs_fsCSeqOffset state, m)) (rq_cseq req)"
  using assms forward_cseq [OF assms(1)]
  by (auto simp: forward_to_user_def buildInDialogForwardRequestForHop_def Let_def shiftCSeq_cseq split: if_splits)

lemma offset_number:
  fixes a f n :: "32 word"
  assumes "f \<le> a" "f \<le> n" "unat n + (unat a - unat f) < 2 ^ 32"
  shows "unat (n + (a - f)) = unat a + (unat n - unat f)"
proof -
  have "unat (a - f) = unat a - unat f" using assms(1) by (simp add: unat_sub word_le_nat_alt)
  then have "unat (n + (a - f)) = unat n + (unat a - unat f)"
    using assms(3) by (simp add: unat_add_lem [THEN iffD1])
  with assms(1,2) show ?thesis by (simp add: word_le_nat_alt)
qed

text \<open>
  Property (C14). After a call to a trunk was established through a digest retry, every ACK and every other
  request of FreeSWITCH inside the call goes out with the number the trunk expects: as far
  above the authenticated INVITE's as FreeSWITCH's number is above its own INVITE's (so its
  ACK carries exactly the authenticated INVITE's number), with the method kept.
\<close>

theorem trunk_gets_its_own_numbers:
  assumes S: "sipgo_ok (cx_sip c)"
    and call: "gm_get (px_calls p) callID =
        Some (trunk_call (cx_sip c) fsInvite trunkURI dest spoofed (digestCSeqOffset fsInvite authResp) authResp)"
    and invite: "rq_cseq fsInvite = Some (f, mi)" "rs_cseq authResp = Some (a, ma)" "f \<le> a"
    and req: "rq_call_id req = Some callID" "IsFromFS (px_disp p) (sourceIPFromRequest req)"
      "rq_cseq req = Some (n, m)" "f \<le> n" "unat n + (unat a - unat f) < 2 ^ 32"
    and sent: "Act (EWrite sd fwd) \<in> set (handleAck c p req) \<or> Act (ETransaction sd fwd) \<in> set (relayInDialog c p req answer)"
  shows "sd = PublicSide \<and> (\<exists>s. rq_cseq fwd = Some (s, m) \<and> unat s = unat a + (unat n - unat f))"
proof -
  let ?state = "trunk_call (cx_sip c) fsInvite trunkURI dest spoofed (digestCSeqOffset fsInvite authResp) authResp"
  have off: "cs_fsCSeqOffset ?state = a - f"
    using invite by (simp add: trunk_call_def digestCSeqOffset_def)
  have wire: "\<exists>fwdReq. forward_to_user (cx_sip c) (px_cfg p) req ?state = Some fwdReq \<and> outgoing (cx_sip c) fwdReq = Some fwd
      \<and> sd = PublicSide"
    using sent req(1,2) call
    by (auto simp: handleAck_def relayInDialog_def relay_known_def in_dialog_request_def relay_answer_def cleanupCall_def
        respond_def split: option.splits if_splits)
  then obtain fwdReq where w: "forward_to_user (cx_sip c) (px_cfg p) req ?state = Some fwdReq"
    "outgoing (cx_sip c) fwdReq = Some fwd" "sd = PublicSide" by blast
  have "rq_cseq fwd = Some (n + (a - f), m)"
    using outgoing_cseq [OF S w(2)] forward_to_user_cseq [OF S w(1)] req(3) off by simp
  with w(3) offset_number [OF invite(3) req(4,5)] show ?thesis by blast
qed

section \<open>Who may send inside a call, and what is answered\<close>

lemma sent_replies_respond [simp]:
  "sent_replies (respond c req n reason # as) = sg_new_response (cx_sip c) req n reason [] # sent_replies as"
  "sent_replies (send_challenge c req realm # as) =
     sendAuthChallenge (cx_sip c) (cx_random c) req realm # sent_replies as"
  by (simp_all add: respond_def send_challenge_def)

lemma sent_replies_cleanup [simp]: "sent_replies (cleanupCall callID state) = []"
  by (simp add: cleanupCall_def)

lemma auth_answers:
  "Panic \<notin> set (snd (authenticateExternalRequest c p req ip)) \<Longrightarrow>
     length (sent_replies (snd (authenticateExternalRequest c p req ip)))
       = (if fst (authenticateExternalRequest c p req ip) then 0 else 1)"
proof -
  have user: "length (sent_replies (snd (authenticate_user c p req fu))) = (if fst (authenticate_user c p req fu) then 0 else 1)" for fu
    by (auto simp: authenticate_user_def Let_def split: sum.split)
  have trunk: "length (sent_replies (snd (authenticate_trunk c p req ip))) = (if fst (authenticate_trunk c p req ip) then 0 else 1)"
    if "Panic \<notin> set (snd (authenticate_trunk c p req ip))"
    using that by (auto simp: authenticate_trunk_def Let_def split: sum.split option.splits api_error.split)
  assume alive: "Panic \<notin> set (snd (authenticateExternalRequest c p req ip))"
  show "length (sent_replies (snd (authenticateExternalRequest c p req ip)))
      = (if fst (authenticateExternalRequest c p req ip) then 0 else 1)"
  proof (cases "rq_from req")
    case None
    with alive show ?thesis by (simp add: authenticateExternalRequest_def)
  next
    case (Some fu)
    show ?thesis
    proof (cases "has_suffix (uri_host fu) (SIPUserRootDomain (px_cfg p))")
      case True
      with Some user show ?thesis by (simp add: authenticateExternalRequest_def)
    next
      case False
      with Some alive trunk show ?thesis by (simp add: authenticateExternalRequest_def)
    qed
  qed
qed

lemma in_dialog_auth_answers:
  "Panic \<notin> set (snd (authorizeExternalInDialog c p req state ip)) \<Longrightarrow>
     length (sent_replies (snd (authorizeExternalInDialog c p req state ip)))
       = (if fst (authorizeExternalInDialog c p req state ip) then 0 else 1)"
  using auth_answers [of c p req ip] by (simp add: authorizeExternalInDialog_def split: option.splits if_splits)

lemma relay_known_answers:
  "Panic \<notin> set (relay_known c cfg isFS req callID state answer) \<Longrightarrow>
     length (sent_replies (relay_known c cfg isFS req callID state answer)) = 1"
  by (auto simp: relay_known_def relay_answer_def split: option.splits if_splits)

lemma no_transaction_auth: "Act (ETransaction sd fwd) \<notin> set (snd (authenticateExternalRequest c p req ip))"
  by (auto simp: authenticateExternalRequest_def authenticate_user_def authenticate_trunk_def Let_def failedAuth_def failed_def
      respond_def send_challenge_def split: option.split sum.split api_error.split)

text \<open>
  Property (C7). A request inside a call (BYE, re-INVITE, REFER, INFO, UPDATE, NOTIFY) is answered exactly
  once, unless the handler dies on a missing header; and it is passed on only for a known
  call, and only when it comes from FreeSWITCH, from a user of the root domain at the
  address the call was set up with, or from someone whom the checks of a new request admit.
\<close>

theorem in_dialog_requests_are_vetted:
  assumes "Panic \<notin> set (relayInDialog c p req answer)"
  shows "length (sent_replies (relayInDialog c p req answer)) = 1
    \<and> (Act (ETransaction sd fwd) \<in> set (relayInDialog c p req answer) \<longrightarrow>
        (\<exists>callID state. rq_call_id req = Some callID \<and> gm_get (px_calls p) callID = Some state
          \<and> (IsFromFS (px_disp p) (sourceIPFromRequest req)
             \<or> (\<exists>fu. rq_from req = Some fu \<and> has_suffix (uri_host fu) (SIPUserRootDomain (px_cfg p))
                  \<and> cs_userAddr state \<noteq> [] \<and> rq_source req = cs_userAddr state)
             \<or> fst (authenticateExternalRequest c p req (sourceIPFromRequest req)))))"
proof (cases "rq_call_id req")
  case None
  with assms show ?thesis by (simp add: relayInDialog_def)
next
  case (Some callID)
  show ?thesis
  proof (cases "gm_get (px_calls p) callID")
    case None
    with Some show ?thesis by (auto simp: relayInDialog_def respond_def)
  next
    case (Some state)
    let ?ip = "sourceIPFromRequest req" and ?auth = "authorizeExternalInDialog c p req state (sourceIPFromRequest req)"
    have id: "rq_call_id req = Some callID" by fact
    show ?thesis
    proof (cases "IsFromFS (px_disp p) ?ip")
      case True
      with assms id Some relay_known_answers show ?thesis by (auto simp: relayInDialog_def)
    next
      case False
      then have acts: "relayInDialog c p req answer =
          snd ?auth @ (if fst ?auth then relay_known c (px_cfg p) False req callID state answer else [])"
        using id Some by (simp add: relayInDialog_def case_prod_unfold)
      have "length (sent_replies (relayInDialog c p req answer)) = 1"
        using assms in_dialog_auth_answers [of c p req state ?ip] relay_known_answers [of c "px_cfg p" False req callID state answer]
        unfolding acts by (auto split: if_splits)
      moreover have "fst ?auth" if "Act (ETransaction sd fwd) \<in> set (relayInDialog c p req answer)"
      proof (rule ccontr)
        assume "\<not> fst ?auth"
        moreover have "Act (ETransaction sd fwd) \<notin> set (snd ?auth)"
          using no_transaction_auth [of sd fwd c p req ?ip] by (simp add: authorizeExternalInDialog_def split: option.split)
        ultimately show False using that unfolding acts by simp
      qed
      moreover have "(\<exists>fu. rq_from req = Some fu \<and> has_suffix (uri_host fu) (SIPUserRootDomain (px_cfg p))
          \<and> cs_userAddr state \<noteq> [] \<and> rq_source req = cs_userAddr state)
          \<or> fst (authenticateExternalRequest c p req ?ip)" if "fst ?auth"
        using that by (auto simp: authorizeExternalInDialog_def split: option.splits if_splits)
      ultimately show ?thesis using id Some by blast
    qed
  qed
qed

section \<open>Witnesses\<close>

text \<open>A call from FreeSWITCH that was answered, with a digest retry, and requests inside it.\<close>

definition demo_from_fs :: "string \<Rightarrow> 32 word \<Rightarrow> request" where
  "demo_from_fs meth n = demo_invite\<lparr>rq_method := meth, rq_source := ''10.0.0.9:5070'', rq_headers :=
     [HText ''Via'' ''SIP/2.0/UDP 10.0.0.9'', HAddress ''From'' (mk_uri ''6001'' ''a.example.com'' 0) [(''tag'', ''x'')] ''f'',
       HAddress ''To'' (mk_uri ''6002'' ''a.example.com'' 0) [] ''t'', HCallID ''call1'', HCSeq n meth, HMaxForwards 2]\<rparr>"

definition demo_in_call :: proxy where
  "demo_in_call = demo_phones\<lparr>px_calls := [(''call1'', trunk_call sipgo_model demo_invite (mk_uri ''6002'' ''192.0.2.80'' 5060)
     ''192.0.2.80:5060'' [] (digestCSeqOffset demo_invite (demo_reply 200)) (demo_reply 200))]\<rparr>"

lemma call_recorded_witness:
  "\<exists>pre cs r post. handleInvite demo_ctx demo_phones demo_phones (demo_from_fs ''INVITE'' 7)
        \<lparr>mt_sent = True, mt_events = [], mt_fork = [Sent 0 True, Answer 0 (demo_reply 200), Take], mt_answer = None\<rparr>
     = pre @ [Act (EStoreCall ''call1'' cs), Reply r] @ post \<and> successful r"
proof -
  let ?m = "\<lparr>mt_sent = True, mt_events = [], mt_fork = [Sent 0 True, Answer 0 (demo_reply 200), Take], mt_answer = None\<rparr>"
  let ?as = "handleInvite demo_ctx demo_phones demo_phones (demo_from_fs ''INVITE'' 7) ?m"
  have "list_ex (\<lambda>a. case a of Reply r \<Rightarrow> successful r | _ \<Rightarrow> False) ?as" by code_simp
  then obtain a where a: "a \<in> set ?as" "case a of Reply r \<Rightarrow> successful r | _ \<Rightarrow> False" unfolding list_ex_iff by blast
  obtain r where r: "a = Reply r" "successful r" using a(2) by (cases a) simp_all
  from split_list [OF a(1)] obtain pre post where split: "?as = pre @ Reply r # post" unfolding r(1) by blast
  have S: "sipgo_ok (cx_sip demo_ctx)" using sipgo_ok_model by (simp only: demo_later)
  have id: "rq_call_id (demo_from_fs ''INVITE'' 7) = Some ''call1''" "rq_to_tag (demo_from_fs ''INVITE'' 7) = []" by code_simp+
  obtain pre' cs where "pre = pre' @ [Act (EStoreCall ''call1'' cs)]"
    using call_recorded_before_2xx [OF S id split] r(2) unfolding successful_def by blast
  with split r(2) show ?thesis by auto
qed

lemma demo_in_call_fs:
  "gm_get (px_calls demo_in_call) ''call1'' = Some (trunk_call (cx_sip demo_ctx) demo_invite (mk_uri ''6002'' ''192.0.2.80'' 5060)
     ''192.0.2.80:5060'' [] (digestCSeqOffset demo_invite (demo_reply 200)) (demo_reply 200))"
  "rq_call_id (demo_from_fs meth n) = Some ''call1''" "rq_cseq (demo_from_fs meth n) = Some (n, meth)"
  "rq_method (demo_from_fs meth n) = meth"
  by (simp_all add: demo_in_call_def demo_later demo_from_fs_def)

lemma demo_from_fs_source: "IsFromFS (px_disp demo_in_call) (sourceIPFromRequest (demo_from_fs ''BYE'' 8))"
  "IsFromFS (px_disp demo_in_call) (sourceIPFromRequest (demo_from_fs ''ACK'' 7))"
  by code_simp+

text \<open>A BYE of FreeSWITCH that is confirmed, and one of somebody outside who is not admitted.\<close>

definition demo_stranger :: request where
  "demo_stranger = (demo_from_fs ''BYE'' 8)\<lparr>rq_source := ''198.51.100.7:5060''\<rparr>"

lemma bye_ends_witness:
  "px_calls (run_acts (relayInDialog demo_ctx demo_in_call (demo_from_fs ''BYE'' 8) (Some (demo_reply 200))) demo_in_call) = []
   \<and> px_calls (run_acts (relayInDialog demo_ctx demo_in_call demo_stranger (Some (demo_reply 200))) demo_in_call)
       = px_calls demo_in_call"
proof -
  let ?state = "trunk_call (cx_sip demo_ctx) demo_invite (mk_uri ''6002'' ''192.0.2.80'' 5060)
     ''192.0.2.80:5060'' [] (digestCSeqOffset demo_invite (demo_reply 200)) (demo_reply 200)"
  have "(case in_dialog_request (cx_sip demo_ctx) (px_cfg demo_in_call) True (demo_from_fs ''BYE'' 8) ?state of
      None \<Rightarrow> False | Some x \<Rightarrow> True)" by code_simp
  then obtain sd fwdReq where "in_dialog_request (cx_sip demo_ctx) (px_cfg demo_in_call) True (demo_from_fs ''BYE'' 8) ?state = Some (sd, fwdReq)"
    by (auto split: option.splits)
  moreover have "call_over (Some (demo_reply 200))" by (simp add: call_over_def demo_reply_def)
  ultimately have ends: "bye_ends demo_ctx demo_in_call (demo_from_fs ''BYE'' 8) ?state (Some (demo_reply 200))"
    using demo_from_fs_source(1) by (simp add: bye_ends_def bye_passes_def)
  have "\<not> bye_passes demo_ctx demo_in_call demo_stranger ?state" by code_simp
  then have kept: "\<not> bye_ends demo_ctx demo_in_call demo_stranger ?state (Some (demo_reply 200))" by (simp add: bye_ends_def)
  have stranger: "rq_method demo_stranger = ''BYE''" "rq_call_id demo_stranger = Some ''call1''"
    using demo_in_call_fs(4,2) by (simp_all add: demo_stranger_def)
  have ok: "aff_ok (px_affinity demo_in_call)" by (simp add: demo_in_call_def demo_phones_def)
  have calls: "gm_del ''call1'' (px_calls demo_in_call) = []" by (simp add: demo_in_call_def gm_del_def)
  show ?thesis
    using bye_ends_the_call [OF demo_in_call_fs(4,2,1) ok, where c = demo_ctx and answer = "Some (demo_reply 200)"]
      bye_ends_the_call [OF stranger demo_in_call_fs(1) ok, where c = demo_ctx and answer = "Some (demo_reply 200)"] ends kept calls by simp
qed

lemma trunk_numbers_witness:
  "list_ex (\<lambda>a. case a of Act (EWrite sd fwd) \<Rightarrow> sd = PublicSide \<and> rq_cseq fwd = Some (9, ''ACK'') | _ \<Rightarrow> False)
     (handleAck demo_ctx demo_in_call (demo_from_fs ''ACK'' 7))"
proof -
  have "list_ex (\<lambda>a. case a of Act (EWrite sd fwd) \<Rightarrow> True | _ \<Rightarrow> False) (handleAck demo_ctx demo_in_call (demo_from_fs ''ACK'' 7))"
    by code_simp
  then obtain sd fwd where sent: "Act (EWrite sd fwd) \<in> set (handleAck demo_ctx demo_in_call (demo_from_fs ''ACK'' 7))"
    unfolding list_ex_iff by (fastforce split: act.splits effect.splits)
  have S: "sipgo_ok (cx_sip demo_ctx)" using sipgo_ok_model by (simp only: demo_later)
  have n: "rq_cseq demo_invite = Some (7, ''INVITE'')" "rs_cseq (demo_reply 200) = Some (9, ''INVITE'')"
    by (simp_all add: demo_invite_def demo_reply_def demo_far_to_def)
  obtain s where "sd = PublicSide" "rq_cseq fwd = Some (s, ''ACK'')" "unat s = 9"
    using trunk_gets_its_own_numbers [OF S demo_in_call_fs(1) n _ demo_in_call_fs(2) demo_from_fs_source(2) demo_in_call_fs(3) _ _ disjI1 [OF sent]]
    by auto
  moreover from this(3) have "s = 9" by (simp add: word_unat_eq_iff)
  ultimately show ?thesis using sent unfolding list_ex_iff by force
qed

lemma in_dialog_witness:
  "length (sent_replies (relayInDialog demo_ctx demo_in_call (demo_from_fs ''BYE'' 8) None)) = 1"
proof -
  have "\<not> list_ex (\<lambda>a. case a of Panic \<Rightarrow> True | _ \<Rightarrow> False) (relayInDialog demo_ctx demo_in_call (demo_from_fs ''BYE'' 8) None)"
    by code_simp
  then have "Panic \<notin> set (relayInDialog demo_ctx demo_in_call (demo_from_fs ''BYE'' 8) None)"
    unfolding list_ex_iff by fastforce
  from in_dialog_requests_are_vetted [OF this, of PublicSide demo_invite] show ?thesis by blast
qed

end
