(* ===== verification/Handler_Rules.thy ===== *)
theory Handler_Rules
  imports Proxy_Dialog
begin

text \<open>
  What a property of single actions needs to hold of every action of every handler. The
  interface is the locale \<open>act_rule\<close>: a property that all replies and ordinary effects have,
  and, when it is \<open>strict\<close>, that may forbid nil dereferences and the keeping of incomplete
  requests. Inside it each handler is shown to respect the property once; its two
  interpretations are that nothing but REGISTER stores a contact, and that requests with the
  headers RFC 3261 demands crash no handler.
\<close>

section \<open>Complete requests\<close>

definition addressed :: "request \<Rightarrow> bool" where
  "addressed req \<longleftrightarrow> rq_from req \<noteq> None \<and> rq_to req \<noteq> None \<and> rq_call_id req \<noteq> None"

definition complete :: "request \<Rightarrow> bool" where
  "complete req \<longleftrightarrow> addressed req \<and> get_header (rq_headers req) ''Via'' \<noteq> None"

lemma addressed_updates [simp]:
  "addressed (req\<lparr>rq_dest := d\<rparr>) = addressed req" "addressed (req\<lparr>rq_transport := t\<rparr>) = addressed req"
  by (simp_all add: addressed_def rq_from_def rq_to_def)

lemma lower_From: "to_lower ''From'' = ''from''" by code_simp

lemma find_address_forwarded:
  "n \<in> {''From'', ''To''} \<Longrightarrow> find_address n (forwarded_headers cfg S keepHop hs) = find_address n hs"
proof (induction hs)
  case (Cons h hs)
  then show ?case by (cases h) (auto simp: forwarded_def find_address_append lower_From)
qed simp

lemma find_call_id_forwarded: "find_call_id (forwarded_headers cfg S keepHop hs) = find_call_id hs"
proof (induction hs)
  case (Cons h hs)
  then show ?case by (cases h) (auto simp: forwarded_def)
qed simp

lemma addressed_forward:
  assumes "sipgo_ok S" "buildForwardRequestWithURIAndRoute cfg S req u keepHop = Some fwd"
  shows "addressed fwd = addressed req"
proof -
  have "rq_max_forwards req \<noteq> Some 0" using build_forward_eq [OF assms(1), of req cfg u keepHop] assms(2) by auto
  with build_forward_eq [OF assms(1), of req cfg u keepHop] assms(2) obtain v where
    "rq_headers fwd = forwarded_headers cfg S keepHop (rq_headers req)
       @ [HMaxForwards (next_hops (rq_max_forwards req)), HText ''Content-Length'' v]" by auto
  then show ?thesis
    by (simp add: addressed_def rq_from_def rq_to_def find_address_append find_call_id_append find_address_forwarded
        find_call_id_forwarded split: option.split)
qed

lemma addressed_record_route: "sipgo_ok S \<Longrightarrow> addressed (addRecordRoute cfg S d req) = addressed req"
  by (simp add: addRecordRoute_def addressed_def rq_from_def rq_to_def Let_def sipgo_okD)

lemma find_address_add_cseq: "find_address n (add_cseq k hs) = find_address n hs" "find_call_id (add_cseq k hs) = find_call_id hs"
  by (induction k hs rule: add_cseq.induct) auto

lemma addressed_shift: "addressed (shiftCSeq k req) = addressed req"
  by (simp add: shiftCSeq_def addressed_def rq_from_def rq_to_def find_address_add_cseq)

lemma lower_Via: "to_lower ''Via'' = ''via''" by code_simp

lemma complete_outgoing:
  assumes "sipgo_ok S" "outgoing S req = Some fwd"
  shows "complete fwd = addressed req"
proof -
  obtain v where "sg_add_via S req = req\<lparr>rq_headers := HText ''Via'' v # rq_headers req\<rparr>"
    using sipgo_add_via [OF assms(1)] by blast
  moreover have "fwd = sg_add_via S req" using assms(2) by (simp add: outgoing_def Let_def split: if_splits)
  ultimately have "fwd = req\<lparr>rq_headers := HText ''Via'' v # rq_headers req\<rparr>" by simp
  then show ?thesis
    by (simp add: complete_def addressed_def rq_from_def rq_to_def get_header_def named_def lower_Via)
qed

lemma find_address_named: "find_address n hs = Some x \<Longrightarrow> get_header hs n \<noteq> None"
  by (induction n hs rule: find_address.induct) (auto simp: get_header_def named_def split: if_splits)

lemma complete_cancel: "complete req \<Longrightarrow> cancel_request S req \<noteq> None"
  by (auto simp: complete_def addressed_def rq_from_def rq_to_def cancel_request_def Let_def
      dest: find_address_named split: option.split)

lemma complete_cong: "rq_headers r = rq_headers r' \<Longrightarrow> complete r = complete r'"
  by (simp add: complete_def addressed_def rq_from_def rq_to_def)

section \<open>Forks of complete requests\<close>

definition fork_complete :: "fork \<Rightarrow> bool" where
  "fork_complete f \<longleftrightarrow> length (fk_branches f) = length (fk_preps f) \<and> (\<forall>prep \<in> set (fk_preps f). addressed (snd prep))
     \<and> (\<forall>b \<in> set (fk_branches f). \<forall>fwd. br_fwd b = Some fwd \<longrightarrow> complete fwd)"

lemma fork_complete_change:
  "fork_complete f \<Longrightarrow> fk_branches g = fk_branches f \<Longrightarrow> fk_preps g = fk_preps f \<Longrightarrow> fork_complete g"
  by (simp add: fork_complete_def)

lemma fork_complete_put [simp]: "fork_complete (put_result r f) = fork_complete f"
  by (simp add: fork_complete_def put_result_def)

lemma fork_complete_set:
  assumes "fork_complete f" "\<And>fwd. br_fwd b = Some fwd \<Longrightarrow> complete fwd"
  shows "fork_complete (set_branch i b f)"
  using assms set_update_subset_insert [of "fk_branches f" i b] by (fastforce simp: fork_complete_def set_branch_def)

lemma fork_complete_nth:
  "fork_complete f \<Longrightarrow> i < length (fk_branches f) \<Longrightarrow> br_fwd (fk_branches f ! i) = Some fwd \<Longrightarrow> complete fwd"
  by (auto simp: fork_complete_def)

lemma take_result_same [simp]: "fk_preps (snd (take_result c f)) = fk_preps f"
  by (simp add: take_result_def take_failure_def take_answer_def finish_def Let_def split: list.split branch_result.split)

lemma fork_complete_step:
  assumes S: "sipgo_ok (cx_sip c)" and f: "fork_complete f"
  shows "fork_complete (snd (fork_step c ev f))"
proof (cases ev)
  case (Sent i ok)
  have "complete fwd" if "i < length (fk_branches f)" "outgoing (cx_sip c) (snd (fk_preps f ! i)) = Some fwd" for fwd
    using complete_outgoing [OF S that(2)] that(1) f by (simp add: fork_complete_def)
  with f Sent show ?thesis
    by (auto simp: Let_def intro!: fork_complete_set dest: fork_complete_nth [OF f] split: option.split)
next
  case Take
  then show ?thesis using fork_complete_change [OF f] by (simp add: take_result_channel)
qed (use f in \<open>auto simp: listening_def leave_branch_def Let_def intro!: fork_complete_set dest: fork_complete_nth [OF f]\<close>)

lemma fork_complete_started:
  assumes S: "sipgo_ok (cx_sip c)" and req: "addressed req"
    and start: "snd (handleInviteFromFSToUser c p req toUser toDomain) = Some f"
  shows "fork_complete f"
proof -
  have "addressed (snd prep)" if "prep \<in> set (prepare_branch (cx_sip c) cfg req toUser ct)" for prep ct cfg
    using that req addressed_forward [OF S] addressed_record_route [OF S]
    by (auto simp: prepare_branch_def buildForwardRequestWithURI_def Let_def split: option.splits if_splits)
  moreover have "fk_preps f = concat (map (prepare_branch (cx_sip c) (px_cfg p) req toUser)
      (LookupByType (cx_now c) (px_reg p) (toUser @ ''@'' @ toDomain) (isWebRTCSDP (rq_body req))))"
    using start by (auto simp: handleInviteFromFSToUser_def Let_def split: option.splits if_splits)
  ultimately have "\<forall>prep \<in> set (fk_preps f). addressed (snd prep)" by fastforce
  with started_fork(5) [OF start] show ?thesis by (auto simp: fork_complete_def new_branch_def)
qed

section \<open>The interface\<close>

text \<open>Effects that neither store a contact nor keep a request for a later CANCEL.\<close>

fun ordinary :: "effect \<Rightarrow> bool" where
  "ordinary (EReg (OpRegister aor ct)) = False"
| "ordinary (EStoreActive k entry) = False"
| "ordinary _ = True"

locale act_rule =
  fixes P :: "effect act \<Rightarrow> bool" and strict :: bool
  assumes reply: "P (Reply r)"
    and usual: "ordinary e \<Longrightarrow> P (Act e)"
    and kept: "(strict \<Longrightarrow> complete (ae_req entry)) \<Longrightarrow> P (Act (EStoreActive k entry))"
    and crash: "\<not> strict \<Longrightarrow> P Panic"
begin

lemma said: "P (respond c req n t)" "P (send_challenge c req d)"
  by (simp_all add: respond_def send_challenge_def reply)

lemma failures: "list_all P (failed t req)" "list_all P (failedAuth t req err)"
  by (simp_all add: failed_def failedAuth_def usual)

lemmas basic = reply usual kept crash said failures

lemma absent:
  "(strict \<Longrightarrow> addressed req) \<Longrightarrow> rq_call_id req = None \<or> rq_from req = None \<or> rq_to req = None \<Longrightarrow> P Panic"
  by (rule crash) (auto simp: addressed_def)

lemma ending:
  "list_all P forget \<Longrightarrow> list_all P (case out of Waiting \<Rightarrow> [] | Ended established \<Rightarrow>
     [Act (EDeleteActive callID), Act (ETerminate fwd)] @ (if established then [] else forget))"
  by (simp add: usual split: outcome.split)

lemma cleanup: "list_all P (cleanupCall callID state)"
  by (simp add: cleanupCall_def basic)

lemma authentication:
  assumes "strict \<Longrightarrow> addressed req"
  shows "list_all P (snd (authenticateExternalRequest c p req ip))"
proof -
  have "list_all P (snd (authenticate_user c p req fu))" for fu
    by (simp add: authenticate_user_def Let_def basic split: sum.split)
  moreover have "list_all P (snd (authenticate_trunk c p req ip))"
    using absent [OF assms] by (auto simp: authenticate_trunk_def Let_def basic split: option.split sum.split api_error.split)
  moreover have "rq_from req = None \<Longrightarrow> P Panic" using absent [OF assms] by blast
  ultimately show ?thesis by (simp add: authenticateExternalRequest_def split: option.split)
qed

lemma in_dialog_authentication:
  assumes "strict \<Longrightarrow> addressed req"
  shows "list_all P (snd (authorizeExternalInDialog c p req state ip))"
proof -
  have "rq_from req = None \<Longrightarrow> P Panic" using absent [OF assms] by blast
  with authentication [OF assms] show ?thesis by (simp add: authorizeExternalInDialog_def split: option.split)
qed

lemma cancelling:
  assumes "\<And>entry. gm_get (px_activeTx q) callID = Some entry \<Longrightarrow> strict \<Longrightarrow> complete (ae_req entry)"
  shows "list_all P (cancelOutgoing S q callID)"
proof -
  have "P Panic" if "gm_get (px_activeTx q) callID = Some entry" "cancel_request S (ae_req entry) = None" for entry
    using assms [OF that(1)] complete_cancel [of "ae_req entry" S] that(2) crash by blast
  then show ?thesis by (auto simp: cancelOutgoing_def write_checked_def usual split: option.split)
qed

text \<open>Registration.\<close>

lemma removing: "list_all P (register_remove c p req user domain)"
  by (simp add: register_remove_def Let_def basic)

text \<open>INVITE to FreeSWITCH and to a trunk.\<close>

lemma fs_loop: "list_all P (fst (to_fs_loop c req callID fu a us evs))"
  by (induction c req callID fu a us evs rule: to_fs_loop.induct) (auto simp: Let_def basic split: prod.split)

lemma calling_fs:
  assumes S: "sipgo_ok (cx_sip c)" and req: "strict \<Longrightarrow> addressed req"
  shows "list_all P (invite_to_fs c q req sent evs)"
proof -
  have stored: "P (Act (EStoreActive callID \<lparr>ae_req = fwd, ae_client = PrivateSide\<rparr>))"
    if "to_fs_request c cfg req a = Some fwdReq" "outgoing (cx_sip c) fwdReq = Some fwd" for callID cfg a fwdReq fwd
  proof (rule kept)
    assume strict
    from that(1) obtain fwd0 where "buildForwardRequestWithURIAndRoute cfg (cx_sip c) req (rq_uri req) [] = Some fwd0"
      "fwdReq = addRecordRoute cfg (cx_sip c) ''to_fs'' (fwd0\<lparr>rq_dest := a, rq_transport := ''udp''\<rparr>)"
      by (auto simp: to_fs_request_def buildForwardRequest_def buildForwardRequestWithURI_def)
    with complete_outgoing [OF S that(2)] addressed_forward [OF S] req \<open>strict\<close>
    show "complete (ae_req \<lparr>ae_req = fwd, ae_client = PrivateSide\<rparr>)" by (simp add: addressed_record_route [OF S])
  qed
  show ?thesis
  proof (cases "rq_call_id req = None \<or> rq_from req = None \<or> rq_to req = None")
    case True
    with absent [OF req] show ?thesis by (auto simp: invite_to_fs_def split: option.split)
  next
    case False
    then show ?thesis
      using fs_loop stored
      by (auto simp: invite_to_fs_def Let_def case_prod_unfold basic intro!: ending split: option.split if_splits)
  qed
qed

lemma trunk_waiting: "list_all P (fst (trunk_auth c req callID u d su evs))"
  by (induction c req callID u d su evs rule: trunk_auth.induct) (auto simp: basic)

lemma trunk_looping: "list_all P (fst (trunk_loop c req fwd trunk callID u d su evs))"
  by (induction c req fwd trunk callID u d su evs rule: trunk_loop.induct)
    (auto simp: Let_def basic trunk_waiting case_prod_unfold)

lemma calling_trunk:
  assumes S: "sipgo_ok (cx_sip c)" and req: "strict \<Longrightarrow> addressed req"
  shows "list_all P (invite_to_trunk c cfg req toUser number trunk sent evs)"
proof -
  have stored: "P (Act (EStoreActive callID \<lparr>ae_req = fwd, ae_client = PublicSide\<rparr>))"
    if "buildForwardRequestWithURI cfg (cx_sip c) req u = Some fwd0"
      "outgoing (cx_sip c) (addRecordRoute cfg (cx_sip c) d (fwd0\<lparr>rq_dest := a\<rparr>)) = Some fwd" for callID u d a fwd0 fwd
  proof (rule kept)
    assume strict
    with complete_outgoing [OF S that(2)] addressed_forward [OF S that(1) [unfolded buildForwardRequestWithURI_def]] req
    show "complete (ae_req \<lparr>ae_req = fwd, ae_client = PublicSide\<rparr>)" by (simp add: addressed_record_route [OF S])
  qed
  show ?thesis
  proof (cases "rq_call_id req = None")
    case True
    with absent [OF req] show ?thesis by (simp add: invite_to_trunk_def)
  next
    case False
    then show ?thesis
      using trunk_looping stored
      by (auto simp: invite_to_trunk_def Let_def case_prod_unfold basic intro!: ending split: option.split if_splits)
  qed
qed

lemma from_fs_to_trunk:
  assumes "sipgo_ok (cx_sip c)" "strict \<Longrightarrow> addressed req"
  shows "list_all P (handleInviteFromFSToTrunk c p req toUser sent evs)"
  using calling_trunk [OF assms]
  by (auto simp: handleInviteFromFSToTrunk_def basic split: option.split sum.split)

text \<open>Requests inside a call, ACK, CANCEL, OPTIONS.\<close>

lemma answering: "list_all P (relay_answer c req callID state answer)"
  by (simp add: relay_answer_def basic cleanup split: option.split)

lemma relaying:
  assumes S: "sipgo_ok (cx_sip c)" and req: "strict \<Longrightarrow> addressed req"
  shows "list_all P (relay_known c cfg isFS req callID state answer)"
proof -
  have "P Panic" if "in_dialog_request (cx_sip c) cfg isFS req state = Some (sd, fwdReq)" "\<not> logs_addresses isFS req fwdReq" for sd fwdReq
  proof (rule crash)
    have "addressed fwdReq = addressed req"
      using that(1) addressed_forward [OF S]
      by (auto simp: in_dialog_request_def forward_to_user_def forward_to_fs_def buildInDialogForwardRequestForHop_def Let_def
          addressed_shift split: if_splits)
    with that(2) req show "\<not> strict" by (auto simp: logs_addresses_def addressed_def split: if_splits)
  qed
  then show ?thesis by (auto simp: relay_known_def basic answering split: option.split)
qed

lemma in_dialog:
  assumes S: "sipgo_ok (cx_sip c)" and req: "strict \<Longrightarrow> addressed req"
  shows "list_all P (relayInDialog c p req answer)"
  using relaying [OF assms] in_dialog_authentication [OF req] absent [OF req]
  by (auto simp: relayInDialog_def basic case_prod_unfold Let_def split: option.split)

lemma ack: "(strict \<Longrightarrow> addressed req) \<Longrightarrow> list_all P (handleAck c p req)"
  using absent [of req] by (auto simp: handleAck_def basic split: option.split)

lemma options: "list_all P (handleOptions c req)"
  by (simp add: handleOptions_def Let_def basic)

text \<open>Forking.\<close>

lemma branch_cancelling:
  assumes "\<And>fwd. br_fwd b = Some fwd \<Longrightarrow> strict \<Longrightarrow> complete fwd"
  shows "list_all P (cancelBranch S b)"
proof -
  have "P Panic" if "br_fwd b = Some fwd" "cancel_request S fwd = None" for fwd
    using assms [OF that(1)] complete_cancel [of fwd S] that(2) crash by blast
  then show ?thesis by (auto simp: cancelBranch_def write_checked_def usual split: option.split)
qed

lemma all_cancelling:
  assumes "strict \<Longrightarrow> fork_complete f"
  shows "list_all P (concat (map (cancelBranch S) (fk_branches f)))" "list_all P (cancel_siblings S i (fk_branches f))"
proof -
  have one: "list_all P (cancelBranch S b)" if "b \<in> set (fk_branches f)" for b
    using that assms by (intro branch_cancelling) (auto simp: fork_complete_def)
  then show "list_all P (concat (map (cancelBranch S) (fk_branches f)))" by (auto simp: list_all_iff)
  have "b \<in> set (fk_branches f)" if "(j, b) \<in> set (enumerate 0 (fk_branches f))" for j b
    using that by (auto simp: in_set_enumerate_eq)
  with one show "list_all P (cancel_siblings S i (fk_branches f))"
    by (auto simp: cancel_siblings_def list_all_iff split: if_splits)
qed

lemma defers: "list_all P (fork_defers e f)"
  by (simp add: fork_defers_def usual)

lemma continuing: "list_all P as \<Longrightarrow> list_all P (fst (fork_continue c as f))"
  by (simp add: fork_continue_def finish_def basic defers split: option.split)

lemma taking:
  assumes "strict \<Longrightarrow> fork_complete f"
  shows "list_all P (fst (take_result c f))"
proof -
  have "list_all P (fst (take_answer c i r (f\<lparr>fk_results := rest\<rparr>)))" for i r rest
    using all_cancelling [OF assms]
    by (simp add: take_answer_def Let_def finish_def basic defers continuing)
  then show ?thesis
    by (simp add: take_result_def take_failure_def Let_def basic continuing split: list.split branch_result.split)
qed

lemma fork_steps:
  assumes "strict \<Longrightarrow> fork_complete f"
  shows "list_all P (fst (fork_step c ev f))"
  using taking [OF assms] all_cancelling [OF assms]
  by (cases ev) (simp_all add: Let_def leave_branch_def basic split: option.split)

lemma fork_runs:
  assumes "sipgo_ok (cx_sip c)"
  shows "(strict \<Longrightarrow> fork_complete f) \<Longrightarrow> list_all P (fst (fork_run c evs f))"
  by (induction evs arbitrary: f)
    (simp_all add: case_prod_unfold fork_steps fork_complete_step [OF assms])

lemma from_fs_to_user:
  assumes "strict \<Longrightarrow> complete req"
  shows "list_all P (fst (handleInviteFromFSToUser c p req u d))"
proof -
  have "P (Act (EStoreActive k \<lparr>ae_req = req, ae_client = PublicSide\<rparr>))" for k by (rule kept) (simp add: assms)
  moreover have "rq_call_id req = None \<Longrightarrow> P Panic" using absent [of req] assms by (simp add: complete_def)
  ultimately show ?thesis
    by (simp add: handleInviteFromFSToUser_def Let_def basic split: option.split)
qed

text \<open>INVITE and CANCEL.\<close>

lemma from_fs:
  assumes S: "sipgo_ok (cx_sip c)" and req: "strict \<Longrightarrow> complete req"
  shows "list_all P (handleInviteFromFS c p req m)"
proof -
  have addr: "strict \<Longrightarrow> addressed req" using req by (simp add: complete_def)
  have "list_all P (case handleInviteFromFSToUser c p req u d of
      (as, None) \<Rightarrow> as | (as, Some f) \<Rightarrow> as @ fst (fork_run c evs f))" for u d evs
  proof (cases "snd (handleInviteFromFSToUser c p req u d)")
    case None
    then show ?thesis using from_fs_to_user [OF req, of c p u d] by (simp add: case_prod_unfold)
  next
    case (Some f)
    have "list_all P (fst (fork_run c evs f))"
      by (rule fork_runs [OF S]) (rule fork_complete_started [OF S addr Some])
    with Some show ?thesis using from_fs_to_user [OF req, of c p u d] by (simp add: case_prod_unfold)
  qed
  with from_fs_to_trunk [OF S addr] absent [OF addr] show ?thesis
    by (simp add: handleInviteFromFS_def split: option.split)
qed

lemma invite:
  assumes S: "sipgo_ok (cx_sip c)" and req: "strict \<Longrightarrow> complete req"
  shows "list_all P (handleInvite c p q req m)"
proof -
  have addr: "strict \<Longrightarrow> addressed req" using req by (simp add: complete_def)
  show ?thesis
    using from_fs [OF assms] in_dialog [OF S addr] absent [OF addr] authentication [OF addr] calling_fs [OF S addr]
    by (auto simp: handleInvite_def handleInviteToFS_def case_prod_unfold Let_def basic)
qed

lemma cancel:
  assumes "strict \<Longrightarrow> addressed req"
    and "\<And>callID entry. gm_get (px_activeTx q) callID = Some entry \<Longrightarrow> strict \<Longrightarrow> complete (ae_req entry)"
  shows "list_all P (handleCancel c p q req)"
  using authentication [OF assms(1)] absent [OF assms(1)] cancelling [OF assms(2)]
  by (auto simp: handleCancel_def case_prod_unfold Let_def basic split: option.split)

end

end
