(* ===== verification/Sbc_Machine.thy ===== *)
theory Sbc_Machine
  imports Handler_Rules
begin

text \<open>
  The whole proxy as a transition system. A request that arrives at one of the two servers
  (\<^verbatim>\<open>sbc/main.go\<close>) starts a goroutine of its own; what its handler does is a list of
  actions, performed one at a time in any interleaving with the others' and with the
  background loops; each action is atomic, as it runs under one lock or sends one message.
  A handler that has waited for the server goes on with the state of that moment.

  A \<open>world\<close> is the proxy, the goroutines' remaining actions, the requests they serve and the
  log of what was performed; \<open>reachable\<close> are the worlds a fresh proxy can get into, and the
  properties are invariants of them. What a handler meets while it waits (responses, the
  steps of a fork) is given to it when it starts, as every sequence is possible.
\<close>

section \<open>One request\<close>

text \<open>Which handler serves which method.\<close>

definition handle_request :: "ctx \<Rightarrow> proxy \<Rightarrow> proxy \<Rightarrow> request \<Rightarrow> meets \<Rightarrow> acts" where
  "handle_request c p q req m =
     (let meth = rq_method req in
      if meth = ''REGISTER'' then handleRegister c p req
      else if meth = ''INVITE'' then handleInvite c p q req m
      else if meth = ''ACK'' then handleAck c p req
      else if meth = ''CANCEL'' then handleCancel c p q req
      else if meth = ''OPTIONS'' then handleOptions c req
      else if meth \<in> {''BYE'', ''REFER'', ''INFO'', ''UPDATE'', ''NOTIFY''} then handlePassthrough c p req (mt_answer m)
      else [])"

text \<open>The wrapper of a side's handlers.\<close>

definition side_wrap :: "side \<Rightarrow> sipgo \<Rightarrow> instant \<Rightarrow> ipban option \<Rightarrow> (request \<Rightarrow> acts) \<Rightarrow> request \<Rightarrow> acts" where
  "side_wrap sd S now ban h req =
     (case sd of PublicSide \<Rightarrow> publicWrap S now ban h req | PrivateSide \<Rightarrow> privateWrap S h req)"

text \<open>The two segments of a handler: what it does with the state it starts in, and what it does
  after it has waited for the server, with the state of that moment.\<close>

type_synonym segments = "acts \<times> (proxy \<Rightarrow> acts)"

definition goes_to_fs :: "proxy \<Rightarrow> request \<Rightarrow> bool" where
  "goes_to_fs p req \<longleftrightarrow> \<not> tooManyHops req \<and> rq_to req \<noteq> None \<and> rq_to_tag req = [] \<and> rq_from req \<noteq> None
     \<and> \<not> IsFromFS (px_disp p) (sourceIPFromRequest req)"

definition invite_segments :: "ctx \<Rightarrow> proxy \<Rightarrow> request \<Rightarrow> meets \<Rightarrow> segments" where
  "invite_segments c p req m =
     (if goes_to_fs p req then
        (case authenticateExternalRequest c p req (sourceIPFromRequest req) of (ok, as) \<Rightarrow>
           (as, \<lambda>q. if ok then invite_to_fs c q req (mt_sent m) (mt_events m) else []))
      else (handleInvite c p p req m, \<lambda>q. []))"

definition cancel_segments :: "ctx \<Rightarrow> proxy \<Rightarrow> request \<Rightarrow> segments" where
  "cancel_segments c p req =
     (if tooManyHops req then ([respond c req 483 ''Too Many Hops''], \<lambda>q. [])
      else
        let sourceIP = sourceIPFromRequest req;
            (ok, as) = (if IsFromFS (px_disp p) sourceIP then (True, []) else authenticateExternalRequest c p req sourceIP)
        in (as @ (if ok then [respond c req 200 ''OK''] else []),
            \<lambda>q. if ok then (case rq_call_id req of None \<Rightarrow> [Panic] | Some callID \<Rightarrow> cancelOutgoing (cx_sip c) q callID) else []))"

definition handler_segments :: "ctx \<Rightarrow> proxy \<Rightarrow> request \<Rightarrow> meets \<Rightarrow> segments" where
  "handler_segments c p req m =
     (if rq_method req = ''INVITE'' then invite_segments c p req m
      else if rq_method req = ''CANCEL'' then cancel_segments c p req
      else (handle_request c p p req m, \<lambda>q. []))"

text \<open>A request's transaction below the checks, and the segments with the wrapper around them.\<close>

definition checked_tx :: "side \<Rightarrow> sipgo \<Rightarrow> request \<Rightarrow> effect tx" where
  "checked_tx sd S req = validatingTx S req (case sd of PublicSide \<Rightarrow> front_tx req | PrivateSide \<Rightarrow> wire)"

definition admitted :: "side \<Rightarrow> sipgo \<Rightarrow> instant \<Rightarrow> ipban option \<Rightarrow> request \<Rightarrow> bool" where
  "admitted sd S now ban req \<longleftrightarrow> clean_request S req
     \<and> (case sd of PublicSide \<Rightarrow> \<not> Banned now ban (sourceIPFromRequest req) | PrivateSide \<Rightarrow> True)"

definition request_segments :: "side \<Rightarrow> ctx \<Rightarrow> proxy \<Rightarrow> request \<Rightarrow> meets \<Rightarrow> segments" where
  "request_segments sd c p req m =
     (let wrap = side_wrap sd (cx_sip c) (cx_now c) (px_ban p); hs = handler_segments c p req m
      in (wrap (\<lambda>r. fst hs) req,
          \<lambda>q. if admitted sd (cx_sip c) (cx_now c) (px_ban p) req \<and> \<not> panics (via (checked_tx sd (cx_sip c) req) (fst hs))
              then via (checked_tx sd (cx_sip c) req) (snd hs q) else []))"

text \<open>Put together again, the segments are the wrapped handler.\<close>

lemma invite_segments: "handleInvite c p q req m = fst (invite_segments c p req m) @ snd (invite_segments c p req m) q"
proof (cases "goes_to_fs p req")
  case True
  then show ?thesis
    by (auto simp: invite_segments_def goes_to_fs_def handleInvite_def handleInviteToFS_def case_prod_unfold Let_def)
next
  case False
  then have "handleInvite c p q req m = handleInvite c p p req m"
    by (auto simp: goes_to_fs_def handleInvite_def Let_def)
  with False show ?thesis by (simp add: invite_segments_def)
qed

lemma cancel_segments: "handleCancel c p q req = fst (cancel_segments c p req) @ snd (cancel_segments c p req) q"
  by (simp add: cancel_segments_def handleCancel_def case_prod_unfold Let_def)

lemma handler_segments:
  "handle_request c p q req m = fst (handler_segments c p req m) @ snd (handler_segments c p req m) q"
  using invite_segments [of c p q req m] cancel_segments [of c p q req]
  by (auto simp: handler_segments_def handle_request_def Let_def)

lemma via_append: "via tx (as @ bs) = via tx as @ (if Panic \<in> set (via tx as) then [] else via tx bs)"
  by (induction tx as rule: via.induct) (auto simp: Let_def)

lemma side_wrap_eq:
  "side_wrap sd S now ban h req =
     (if admitted sd S now ban req then via (checked_tx sd S req) (h req)
      else side_wrap sd S now ban (\<lambda>r. []) req)"
  by (cases sd) (auto simp: side_wrap_def admitted_def checked_tx_def publicWrap_eq privateWrap_eq)

lemma request_segments:
  "side_wrap sd (cx_sip c) (cx_now c) (px_ban p) (\<lambda>r. handle_request c p q r m) req =
     fst (request_segments sd c p req m) @ snd (request_segments sd c p req m) q"
proof (cases "admitted sd (cx_sip c) (cx_now c) (px_ban p) req")
  case True
  then show ?thesis
    using side_wrap_eq [of sd "cx_sip c" "cx_now c" "px_ban p" _ req]
    by (simp add: request_segments_def Let_def handler_segments [of c p q req m] via_append)
next
  case False
  then have "side_wrap sd (cx_sip c) (cx_now c) (px_ban p) h req = side_wrap sd (cx_sip c) (cx_now c) (px_ban p) h' req" for h h'
    by (subst (1 2) side_wrap_eq) simp
  with False show ?thesis by (simp add: request_segments_def Let_def)
qed

section \<open>The world\<close>

record job =
  jb_side :: side
  jb_ctx :: ctx
  jb_at :: proxy      \<comment> \<open>the state when it started\<close>
  jb_req :: request
  jb_meets :: meets

datatype origin = ByJob nat | Background

type_synonym thread = "acts \<times> (proxy \<Rightarrow> acts) option"

record world =
  wd_px :: proxy
  wd_jobs :: "job list"
  wd_threads :: "thread list"
  wd_log :: "(origin \<times> effect act) list"

definition start_world :: "config \<Rightarrow> world" where
  "start_world cfg = \<lparr>wd_px = newProxy cfg, wd_jobs = [], wd_threads = [], wd_log = []\<rparr>"

definition job_segments :: "job \<Rightarrow> segments" where
  "job_segments j = request_segments (jb_side j) (jb_ctx j) (jb_at j) (jb_req j) (jb_meets j)"

definition perform :: "origin \<Rightarrow> acts \<Rightarrow> world \<Rightarrow> world" where
  "perform who as w = w\<lparr>wd_px := run_acts as (wd_px w), wd_log := wd_log w @ map (Pair who) as\<rparr>"

text \<open>What runs in goroutines of its own: a tick of the reaper, the outcome of a ping, the
  announcement of a lapsed registration, which some action asked for, and
  \<^verbatim>\<open>tx.OnCancel\<close>, when the caller cancels an INVITE that is under way.\<close>

datatype tick = Reap instant | Pinged natContact int bool | Lapse instant string | CallerCancelled string

fun tick_acts :: "sipgo \<Rightarrow> tick \<Rightarrow> proxy \<Rightarrow> acts" where
  "tick_acts S (Reap now) p = reapExpired_tick now p"
| "tick_acts S (Pinged nc maxMissed answered) p = pingContact p nc maxMissed answered"
| "tick_acts S (Lapse now aor) p = registrationLapsed now p aor"
| "tick_acts S (CallerCancelled callID) p = cancelOutgoing S p callID"

fun tick_due :: "tick \<Rightarrow> world \<Rightarrow> bool" where
  "tick_due (Lapse now aor) w \<longleftrightarrow> Act (ELapsed aor) \<in> snd ` set (wd_log w)"
| "tick_due (Reap now) w \<longleftrightarrow> True"
| "tick_due (Pinged nc maxMissed answered) w \<longleftrightarrow> True"
| "tick_due (CallerCancelled callID) w \<longleftrightarrow> gm_get (px_activeTx (wd_px w)) callID \<noteq> None"

inductive sbc_step :: "sipgo \<Rightarrow> world \<Rightarrow> world \<Rightarrow> bool" for S :: sipgo where
  arrive: "cx_sip (jb_ctx j) = S \<Longrightarrow> jb_at j = wd_px w \<Longrightarrow>
     sbc_step S w (w\<lparr>wd_jobs := wd_jobs w @ [j],
       wd_threads := wd_threads w @ [(fst (job_segments j), Some (snd (job_segments j)))]\<rparr>)"
| act: "i < length (wd_threads w) \<Longrightarrow> wd_threads w ! i = (a # as, k) \<Longrightarrow>
     sbc_step S w (perform (ByJob i) [a] (w\<lparr>wd_threads := (wd_threads w)[i := (as, k)]\<rparr>))"
| wake: "i < length (wd_threads w) \<Longrightarrow> wd_threads w ! i = ([], Some k) \<Longrightarrow>
     sbc_step S w (w\<lparr>wd_threads := (wd_threads w)[i := (k (wd_px w), None)]\<rparr>)"
| tick: "tick_due t w \<Longrightarrow> sbc_step S w (perform Background (tick_acts S t (wd_px w)) w)"
| target_found: "sbc_step S w (w\<lparr>wd_px := (wd_px w)\<lparr>px_disp := AddTarget target (px_disp (wd_px w))\<rparr>\<rparr>)"
| target_gone: "sbc_step S w (w\<lparr>wd_px := (wd_px w)\<lparr>px_disp := RemoveTarget target (px_disp (wd_px w))\<rparr>\<rparr>)"

inductive_cases sbc_stepE: "sbc_step S w w'"

inductive reachable :: "sipgo \<Rightarrow> config \<Rightarrow> world \<Rightarrow> bool" for S :: sipgo and cfg :: config where
  start: "reachable S cfg (start_world cfg)"
| step: "reachable S cfg w \<Longrightarrow> sbc_step S w w' \<Longrightarrow> reachable S cfg w'"

lemma perform_simps [simp]:
  "wd_px (perform who as w) = run_acts as (wd_px w)" "wd_jobs (perform who as w) = wd_jobs w"
  "wd_threads (perform who as w) = wd_threads w" "wd_log (perform who as w) = wd_log w @ map (Pair who) as"
  by (simp_all add: perform_def)

lemma start_world_simps [simp]:
  "wd_px (start_world cfg) = newProxy cfg" "wd_jobs (start_world cfg) = []"
  "wd_threads (start_world cfg) = []" "wd_log (start_world cfg) = []"
  by (simp_all add: start_world_def)

section \<open>Well-formed states\<close>

definition proxy_ok :: "proxy \<Rightarrow> bool" where
  "proxy_ok p \<longleftrightarrow> reg_ok (px_reg p) \<and> aff_ok (px_affinity p) \<and> gm_ok (px_calls p) \<and> gm_ok (px_activeTx p)
     \<and> gm_ok (px_spoofCache p) \<and> ban_sources_public p"

lemma proxy_ok_effect: "proxy_ok p \<Longrightarrow> proxy_ok (do_effect e p)"
  using ban_sources_public_do [of p e]
  by (cases e) (simp_all add: proxy_ok_def reg_ok_step pins.ok_save pins.ok_drop)

lemma proxy_ok_run: "proxy_ok p \<Longrightarrow> proxy_ok (run_acts as p)"
proof (induction as arbitrary: p)
  case (Cons a as)
  then show ?case by (cases a) (simp_all add: proxy_ok_effect)
qed simp

lemma run_cfg: "px_cfg (run_acts as p) = px_cfg p"
proof (induction as arbitrary: p)
  case (Cons a as)
  have "px_cfg (do_effect e p) = px_cfg p" for e p by (cases e) simp_all
  with Cons show ?case by (cases a) simp_all
qed simp

section \<open>What a goroutine has done is what its handler does\<close>

definition job_acts :: "job \<Rightarrow> proxy \<Rightarrow> acts" where
  "job_acts j q = side_wrap (jb_side j) (cx_sip (jb_ctx j)) (cx_now (jb_ctx j)) (px_ban (jb_at j))
     (\<lambda>r. handle_request (jb_ctx j) (jb_at j) q r (jb_meets j)) (jb_req j)"

lemma job_acts_segments: "job_acts j q = fst (job_segments j) @ snd (job_segments j) q"
  by (simp add: job_acts_def job_segments_def request_segments)

definition job_log :: "nat \<Rightarrow> world \<Rightarrow> acts" where
  "job_log i w = map snd (filter (\<lambda>x. fst x = ByJob i) (wd_log w))"

definition thread_ok :: "acts \<Rightarrow> job \<Rightarrow> thread \<Rightarrow> bool" where
  "thread_ok done j th \<longleftrightarrow>
     (case th of (as, Some k) \<Rightarrow> k = snd (job_segments j) \<and> done @ as = fst (job_segments j)
      | (as, None) \<Rightarrow> \<exists>q. done @ as = job_acts j q)"

definition world_ok :: "sipgo \<Rightarrow> config \<Rightarrow> world \<Rightarrow> bool" where
  "world_ok S cfg w \<longleftrightarrow> proxy_ok (wd_px w) \<and> px_cfg (wd_px w) = cfg \<and> length (wd_threads w) = length (wd_jobs w)
     \<and> (\<forall>i < length (wd_jobs w). cx_sip (jb_ctx (wd_jobs w ! i)) = S \<and> px_cfg (jb_at (wd_jobs w ! i)) = cfg
          \<and> thread_ok (job_log i w) (wd_jobs w ! i) (wd_threads w ! i))
     \<and> (\<forall>i a. (ByJob i, a) \<in> set (wd_log w) \<longrightarrow> i < length (wd_jobs w))"

lemma job_log_perform: "job_log i (perform who as w) = job_log i w @ (if who = ByJob i then as else [])"
proof -
  have "map snd (filter (\<lambda>x. fst x = ByJob i) (map (Pair who) as)) = (if who = ByJob i then as else [])"
    by (induction as) auto
  then show ?thesis by (simp add: job_log_def)
qed

lemma job_log_updates [simp]:
  "job_log i (w\<lparr>wd_threads := ts\<rparr>) = job_log i w" "job_log i (w\<lparr>wd_px := p\<rparr>) = job_log i w"
  "job_log i (w\<lparr>wd_jobs := js\<rparr>) = job_log i w"
  by (simp_all add: job_log_def)

lemma job_log_unborn:
  assumes "\<forall>i a. (ByJob i, a) \<in> set (wd_log w) \<longrightarrow> i < n"
  shows "job_log n w = []"
proof -
  have "(ByJob n, a) \<notin> set (wd_log w)" for a using assms by blast
  then show ?thesis by (auto simp: job_log_def filter_empty_conv)
qed

lemma world_ok_step:
  assumes "sbc_step S w w'" "world_ok S cfg w"
  shows "world_ok S cfg w'"
  using assms
proof cases
  case (arrive j)
  have "thread_ok (job_log (length (wd_jobs w)) w) j (fst (job_segments j), Some (snd (job_segments j)))"
    using job_log_unborn [of w "length (wd_jobs w)"] assms(2) by (simp add: thread_ok_def world_ok_def)
  with arrive assms(2) show ?thesis by (auto simp: world_ok_def nth_append less_Suc_eq)
next
  case (act i a as k)
  have "thread_ok (job_log i w @ [a]) (wd_jobs w ! i) (as, k)"
  proof -
    have "thread_ok (job_log i w) (wd_jobs w ! i) (a # as, k)" using act assms(2) by (simp add: world_ok_def flip: act(3))
    then show ?thesis by (simp add: thread_ok_def split: option.splits)
  qed
  with act assms(2) show ?thesis
    using proxy_ok_run [of "wd_px w" "[a]"] run_cfg [of "[a]" "wd_px w"]
    by (auto simp: world_ok_def job_log_perform nth_list_update simp del: run_acts_simps)
next
  case (wake i k)
  have "thread_ok (job_log i w) (wd_jobs w ! i) (k (wd_px w), None)"
  proof -
    have "thread_ok (job_log i w) (wd_jobs w ! i) ([], Some k)" using wake assms(2) by (simp add: world_ok_def flip: wake(3))
    then show ?thesis by (auto simp: thread_ok_def job_acts_segments)
  qed
  with wake assms(2) show ?thesis by (auto simp: world_ok_def nth_list_update)
next
  case (tick t)
  with assms(2) show ?thesis
    using proxy_ok_run [of "wd_px w"] run_cfg by (auto simp: world_ok_def job_log_perform)
qed (use assms(2) in \<open>auto simp: world_ok_def proxy_ok_def ban_sources_public_def\<close>)

lemma world_ok_reachable: "reachable S cfg w \<Longrightarrow> world_ok S cfg w"
proof (induction rule: reachable.induct)
  case start
  have "ban_sources_public (newProxy cfg)" by (auto simp: ban_sources_public_def newProxy_def newIPBan_def)
  then show ?case by (simp add: world_ok_def proxy_ok_def) (simp add: newProxy_def)
qed (rule world_ok_step)

lemma log_of_job:
  assumes "reachable S cfg w" "(ByJob i, a) \<in> set (wd_log w)"
  obtains q where "a \<in> set (job_acts (wd_jobs w ! i) q)" "i < length (wd_jobs w)"
    "cx_sip (jb_ctx (wd_jobs w ! i)) = S" "px_cfg (jb_at (wd_jobs w ! i)) = cfg"
proof -
  note ok = world_ok_reachable [OF assms(1)]
  have i: "i < length (wd_jobs w)" using ok assms(2) by (auto simp: world_ok_def)
  have a: "a \<in> set (job_log i w)" using assms(2) by (force simp: job_log_def)
  have "\<exists>q. a \<in> set (job_acts (wd_jobs w ! i) q)"
  proof (cases "wd_threads w ! i")
    case (Pair as k)
    have th: "thread_ok (job_log i w) (wd_jobs w ! i) (as, k)" using ok i by (simp add: world_ok_def flip: Pair)
    show ?thesis
    proof (cases k)
      case None
      with th obtain q where "job_log i w @ as = job_acts (wd_jobs w ! i) q" by (auto simp: thread_ok_def)
      with a show ?thesis by (metis UnCI set_append)
    next
      case (Some f)
      with th have "job_log i w @ as = fst (job_segments (wd_jobs w ! i))" by (simp add: thread_ok_def)
      with a show ?thesis by (metis UnCI set_append job_acts_segments)
    qed
  qed
  then show thesis using that i ok by (auto simp: world_ok_def)
qed

section \<open>The ACK to a 2xx finds its call\<close>

lemma recorded_first_prefix: "recorded_first k b (xs @ ys) \<Longrightarrow> recorded_first k b xs"
  by (induction k b xs rule: recorded_first.induct) auto

definition keeps_success :: "effect tx \<Rightarrow> bool" where
  "keeps_success tx \<longleftrightarrow> (\<forall>r. list_all no_success (tx r) \<or> (\<exists>r'. tx r = [Reply r'] \<and> successful r' = successful r))"

lemma keeps_successE:
  assumes "keeps_success tx"
  obtains "list_all no_success (tx r)" | r' where "tx r = [Reply r']" "successful r' = successful r"
  using assms by (auto simp: keeps_success_def)

lemma via_recorded:
  assumes tx: "keeps_success tx"
  shows "recorded_first k b as \<Longrightarrow> recorded_first k b (via tx as)"
proof (induction as arbitrary: b)
  case (Cons a as)
  show ?case
  proof (cases a)
    case (Reply r)
    then have rest: "recorded_first k False (via tx as)" using Cons by simp
    show ?thesis
    proof (rule keeps_successE [OF tx, of r])
      assume none: "list_all no_success (tx r)"
      with rest recorded_first_none [OF none] show ?thesis
        by (simp add: Reply Let_def recorded_first_append)
    next
      fix r' assume "tx r = [Reply r']" "successful r' = successful r"
      with rest Cons.prems show ?thesis by (simp add: Reply Let_def)
    qed
  next
    case Panic
    then show ?thesis by simp
  next
    case (Act e)
    with Cons show ?thesis by (cases e) simp_all
  qed
qed simp

lemma keeps_success_checked:
  assumes S: "sipgo_ok S"
  shows "keeps_success (checked_tx sd S req)"
  unfolding keeps_success_def
proof
  fix r
  let ?tx = "(case sd of PublicSide \<Rightarrow> front_tx req | PrivateSide \<Rightarrow> wire) :: effect tx"
  have base: "\<exists>r'. ?tx x = [Reply r' :: effect act] \<and> successful r' = successful x" for x
    by (cases sd) (auto simp: front_tx_reply wire_def successful_def)
  show "list_all no_success (checked_tx sd S req r) \<or> (\<exists>r'. checked_tx sd S req r = [Reply r'] \<and> successful r' = successful r)"
  proof (cases "validateResponse S r")
    case None
    with base [of r] show ?thesis by (simp add: checked_tx_def validatingTx_def)
  next
    case (Some err)
    obtain r' where r': "?tx (sg_new_response S req 502 ''Bad Gateway'' []) = [Reply r']"
      "successful r' = successful (sg_new_response S req 502 ''Bad Gateway'' [])"
      using base by blast
    then have "\<not> successful r'" by (simp add: successful_def sipgo_okD [OF S])
    with Some r'(1) show ?thesis by (simp add: checked_tx_def validatingTx_def no_success_def)
  qed
qed

lemma job_acts_recorded:
  assumes S: "sipgo_ok (cx_sip (jb_ctx j))" and meth: "rq_method (jb_req j) = ''INVITE''"
    and id: "rq_call_id (jb_req j) = Some callID" and new: "rq_to_tag (jb_req j) = []"
  shows "recorded_first callID False (job_acts j q)"
proof -
  let ?wrap = "side_wrap (jb_side j) (cx_sip (jb_ctx j)) (cx_now (jb_ctx j)) (px_ban (jb_at j))"
  have "recorded_first callID False (?wrap (\<lambda>r. []) (jb_req j))"
    by (cases "jb_side j") (auto simp: side_wrap_def publicWrap_eq privateWrap_eq front_tx_reply successful_def sipgo_okD [OF S])
  moreover have "recorded_first callID False (handle_request (jb_ctx j) (jb_at j) q (jb_req j) (jb_meets j))"
    using handleInvite_recorded [OF S id new] by (simp add: handle_request_def meth)
  ultimately show ?thesis
    unfolding job_acts_def by (subst side_wrap_eq) (simp add: via_recorded keeps_success_checked [OF S])
qed

lemma job_log_recorded:
  assumes S: "sipgo_ok S" and w: "reachable S cfg w" "i < length (wd_jobs w)"
    and req: "rq_method (jb_req (wd_jobs w ! i)) = ''INVITE''" "rq_call_id (jb_req (wd_jobs w ! i)) = Some callID"
      "rq_to_tag (jb_req (wd_jobs w ! i)) = []"
  shows "recorded_first callID False (job_log i w)"
proof -
  note ok = world_ok_reachable [OF w(1)]
  have "\<exists>q rest. job_log i w @ rest = job_acts (wd_jobs w ! i) q"
  proof (cases "wd_threads w ! i")
    case (Pair as k)
    have "thread_ok (job_log i w) (wd_jobs w ! i) (as, k)" using ok w(2) by (simp add: world_ok_def flip: Pair)
    then show ?thesis
    proof (cases k)
      case None
      with \<open>thread_ok (job_log i w) (wd_jobs w ! i) (as, k)\<close> show ?thesis by (auto simp: thread_ok_def)
    next
      case (Some f)
      with \<open>thread_ok (job_log i w) (wd_jobs w ! i) (as, k)\<close>
      have "job_log i w @ as @ snd (job_segments (wd_jobs w ! i)) q = job_acts (wd_jobs w ! i) q" for q
        by (simp add: thread_ok_def job_acts_segments flip: append_assoc)
      then show ?thesis by blast
    qed
  qed
  then obtain q rest where split: "job_log i w @ rest = job_acts (wd_jobs w ! i) q" by blast
  have "sipgo_ok (cx_sip (jb_ctx (wd_jobs w ! i)))" using ok w(2) S by (simp add: world_ok_def)
  from job_acts_recorded [OF this req] have "recorded_first callID False (job_log i w @ rest)" unfolding split .
  then show ?thesis by (rule recorded_first_prefix)
qed

text \<open>The recorded calls depend only on the actions that record or delete one.\<close>

fun calls_after :: "effect act \<Rightarrow> (string, callState) gomap \<Rightarrow> (string, callState) gomap" where
  "calls_after (Act (EStoreCall k cs)) m = gm_set k cs m"
| "calls_after (Act (EDeleteCall k)) m = gm_del k m"
| "calls_after _ m = m"

lemma calls_run: "px_calls (run_acts as p) = fold calls_after as (px_calls p)"
proof (induction as arbitrary: p)
  case (Cons a as)
  have "px_calls (do_act a p) = calls_after a (px_calls p)"
  proof (cases a)
    case (Act e)
    then show ?thesis by (cases e) simp_all
  qed simp_all
  with Cons show ?case by simp
qed simp

lemma calls_replay: "reachable S cfg w \<Longrightarrow> px_calls (wd_px w) = fold calls_after (map snd (wd_log w)) []"
proof (induction rule: reachable.induct)
  case start
  then show ?case by (simp add: newProxy_def)
next
  case (step w w')
  have ext: "map snd (map (Pair who) as) = as" for who :: origin and as :: acts by (induction as) simp_all
  from step(2) step.IH show ?case by cases (simp_all add: calls_run ext del: map_map run_acts_simps)
qed

lemma call_kept: "gm_get m k \<noteq> None \<Longrightarrow> Act (EDeleteCall k) \<notin> set as \<Longrightarrow> gm_get (fold calls_after as m) k \<noteq> None"
proof (induction as arbitrary: m)
  case (Cons a as)
  then have "gm_get (calls_after a m) k \<noteq> None" by (cases "(a, m)" rule: calls_after.cases) auto
  with Cons show ?case by simp
qed simp

lemma filtered_last:
  "map snd (filter P xs) = ys @ [y] \<Longrightarrow> \<exists>early x late. xs = early @ x # late \<and> P x \<and> snd x = y"
proof -
  assume "map snd (filter P xs) = ys @ [y]"
  then have "y \<in> snd ` set (filter P xs)" by (metis in_set_conv_decomp list.set_map)
  then obtain x where "x \<in> set xs" "P x" "snd x = y" by auto
  then show ?thesis using split_list by metis
qed

text \<open>
  Property (C5). Whatever else the proxy does at the same time, the ACK to a 2xx finds its call: when a 2xx
  to a new INVITE has been sent, the call was recorded before it, and it is still there
  unless some action has deleted it since.
\<close>

theorem ack_finds_its_call:
  fixes w :: world and callID :: string
  assumes S: "sipgo_ok S" and w: "reachable S cfg w" "i < length (wd_jobs w)"
    and req: "rq_method (jb_req (wd_jobs w ! i)) = ''INVITE''" "rq_call_id (jb_req (wd_jobs w ! i)) = Some callID"
      "rq_to_tag (jb_req (wd_jobs w ! i)) = []"
    and log: "wd_log w = before @ (ByJob i, Reply r) # after" "200 \<le> rs_status r" "rs_status r < 300"
  shows "\<exists>early cs late. before = early @ (ByJob i, Act (EStoreCall callID cs)) # late
    \<and> ((\<forall>who. (who, Act (EDeleteCall callID)) \<notin> set (late @ after)) \<longrightarrow> gm_get (px_calls (wd_px w)) callID \<noteq> None)"
proof -
  let ?mine = "\<lambda>xs. map snd (filter (\<lambda>x. fst x = ByJob i) xs)"
  have "job_log i w = ?mine before @ Reply r # ?mine after" by (simp add: job_log_def log(1))
  with job_log_recorded [OF S w req] recorded_first_split [of callID False "?mine before" r "?mine after"] log(2,3)
  obtain pre cs where "?mine before = pre @ [Act (EStoreCall callID cs)]" by (auto simp: successful_def)
  from filtered_last [OF this] obtain early late where before: "before = early @ (ByJob i, Act (EStoreCall callID cs)) # late"
    by (metis prod.collapse)
  moreover have "gm_get (px_calls (wd_px w)) callID \<noteq> None" if none: "\<forall>who. (who, Act (EDeleteCall callID)) \<notin> set (late @ after)"
  proof -
    have rest: "Act (EDeleteCall callID) \<notin> set (map snd (late @ (ByJob i, Reply r) # after))" using none by auto
    have "gm_get (fold calls_after (map snd early @ [Act (EStoreCall callID cs)]) []) callID \<noteq> None" by simp
    from call_kept [OF this rest] show ?thesis unfolding calls_replay [OF w(1)] log(1) before by simp
  qed
  ultimately show ?thesis by blast
qed


section \<open>Who is called\<close>

interpretation no_contact: act_rule "\<lambda>a. \<forall>aor ct. a \<noteq> Act (EReg (OpRegister aor ct))" False
  by unfold_locales (auto simp: ordinary.simps)

context act_rule
begin

lemma requests:
  assumes "sipgo_ok (cx_sip c)" "strict \<Longrightarrow> complete req" "rq_method req \<noteq> ''REGISTER''"
    and "\<And>callID entry. gm_get (px_activeTx q) callID = Some entry \<Longrightarrow> strict \<Longrightarrow> complete (ae_req entry)"
  shows "list_all P (handle_request c p q req m)"
proof -
  have addr: "strict \<Longrightarrow> addressed req" using assms(2) by (simp add: complete_def)
  show ?thesis
    using assms(3) invite [OF assms(1,2)] ack [OF addr] cancel [OF addr assms(4)] options in_dialog [OF assms(1) addr]
    by (simp add: handle_request_def handlePassthrough_def Let_def)
qed

end

lemma register_address:
  "Act (EReg (OpRegister aor ct)) \<in> set (handleRegister c p req) \<Longrightarrow> ct_Address ct = rq_source req"
proof -
  assume a: "Act (EReg (OpRegister aor ct)) \<in> set (handleRegister c p req)"
  have none: "Act (EReg (OpRegister aor ct)) \<notin> set (register_remove c p req u d)" for u d
    using no_contact.removing [of c p req u d] by (auto simp: list_all_iff)
  have "ct_Address ct = rq_source req" if "Act (EReg (OpRegister aor ct)) \<in> set (register_store c p req u d e)" for u d e
    using that by (auto simp: register_store_def register_contact_def Let_def)
  with a none show ?thesis
    by (auto simp: handleRegister_def Let_def split: option.splits sum.splits if_splits)
qed

lemma stored_by_register:
  assumes S: "sipgo_ok (cx_sip (jb_ctx j))" and a: "Act (EReg (OpRegister aor ct)) \<in> set (job_acts j q)"
  shows "rq_method (jb_req j) = ''REGISTER'' \<and> Act (EReg (OpRegister aor ct)) \<in> set (handleRegister (jb_ctx j) (jb_at j) (jb_req j))"
proof -
  have tx: "Act x \<notin> set (checked_tx sd S' req r)" for x sd S' req r
    by (cases sd) (auto simp: checked_tx_def validatingTx_def front_tx_reply wire_def split: option.split)
  have bare: "Act x \<notin> set (side_wrap sd S' now ban (\<lambda>r. []) req)" for x sd S' now ban req
    by (cases sd) (auto simp: side_wrap_def publicWrap_eq privateWrap_eq front_tx_reply)
  have h: "Act (EReg (OpRegister aor ct)) \<in> set (handle_request (jb_ctx j) (jb_at j) q (jb_req j) (jb_meets j))"
    using a bare tx via_other [of "EReg (OpRegister aor ct)"] unfolding job_acts_def
    by (subst (asm) side_wrap_eq) (auto split: if_splits dest!: via_other)
  with no_contact.requests [OF S, of "jb_req j" q "jb_at j" "jb_meets j"] have "rq_method (jb_req j) = ''REGISTER''"
    by (fastforce simp: list_all_iff)
  with h show ?thesis by (simp add: handle_request_def)
qed

text \<open>The registrar holds only what some REGISTER of the log stored.\<close>

lemma spec_from:
  "spec_step op A aor a \<noteq> None \<Longrightarrow> A aor a \<noteq> None \<or> (\<exists>ct. op = OpRegister aor ct \<and> ct_Address ct = a)"
  by (cases op) (auto simp: put_contact_def split: if_splits option.splits)

lemma contacts_from_acts:
  "reg_ok (px_reg p) \<Longrightarrow> reg_abs (px_reg (run_acts as p)) aor a \<noteq> None \<Longrightarrow>
     reg_abs (px_reg p) aor a \<noteq> None \<or> (\<exists>ct. Act (EReg (OpRegister aor ct)) \<in> set as \<and> ct_Address ct = a)"
proof (induction as arbitrary: p)
  case (Cons x as)
  have step: "reg_ok (px_reg (do_act x p)) \<and> (reg_abs (px_reg (do_act x p)) aor a \<noteq> None \<longrightarrow>
      reg_abs (px_reg p) aor a \<noteq> None \<or> (\<exists>ct. x = Act (EReg (OpRegister aor ct)) \<and> ct_Address ct = a))"
  proof (cases x)
    case (Act e)
    then show ?thesis using Cons.prems(1) reg_ok_step spec_from [of _ "reg_abs (px_reg p)" aor a]
      by (cases e) (auto simp: reg.look_step)
  qed (use Cons.prems in simp_all)
  with Cons.IH [of "do_act x p"] Cons.prems(2) show ?case by auto
qed simp

lemma contacts_from_log:
  "reachable S cfg w \<Longrightarrow> reg_abs (px_reg (wd_px w)) aor a \<noteq> None \<Longrightarrow>
     \<exists>who ct. (who, Act (EReg (OpRegister aor ct))) \<in> set (wd_log w) \<and> ct_Address ct = a"
proof (induction rule: reachable.induct)
  case start
  then show ?case by (simp add: newProxy_def reg_abs_def find_contact_def gm_list_def)
next
  case (step w w')
  have ok: "reg_ok (px_reg (wd_px w))" using world_ok_reachable [OF step(1)] by (simp add: world_ok_def proxy_ok_def)
  have perf: "\<exists>who ct. (who, Act (EReg (OpRegister aor ct))) \<in> set (wd_log w) \<union> Pair o' ` set as \<and> ct_Address ct = a"
    if "reg_abs (px_reg (run_acts as (wd_px w))) aor a \<noteq> None" for as o'
    using contacts_from_acts [OF ok that] step.IH by blast
  from step(2) show ?case
  proof cases
    case (act i x as k)
    with perf [of "[x]" "ByJob i"] step.prems show ?thesis by simp
  next
    case (tick t)
    with perf [of "tick_acts S t (wd_px w)" Background] step.prems show ?thesis by (simp add: image_iff)
  qed (use step.IH step.prems in simp_all)
qed

lemma ticks_store_nothing:
  "reachable S cfg w \<Longrightarrow> (Background, Act (EReg (OpRegister aor ct))) \<notin> set (wd_log w)"
proof (induction rule: reachable.induct)
  case (step w w')
  have "Act (EReg (OpRegister aor ct)) \<notin> set (tick_acts S t p)" for t p
    by (cases t) (auto simp: reapExpired_tick_def pingContact_def registrationLapsed_def cancelOutgoing_def write_checked_def
        split: prod.split option.split)
  with step.IH step(2) show ?case by (auto elim!: sbc_stepE)
qed simp

text \<open>
  Property (C1). Calls are offered only to authenticated devices: whatever has happened, every contact kept for
  an address of record was put there by a REGISTER of that very user, sent from the contact's
  address, whose digest was right for the password the server has for the user.
\<close>

theorem contacts_are_authenticated:
  assumes S: "sipgo_ok S" and w: "reachable S cfg w" and ct: "ct \<in> set (gm_list (px_reg (wd_px w)) aor)"
  shows "\<exists>j \<in> set (wd_jobs w). \<exists>fu password. rq_method (jb_req j) = ''REGISTER'' \<and> rq_source (jb_req j) = ct_Address ct
     \<and> rq_from (jb_req j) = Some fu \<and> aor = uri_user fu @ ''@'' @ uri_host fu \<and> has_suffix (uri_host fu) (SIPUserRootDomain cfg)
     \<and> fst (GetUserPassword (cx_http (jb_ctx j)) (cx_now (jb_ctx j)) (cx_later (jb_ctx j)) (uri_user fu) (uri_host fu)
              (px_api (jb_at j))) = Inr password
     \<and> password \<noteq> [] \<and> validateDigestAuth (jb_req j) password"
proof -
  note ok = world_ok_reachable [OF w]
  have "reg_abs (px_reg (wd_px w)) aor (ct_Address ct) = Some ct"
    using ok ct by (simp add: reg_abs_Some world_ok_def proxy_ok_def)
  then obtain who ct' where stored: "(who, Act (EReg (OpRegister aor ct'))) \<in> set (wd_log w)" "ct_Address ct' = ct_Address ct"
    using contacts_from_log [OF w] by blast
  from stored(1) ticks_store_nothing [OF w] obtain i where i: "(ByJob i, Act (EReg (OpRegister aor ct'))) \<in> set (wd_log w)"
    by (cases who) auto
  let ?j = "wd_jobs w ! i"
  from log_of_job [OF w i] obtain q where j: "Act (EReg (OpRegister aor ct')) \<in> set (job_acts ?j q)" "i < length (wd_jobs w)"
    "cx_sip (jb_ctx ?j) = S" "px_cfg (jb_at ?j) = cfg" by blast
  have "sipgo_ok (cx_sip (jb_ctx ?j))" using S j(3) by simp
  note reg = stored_by_register [OF this j(1)]
  have "rq_source (jb_req ?j) = ct_Address ct" using register_address [of aor ct'] reg stored(2) by metis
  with register_guard [OF conjunct2 [OF reg]] reg j(2,4) show ?thesis
    by (intro bexI [of _ ?j]) auto
qed

section \<open>No crash on complete requests\<close>

text \<open>Neither a nil dereference nor the keeping of a request whose CANCEL would be one.\<close>

definition sound_act :: "effect act \<Rightarrow> bool" where
  "sound_act a \<longleftrightarrow> (case a of Panic \<Rightarrow> False | Act (EStoreActive k entry) \<Rightarrow> complete (ae_req entry) | _ \<Rightarrow> True)"

lemma sound_simps [simp]:
  "sound_act (Reply r)" "\<not> sound_act Panic" "ordinary e \<Longrightarrow> sound_act (Act e)" "sound_act (Act (EReg op))"
  "sound_act (Act (EStoreActive k entry)) = complete (ae_req entry)"
  by (auto simp: sound_act_def split: effect.split)

interpretation sound: act_rule sound_act True
  by unfold_locales simp_all

definition entries_complete :: "proxy \<Rightarrow> bool" where
  "entries_complete p \<longleftrightarrow> (\<forall>callID entry. gm_get (px_activeTx p) callID = Some entry \<longrightarrow> complete (ae_req entry))"

lemma entries_complete_run: "entries_complete p \<Longrightarrow> list_all sound_act as \<Longrightarrow> entries_complete (run_acts as p)"
proof (induction as arbitrary: p)
  case (Cons a as)
  have "entries_complete (do_act a p)"
  proof (cases a)
    case (Act e)
    with Cons.prems show ?thesis by (cases e) (auto simp: entries_complete_def split: if_splits)
  qed (use Cons.prems in simp_all)
  with Cons show ?case by simp
qed simp

lemma register_sound: "list_all sound_act (handleRegister c p req)"
proof -
  have "list_all sound_act (register_store c p req u d e)" for u d e
    by (simp add: register_store_def Let_def split: prod.split)
  then show ?thesis
    using sound.basic sound.removing by (simp add: handleRegister_def Let_def split: option.split sum.split)
qed

lemma via_all: "list_all P as \<Longrightarrow> (\<And>r. list_all P (tx r)) \<Longrightarrow> list_all P (via tx as)"
  by (induction tx as rule: via.induct) (auto simp: Let_def)

lemma job_acts_sound:
  assumes S: "sipgo_ok (cx_sip (jb_ctx j))" and req: "complete (jb_req j)" and q: "entries_complete q"
  shows "list_all sound_act (job_acts j q)"
proof -
  have id: "rq_call_id (jb_req j) \<noteq> None" using req by (simp add: complete_def addressed_def)
  have "list_all sound_act (handle_request (jb_ctx j) (jb_at j) q (jb_req j) (jb_meets j))"
  proof (cases "rq_method (jb_req j) = ''REGISTER''")
    case True
    with register_sound show ?thesis by (simp add: handle_request_def)
  next
    case False
    with sound.requests [OF S, of "jb_req j" q] req q show ?thesis by (auto simp: entries_complete_def)
  qed
  moreover have "list_all sound_act (checked_tx sd S' (jb_req j) r)" for sd S' r
    using id by (cases sd) (auto simp: checked_tx_def validatingTx_def front_tx_reply wire_def split: option.split)
  moreover have "list_all sound_act (side_wrap sd S' now ban (\<lambda>r. []) (jb_req j))" for sd S' now ban
    by (cases sd) (auto simp: side_wrap_def publicWrap_eq privateWrap_eq front_tx_reply)
  ultimately show ?thesis
    unfolding job_acts_def by (subst side_wrap_eq) (simp add: via_all)
qed

definition thread_sound :: "thread \<Rightarrow> bool" where
  "thread_sound th \<longleftrightarrow> list_all sound_act (fst th)
     \<and> (\<forall>f q. snd th = Some f \<longrightarrow> entries_complete q \<longrightarrow> list_all sound_act (f q))"

definition world_sound :: "world \<Rightarrow> bool" where
  "world_sound w \<longleftrightarrow> entries_complete (wd_px w) \<and> list_all sound_act (map snd (wd_log w)) \<and> (\<forall>th \<in> set (wd_threads w). thread_sound th)"

lemma job_sound:
  assumes "sipgo_ok (cx_sip (jb_ctx j))" "complete (jb_req j)"
  shows "thread_sound (fst (job_segments j), Some (snd (job_segments j)))"
proof -
  have "entries_complete (newProxy cfg)" for cfg by (simp add: entries_complete_def newProxy_def)
  with job_acts_sound [OF assms] show ?thesis by (auto simp: thread_sound_def job_acts_segments)
qed

lemma world_sound_perform:
  "world_sound w \<Longrightarrow> list_all sound_act as \<Longrightarrow> world_sound (perform who as w)"
proof -
  have "map snd (map (Pair who) as) = as" by (induction as) simp_all
  then show "world_sound w \<Longrightarrow> list_all sound_act as \<Longrightarrow> world_sound (perform who as w)"
    by (simp add: world_sound_def entries_complete_run del: map_map)
qed

lemma world_sound_thread:
  "world_sound w \<Longrightarrow> thread_sound th \<Longrightarrow> world_sound (w\<lparr>wd_threads := (wd_threads w)[i := th]\<rparr>)"
  using set_update_subset_insert [of "wd_threads w" i th] by (auto simp: world_sound_def)

lemma ticks_sound: "entries_complete p \<Longrightarrow> list_all sound_act (tick_acts S t p)"
proof (cases t)
  case (CallerCancelled callID)
  assume "entries_complete p"
  with CallerCancelled sound.cancelling [of p callID S] show ?thesis by (simp add: entries_complete_def)
qed (auto simp: reapExpired_tick_def pingContact_def registrationLapsed_def list_all_iff split: prod.split)

lemma world_sound_step:
  assumes S: "sipgo_ok S" and step: "sbc_step S w w'" and w: "world_sound w" and jobs: "\<forall>j \<in> set (wd_jobs w'). complete (jb_req j)"
  shows "world_sound w'"
  using step
proof cases
  case (arrive j)
  with jobs S job_sound [of j] w show ?thesis by (auto simp: world_sound_def)
next
  case (act i a as k)
  have "thread_sound (a # as, k)" using act w by (metis nth_mem world_sound_def)
  then have "sound_act a" "thread_sound (as, k)" by (simp_all add: thread_sound_def)
  with act w show ?thesis by (simp add: world_sound_perform world_sound_thread)
next
  case (wake i k)
  have "thread_sound ([], Some k)" using wake w by (metis nth_mem world_sound_def)
  then have "thread_sound (k (wd_px w), None)" using w by (simp add: thread_sound_def world_sound_def)
  with wake w show ?thesis by (simp add: world_sound_thread)
next
  case (tick t)
  have "entries_complete (wd_px w)" using w by (simp add: world_sound_def)
  with w tick ticks_sound show ?thesis by (simp add: world_sound_perform)
qed (use w in \<open>auto simp: world_sound_def entries_complete_def\<close>)

lemma jobs_grow: "sbc_step S w w' \<Longrightarrow> set (wd_jobs w) \<subseteq> set (wd_jobs w')"
  by (auto elim!: sbc_stepE)

text \<open>
  Property (C8). Nothing that others send can bring the proxy down as long as every request has the headers
  RFC 3261 demands: whatever arrives in whatever order and however the far ends behave, no
  handler ever dereferences a missing header.
\<close>

theorem complete_requests_never_crash:
  assumes S: "sipgo_ok S" and w: "reachable S cfg w"
    and jobs: "\<forall>j \<in> set (wd_jobs w). rq_from (jb_req j) \<noteq> None \<and> rq_to (jb_req j) \<noteq> None \<and> rq_call_id (jb_req j) \<noteq> None
       \<and> get_header (rq_headers (jb_req j)) ''Via'' \<noteq> None"
  shows "(who, Panic) \<notin> set (wd_log w)"
proof -
  have "\<forall>j \<in> set (wd_jobs w). complete (jb_req j) \<Longrightarrow> world_sound w"
    using w
  proof (induction rule: reachable.induct)
    case start
    then show ?case by (simp add: world_sound_def entries_complete_def newProxy_def)
  next
    case (step w w')
    with jobs_grow [OF step(2)] have "world_sound w" by blast
    with step show ?case using world_sound_step [OF S] by blast
  qed
  with jobs have "list_all sound_act (map snd (wd_log w))"
    by (simp add: complete_def addressed_def world_sound_def)
  then show ?thesis by (force simp: list_all_iff)
qed

text \<open>A request without them does: an INVITE without a To ends in a nil dereference.\<close>

lemma headerless_invite_crashes:
  "\<not> tooManyHops req \<Longrightarrow> rq_to req = None \<Longrightarrow> handleInvite c p q req m = [Panic]"
  by (simp add: handleInvite_def)

text \<open>
  Property (C24). In every state the proxy can get into, a device is registered once, a call, a pending INVITE
  and a hidden number are kept once under their key, no user has an empty entry of pinned
  calls, the configuration is the one it was started with, and only public IP addresses are
  counted by the ban.
\<close>

theorem reachable_states_are_well_formed:
  assumes "reachable S cfg w"
  shows "distinct (map ct_Address (gm_list (px_reg (wd_px w)) aor)) \<and> gm_ok (px_reg (wd_px w))
    \<and> gm_ok (px_calls (wd_px w)) \<and> gm_ok (px_activeTx (wd_px w)) \<and> gm_ok (px_spoofCache (wd_px w))
    \<and> gm_get (px_affinity (wd_px w)) user \<noteq> Some [] \<and> px_cfg (wd_px w) = cfg \<and> ban_sources_public (wd_px w)"
  using world_ok_reachable [OF assms] by (auto simp: world_ok_def proxy_ok_def reg_ok_def aff_ok_def)

section \<open>Witnesses\<close>

lemma reachable_thread:
  "reachable S cfg w \<Longrightarrow> i < length (wd_threads w) \<Longrightarrow> wd_threads w ! i = (as, k) \<Longrightarrow>
     \<exists>w'. reachable S cfg w' \<and> wd_jobs w' = wd_jobs w \<and> wd_px w' = run_acts as (wd_px w)
       \<and> wd_log w' = wd_log w @ map (Pair (ByJob i)) as"
proof (induction as arbitrary: w)
  case (Cons a as)
  let ?w = "perform (ByJob i) [a] (w\<lparr>wd_threads := (wd_threads w)[i := (as, k)]\<rparr>)"
  have "reachable S cfg ?w" by (rule reachable.step [OF Cons.prems(1) sbc_step.act [OF Cons.prems(2,3)]])
  from Cons.IH [OF this] Cons.prems(2) show ?case by auto
qed auto

text \<open>A fresh proxy that knows one FreeSWITCH and serves one request.\<close>

lemma reachable_served:
  assumes S: "cx_sip (jb_ctx j) = S" and at: "jb_at j = (newProxy cfg)\<lparr>px_disp := AddTarget target newDispatcher\<rparr>"
  shows "\<exists>w. reachable S cfg w \<and> wd_jobs w = [j] \<and> wd_px w = run_acts (fst (job_segments j)) (jb_at j)
    \<and> wd_log w = map (Pair (ByJob 0)) (fst (job_segments j))"
proof -
  let ?w1 = "(start_world cfg)\<lparr>wd_px := (newProxy cfg)\<lparr>px_disp := AddTarget target newDispatcher\<rparr>\<rparr>"
  have "sbc_step S (start_world cfg) ((start_world cfg)\<lparr>wd_px := (wd_px (start_world cfg))\<lparr>px_disp :=
      AddTarget target (px_disp (wd_px (start_world cfg)))\<rparr>\<rparr>)" by (rule sbc_step.target_found)
  then have "reachable S cfg ?w1" using reachable.step [OF reachable.start] by (simp add: newProxy_def)
  moreover have "sbc_step S ?w1 (?w1\<lparr>wd_jobs := [j], wd_threads := [(fst (job_segments j), Some (snd (job_segments j)))]\<rparr>)"
    using sbc_step.arrive [of j S ?w1] S at by simp
  ultimately have "reachable S cfg (?w1\<lparr>wd_jobs := [j], wd_threads := [(fst (job_segments j), Some (snd (job_segments j)))]\<rparr>)"
    by (rule reachable.step)
  from reachable_thread [OF this, of 0] at show ?thesis by simp
qed

definition no_events :: meets where
  "no_events = \<lparr>mt_sent = True, mt_events = [], mt_fork = [], mt_answer = None\<rparr>"

definition demo_job :: "side \<Rightarrow> request \<Rightarrow> meets \<Rightarrow> job" where
  "demo_job sd req m = \<lparr>jb_side = sd, jb_ctx = demo_ctx, jb_at = demo_fs_proxy, jb_req = req, jb_meets = m\<rparr>"

lemma demo_reachable:
  "\<exists>w. reachable sipgo_model demo_config w \<and> wd_jobs w = [demo_job sd req m]
     \<and> wd_px w = run_acts (fst (job_segments (demo_job sd req m))) demo_fs_proxy
     \<and> wd_log w = map (Pair (ByJob 0)) (fst (job_segments (demo_job sd req m)))"
  using reachable_served [where j = "demo_job sd req m" and S = sipgo_model and cfg = demo_config and target = "''sip:10.0.0.9:5070''"]
  by (simp add: demo_job_def demo_later demo_fs_proxy_def demo_proxy_def)

text \<open>FreeSWITCH calls a trunk, which answers at once.\<close>

definition demo_trunk_call :: request where
  "demo_trunk_call = (demo_from_fs ''INVITE'' 7)\<lparr>rq_headers :=
     [HText ''Via'' ''SIP/2.0/UDP 10.0.0.9'', HAddress ''From'' (mk_uri ''6001'' ''a.example.com'' 0) [(''tag'', ''x'')] ''f'',
      HAddress ''To'' (mk_uri ''200'' ''example.net'' 0) [] ''t'', HCallID ''call1'', HCSeq 7 ''INVITE'', HMaxForwards 2,
      HText ''X-Trunk-Number'' ''200'']\<rparr>"

definition demo_answered :: job where
  "demo_answered = demo_job PrivateSide demo_trunk_call (no_events\<lparr>mt_events := [TxResponse (demo_reply 200)]\<rparr>)"

lemma demo_answered_parts:
  "rq_method (jb_req demo_answered) = ''INVITE''" "rq_call_id (jb_req demo_answered) = Some ''call1''"
  "rq_to_tag (jb_req demo_answered) = []"
  by code_simp+

lemma ack_finds_its_call_witness:
  "\<exists>w early cs late r after. reachable sipgo_model demo_config w
     \<and> wd_log w = early @ (ByJob 0, Act (EStoreCall ''call1'' cs)) # late @ (ByJob 0, Reply r) # after \<and> rs_status r = 200"
proof -
  obtain w where w: "reachable sipgo_model demo_config w" "wd_jobs w = [demo_answered]"
    "wd_log w = map (Pair (ByJob 0)) (fst (job_segments demo_answered))"
    using demo_reachable unfolding demo_answered_def by blast
  have "list_ex (\<lambda>a. case a of Reply r \<Rightarrow> rs_status r = 200 | _ \<Rightarrow> False) (fst (job_segments demo_answered))" by code_simp
  then obtain a where a: "a \<in> set (fst (job_segments demo_answered))" "case a of Reply r \<Rightarrow> rs_status r = 200 | _ \<Rightarrow> False"
    unfolding list_ex_iff by blast
  obtain r where r: "a = Reply r" "rs_status r = 200" using a(2) by (cases a) simp_all
  have "(ByJob 0, Reply r) \<in> set (wd_log w)" using a(1) unfolding w(3) r(1) by simp
  from split_list [OF this] obtain before after where log: "wd_log w = before @ (ByJob 0, Reply r) # after" by blast
  have i: "0 < length (wd_jobs w)" "wd_jobs w ! 0 = demo_answered" using w(2) by simp_all
  obtain early cs late where "before = early @ (ByJob 0, Act (EStoreCall ''call1'' cs)) # late"
    using ack_finds_its_call [OF sipgo_ok_model w(1) i(1) _ _ _ log, of "''call1''"] r(2)
    unfolding i(2) demo_answered_parts by auto
  then have "wd_log w = early @ (ByJob 0, Act (EStoreCall ''call1'' cs)) # late @ (ByJob 0, Reply r) # after" by (simp add: log)
  with w(1) r(2) show ?thesis by blast
qed

lemma complete_requests_witness:
  "\<exists>w. reachable sipgo_model demo_config w \<and> wd_log w \<noteq> [] \<and> (ByJob 0, Panic) \<notin> set (wd_log w)"
proof -
  obtain w where w: "reachable sipgo_model demo_config w" "wd_jobs w = [demo_answered]"
    "wd_log w = map (Pair (ByJob 0)) (fst (job_segments demo_answered))"
    using demo_reachable unfolding demo_answered_def by blast
  have "0 < length (fst (job_segments demo_answered))" by code_simp
  then have "wd_log w \<noteq> []" by (simp add: w(3))
  moreover have "rq_from (jb_req demo_answered) \<noteq> None" "rq_to (jb_req demo_answered) \<noteq> None"
    "rq_call_id (jb_req demo_answered) \<noteq> None" "get_header (rq_headers (jb_req demo_answered)) ''Via'' \<noteq> None"
    by (simp_all add: demo_answered_def demo_job_def demo_trunk_call_def rq_from_def rq_to_def get_header_def named_def lower_Via)
  ultimately show ?thesis
    using complete_requests_never_crash [OF sipgo_ok_model w(1), of "ByJob 0"] w(1,2) by auto
qed

lemma well_formed_witness:
  "\<exists>w. reachable sipgo_model demo_config w \<and> wd_jobs w \<noteq> [] \<and> gm_ok (px_calls (wd_px w))"
proof -
  obtain w where w: "reachable sipgo_model demo_config w" "wd_jobs w = [demo_answered]"
    using demo_reachable unfolding demo_answered_def by blast
  with reachable_states_are_well_formed [OF w(1), of "[]" "[]"] show ?thesis by auto
qed

text \<open>A phone registers.\<close>

lemma demo_login_clean: "clean_request sipgo_model (demo_login ''3600'')"
proof -
  have "CHR 0x0D \<notin> set (md5_text s)" "CHR 0x0A \<notin> set (md5_text s)" for s using md5_text_chars [of s] by auto
  then have "CHR 0x0D \<notin> set (demo_digest ''REGISTER'')" "CHR 0x0A \<notin> set (demo_digest ''REGISTER'')"
    by (simp_all add: demo_digest_def params_text_def client_params_def rfc_response_def Let_def)
  moreover have "nat_text 0 = ''0''" by code_simp
  then have "CHR 0x0D \<notin> set (sg_request_line sipgo_model (demo_login ''3600''))"
    "CHR 0x0A \<notin> set (sg_request_line sipgo_model (demo_login ''3600''))"
    by (simp_all add: sipgo_model_def demo_login_def uri_text_model_def mk_uri_def itoa_def)
  ultimately show ?thesis by (auto simp: clean_request_def demo_login_def)
qed

lemma run_checked: "run_acts (checked_tx sd S req r) p = p"
  by (cases sd) (simp_all add: checked_tx_def validatingTx_def front_tx_reply wire_def split: option.split)

lemma run_via: "run_acts (via (checked_tx sd S req) [Act a, Act b, Act d, Reply r]) p = run_acts [Act a, Act b, Act d] p"
  by (simp add: run_checked Let_def)

lemma contacts_are_authenticated_witness:
  "\<exists>w ct. reachable sipgo_model demo_config w \<and> ct \<in> set (gm_list (px_reg (wd_px w)) (aor_of demo_user))
     \<and> ct_Address ct = ''203.0.113.9:5060''
     \<and> (\<exists>j \<in> set (wd_jobs w). rq_source (jb_req j) = ''203.0.113.9:5060'')"
proof -
  let ?j = "demo_job PublicSide (demo_login ''3600'') no_events"
  obtain w where w: "reachable sipgo_model demo_config w" "wd_jobs w = [?j]" "wd_px w = run_acts (fst (job_segments ?j)) demo_fs_proxy"
    using demo_reachable by blast
  have "px_reg (wd_px w) = Register (aor_of demo_user) (fst (granted demo_ctx demo_fs_proxy (demo_login ''3600'') demo_user)) (px_reg demo_fs_proxy)"
  proof -
    have "registerExpires [] ''3600'' \<noteq> 0" by code_simp
    then have reg: "registers demo_ctx demo_fs_proxy (demo_login ''3600'') demo_user"
      using demo_registers by (simp add: registers_def demo_fs_proxy_def)
    have "admitted PublicSide (cx_sip demo_ctx) 1 (px_ban demo_fs_proxy) (demo_login ''3600'')"
      using demo_login_clean by (simp add: admitted_def demo_later demo_fs_proxy_def demo_proxy_def newProxy_def newIPBan_def Banned_def)
    then have "fst (job_segments ?j) = via (checked_tx PublicSide (cx_sip demo_ctx) (demo_login ''3600''))
        (handleRegister demo_ctx demo_fs_proxy (demo_login ''3600''))"
    proof -
      have "rq_method (demo_login ''3600'') = ''REGISTER''" "cx_now demo_ctx = 1" by (simp_all add: demo_login_def demo_ctx_def)
      with \<open>admitted _ _ _ _ _\<close> show ?thesis
        by (simp add: job_segments_def request_segments_def demo_job_def handler_segments_def handle_request_def
            side_wrap_eq [of PublicSide "cx_sip demo_ctx" 1 "px_ban demo_fs_proxy"])
    qed
    then show ?thesis unfolding w(3) handleRegister_registers [OF reg] by (simp only: run_via) simp
  qed
  then have "\<exists>ct \<in> set (gm_list (px_reg (wd_px w)) (aor_of demo_user)). ct_Address ct = rq_source (demo_login ''3600'')"
    using granted_address by (simp add: Register_def demo_fs_proxy_def demo_proxy_def newProxy_def gm_list_def)
  then obtain ct where ct: "ct \<in> set (gm_list (px_reg (wd_px w)) (aor_of demo_user))" "ct_Address ct = rq_source (demo_login ''3600'')" by blast
  have src: "rq_source (demo_login ''3600'') = ''203.0.113.9:5060''" by (simp add: demo_login_def)
  from contacts_are_authenticated [OF sipgo_ok_model w(1) ct(1)] ct src w(1) show ?thesis by (metis (no_types, lifting))
qed

end
