(* ===== verification/Front_End.thy ===== *)
theory Front_End
  imports Go_Strconv
begin

text \<open>
  The listener that serves HTTP and WebSockets on one port (\<^verbatim>\<open>sbc/main.go\<close>:
  \<^verbatim>\<open>handleTCPConn\<close>, \<^verbatim>\<open>isWebSocketUpgrade\<close>, \<^verbatim>\<open>rawResponseWriter\<close>) and the
  listener and connection it hands upgraded connections over with
  (\<^verbatim>\<open>sbc/pipe_listener.go\<close>).

  A connection is the list of non-empty chunks the network still delivers. Parsing an HTTP
  request and routing it (\<^verbatim>\<open>http.ReadRequest\<close>, \<^verbatim>\<open>http.ServeMux\<close>) belong to Go's
  library; their results are arguments.
\<close>

section \<open>The pipe listener\<close>

record 'c pipeListener =
  pl_ch :: "'c list"
  pl_closed :: bool

definition newPipeListener :: "'c pipeListener" where
  "newPipeListener = \<lparr>pl_ch = [], pl_closed = False\<rparr>"

text \<open>When the listener is closed and the channel has room (or something in it), \<^verbatim>\<open>select\<close>
  may take either case: \<open>pick\<close> decides. \<open>None\<close>: the call still waits. \<^verbatim>\<open>Inject\<close> tells whether
  the connection was handed over (otherwise it is closed), \<^verbatim>\<open>Accept\<close> gives the connection or the
  error.\<close>

definition Inject :: "bool \<Rightarrow> 'c \<Rightarrow> 'c pipeListener \<Rightarrow> (bool \<times> 'c pipeListener) option" where
  "Inject pick conn l =
     (if length (pl_ch l) < 16 \<and> (pick \<or> \<not> pl_closed l) then Some (True, l\<lparr>pl_ch := pl_ch l @ [conn]\<rparr>)
      else if pl_closed l then Some (False, l)
      else None)"

definition Accept :: "bool \<Rightarrow> 'c pipeListener \<Rightarrow> ('c option \<times> 'c pipeListener) option" where
  "Accept pick l =
     (case pl_ch l of
        conn # rest \<Rightarrow> if pick \<or> \<not> pl_closed l then Some (Some conn, l\<lparr>pl_ch := rest\<rparr>) else Some (None, l)
      | [] \<Rightarrow> if pl_closed l then Some (None, l) else None)"

definition Close :: "'c pipeListener \<Rightarrow> 'c pipeListener" where
  "Close l = l\<lparr>pl_closed := True\<rparr>"

section \<open>A connection with a prefix\<close>

record prefixConn =
  pc_prefix :: string
  pc_conn :: "string list"

definition newPrefixConn :: "string list \<Rightarrow> string \<Rightarrow> prefixConn" where
  "newPrefixConn conn pre = \<lparr>pc_prefix = pre, pc_conn = conn\<rparr>"

text \<open>One \<^verbatim>\<open>Read\<close> of the network connection, into a buffer of \<open>n\<close> bytes.\<close>

fun read_conn :: "nat \<Rightarrow> string list \<Rightarrow> string \<times> string list" where
  "read_conn n [] = ([], [])"
| "read_conn n (chunk # chunks) = (take n chunk, if n < length chunk then drop n chunk # chunks else chunks)"

text \<open>\<^verbatim>\<open>Read\<close> of the \<^verbatim>\<open>io.MultiReader\<close>.\<close>

definition Read :: "nat \<Rightarrow> prefixConn \<Rightarrow> string \<times> prefixConn" where
  "Read n c =
     (if pc_prefix c \<noteq> [] then (take n (pc_prefix c), c\<lparr>pc_prefix := drop n (pc_prefix c)\<rparr>)
      else case read_conn n (pc_conn c) of (bs, conn) \<Rightarrow> (bs, c\<lparr>pc_conn := conn\<rparr>))"

fun read_all :: "nat list \<Rightarrow> prefixConn \<Rightarrow> string \<times> prefixConn" where
  "read_all [] c = ([], c)"
| "read_all (n # ns) c = (case Read n c of (bs, c1) \<Rightarrow> case read_all ns c1 of (bs', c2) \<Rightarrow> (bs @ bs', c2))"

section \<open>The response writer\<close>

record rawResponseWriter =
  rw_headers :: "(string \<times> string list) list"
  rw_statusCode :: int
  rw_written :: bool
  rw_body :: string

definition newResponseWriter :: rawResponseWriter where
  "newResponseWriter = \<lparr>rw_headers = [], rw_statusCode = 200, rw_written = False, rw_body = []\<rparr>"

definition WriteHeader :: "int \<Rightarrow> rawResponseWriter \<Rightarrow> rawResponseWriter" where
  "WriteHeader code w = w\<lparr>rw_statusCode := code\<rparr>"

definition Write :: "string \<Rightarrow> rawResponseWriter \<Rightarrow> rawResponseWriter" where
  "Write b w = w\<lparr>rw_written := True, rw_body := rw_body w @ b\<rparr>"

definition crlf :: string where
  "crlf = [CHR 0x0D, CHR 0x0A]"

definition header_lines :: "(string \<times> string list) list \<Rightarrow> string" where
  "header_lines hs = concat (map (\<lambda>(k, vals). concat (map (\<lambda>v. k @ '': '' @ v @ crlf) vals)) hs)"

text \<open>What \<^verbatim>\<open>finish\<close> writes; \<open>status_text\<close> is \<^verbatim>\<open>http.StatusText\<close>.\<close>

definition finish_response :: "(int \<Rightarrow> string) \<Rightarrow> rawResponseWriter \<Rightarrow> string" where
  "finish_response status_text w =
     ''HTTP/1.1 '' @ itoa (rw_statusCode w) @ '' '' @ status_text (rw_statusCode w) @ crlf
     @ ''Content-Length: '' @ itoa (int (length (rw_body w))) @ crlf
     @ ''Connection: close'' @ crlf
     @ header_lines (rw_headers w) @ crlf @ rw_body w"

definition health_handler :: "rawResponseWriter \<Rightarrow> rawResponseWriter" where
  "health_handler w = Write ''OK'' (WriteHeader 200 w)"

section \<open>A connection\<close>

record httpRequest =
  hr_Method :: string
  hr_RequestURI :: string
  hr_Proto :: string
  hr_Host :: string
  hr_Header :: "(string \<times> string list) list"

text \<open>\<^verbatim>\<open>Header.Get\<close>, at a canonical key.\<close>

definition header_get :: "httpRequest \<Rightarrow> string \<Rightarrow> string" where
  "header_get r k = (case map_of (hr_Header r) k of Some (v # vs) \<Rightarrow> v | _ \<Rightarrow> [])"

definition isWebSocketUpgrade :: "httpRequest \<Rightarrow> bool" where
  "isWebSocketUpgrade r \<longleftrightarrow> equal_fold (header_get r ''Upgrade'') ''websocket''
     \<and> contains_str (to_lower (header_get r ''Connection'')) ''upgrade''"

text \<open>The request written out again for the WebSocket server.\<close>

definition upgrade_text :: "httpRequest \<Rightarrow> string" where
  "upgrade_text r =
     hr_Method r @ '' '' @ hr_RequestURI r @ '' '' @ hr_Proto r @ crlf
     @ (if hr_Host r \<noteq> [] then ''Host: '' @ hr_Host r @ crlf else [])
     @ header_lines (filter (\<lambda>(k, vals). \<not> equal_fold k ''Host'') (hr_Header r))
     @ crlf"

datatype tcp_outcome = ConnClosed | Upgraded prefixConn | Served string

text \<open>\<open>peek\<close>: the first four bytes, if there are as many; \<open>parsed\<close>: the request and what the
  buffered reader has read beyond it; \<open>rest\<close>: what the network still delivers; \<open>mux\<close>: the
  routed handler's work on the writer.\<close>

definition handleTCPConn ::
  "(int \<Rightarrow> string) \<Rightarrow> (httpRequest \<Rightarrow> rawResponseWriter \<Rightarrow> rawResponseWriter) \<Rightarrow>
     string option \<Rightarrow> (httpRequest \<times> string) option \<Rightarrow> string list \<Rightarrow> tcp_outcome" where
  "handleTCPConn status_text mux peek parsed rest =
     (case peek of
        None \<Rightarrow> ConnClosed
      | Some four \<Rightarrow>
          if has_prefix (to_upper four) ''GET '' \<or> has_prefix (to_upper four) ''POST'' then
            (case parsed of
               None \<Rightarrow> ConnClosed
             | Some (req, buffered) \<Rightarrow>
                 if isWebSocketUpgrade req then Upgraded (newPrefixConn rest (upgrade_text req))
                 else Served (finish_response status_text (mux req newResponseWriter)))
          else ConnClosed)"

section \<open>What the other end reads\<close>

lemma read_conn_all: "fst (read_conn n cs) @ concat (snd (read_conn n cs)) = concat cs"
  by (cases cs) auto

lemma Read_all: "fst (Read n c) @ pc_prefix (snd (Read n c)) @ concat (pc_conn (snd (Read n c))) = pc_prefix c @ concat (pc_conn c)"
  using read_conn_all [of n "pc_conn c"] by (auto simp: Read_def case_prod_unfold)

lemma read_all: "fst (read_all ns c) @ pc_prefix (snd (read_all ns c)) @ concat (pc_conn (snd (read_all ns c)))
    = pc_prefix c @ concat (pc_conn c)"
proof (induction ns arbitrary: c)
  case (Cons n ns)
  from Cons.IH [of "snd (Read n c)"] Read_all [of n c] show ?case by (simp add: case_prod_unfold)
qed simp

text \<open>
  Property (C40). A WebSocket upgrade is handed over whole: with whatever buffers the WebSocket server reads, it
  gets the request line, the headers and then what the network delivers, in order; what it
  does not get is what the client had already sent behind its headers and the buffered reader
  had taken in.
\<close>

theorem upgraded_connection_reads:
  assumes "handleTCPConn status_text mux peek (Some (req, buffered)) rest = Upgraded c"
  shows "fst (read_all ns c) @ pc_prefix (snd (read_all ns c)) @ concat (pc_conn (snd (read_all ns c)))
      = upgrade_text req @ concat rest
    \<and> handleTCPConn status_text mux peek (Some (req, other)) rest = Upgraded c"
proof -
  obtain four where four: "peek = Some four" using assms by (cases peek) (simp_all add: handleTCPConn_def)
  then have "c = newPrefixConn rest (upgrade_text req)"
    using assms by (simp add: handleTCPConn_def split: if_splits)
  then show ?thesis using read_all [of ns c] assms by (simp add: four newPrefixConn_def handleTCPConn_def split: if_splits)
qed

section \<open>The response is framed\<close>

text \<open>How a client reads a response: the lines up to the empty one, and the rest.\<close>

fun read_head :: "string \<Rightarrow> string \<Rightarrow> string list \<times> string" where
  "read_head line [] = ([line], [])"
| "read_head line [x] = ([line @ [x]], [])"
| "read_head line (x # y # s) =
     (if [x, y] = crlf then (if line = [] then ([], s) else case read_head [] s of (ls, b) \<Rightarrow> (line # ls, b))
      else read_head (line @ [x]) (y # s))"

lemma read_line:
  "CHR 0x0D \<notin> set str \<Longrightarrow> read_head line (str @ crlf @ s) =
     (if line @ str = [] then ([], s) else ((line @ str) # fst (read_head [] s), snd (read_head [] s)))"
proof (induction str arbitrary: line)
  case Nil
  then show ?case by (simp add: crlf_def case_prod_unfold)
next
  case (Cons x str)
  obtain y s' where s: "str @ crlf @ s = y # s'" by (cases str) (simp_all add: crlf_def)
  from Cons have "read_head (line @ [x]) (str @ crlf @ s) =
      ((line @ x # str) # fst (read_head [] s), snd (read_head [] s))" by simp
  moreover have "[x, y] \<noteq> crlf" using Cons.prems by (auto simp: crlf_def)
  ultimately show ?case by (simp add: s)
qed

definition header_list :: "(string \<times> string list) list \<Rightarrow> string list" where
  "header_list hs = concat (map (\<lambda>(k, vals). map (\<lambda>v. k @ '': '' @ v) vals) hs)"

lemma header_lines_list: "header_lines hs = concat (map (\<lambda>l. l @ crlf) (header_list hs))"
  by (induction hs) (auto simp: header_lines_def header_list_def comp_def)

lemma read_lines:
  "list_all (\<lambda>l. l \<noteq> [] \<and> CHR 0x0D \<notin> set l) ls \<Longrightarrow>
     read_head [] (concat (map (\<lambda>l. l @ crlf) ls) @ crlf @ s) = (ls, s)"
proof (induction ls)
  case Nil
  then show ?case using read_line [of "[]" "[]" s] by simp
next
  case (Cons l ls)
  then show ?case using read_line [of l "[]" "concat (map (\<lambda>l. l @ crlf) ls) @ crlf @ s"] by simp
qed

text \<open>
  Every HTTP answer is well framed: as long as no header or status text has a CR, a client that
  reads it finds the status line, a Content-Length that is the length of the body, the
  handler's headers, and after the empty line exactly what the handler wrote.
\<close>

theorem http_answer_is_framed:
  assumes "list_all (\<lambda>(k, vals). CHR 0x0D \<notin> set k \<and> list_all (\<lambda>v. CHR 0x0D \<notin> set v) vals) (rw_headers w)"
    and "CHR 0x0D \<notin> set (status_text (rw_statusCode w))"
  shows "read_head [] (finish_response status_text w) =
    ([''HTTP/1.1 '' @ itoa (rw_statusCode w) @ '' '' @ status_text (rw_statusCode w),
      ''Content-Length: '' @ itoa (int (length (rw_body w))), ''Connection: close''] @ header_list (rw_headers w), rw_body w)"
proof -
  let ?ls = "[''HTTP/1.1 '' @ itoa (rw_statusCode w) @ '' '' @ status_text (rw_statusCode w),
      ''Content-Length: '' @ itoa (int (length (rw_body w))), ''Connection: close''] @ header_list (rw_headers w)"
  have eq: "finish_response status_text w = concat (map (\<lambda>l. l @ crlf) ?ls) @ crlf @ rw_body w"
    by (simp add: finish_response_def header_lines_list)
  have "CHR 0x0D \<notin> set (itoa n)" for n by (simp add: itoa_def nat_text_no)
  then have "list_all (\<lambda>l. l \<noteq> [] \<and> CHR 0x0D \<notin> set l) ?ls"
    using assms by (auto simp: header_list_def list_all_iff)
  from read_lines [OF this] show ?thesis unfolding eq .
qed

section \<open>Connections are accepted in order\<close>

lemma pipe_fifo:
  "Inject pick conn l = Some (handed, l') \<Longrightarrow> pl_ch l' = pl_ch l @ (if handed then [conn] else []) \<and> pl_closed l' = pl_closed l"
  "Accept pick l = Some (got, l') \<Longrightarrow> pl_ch l = (case got of None \<Rightarrow> [] | Some conn \<Rightarrow> [conn]) @ pl_ch l'"
  by (auto simp: Inject_def Accept_def split: list.splits if_splits)

lemma pipe_waits:
  "Inject pick conn l = None \<longleftrightarrow> length (pl_ch l) \<ge> 16 \<and> \<not> pl_closed l"
  "Accept pick l = None \<longleftrightarrow> pl_ch l = [] \<and> \<not> pl_closed l"
  by (auto simp: Inject_def Accept_def split: list.split)

section \<open>Witnesses\<close>

definition demo_upgrade :: httpRequest where
  "demo_upgrade = \<lparr>hr_Method = ''GET'', hr_RequestURI = ''/'', hr_Proto = ''HTTP/1.1'', hr_Host = ''sip.example.com'',
     hr_Header = [(''Upgrade'', [''WebSocket'']), (''Connection'', [''keep-alive, Upgrade''])]\<rparr>"

lemma upgraded_connection_witness:
  "\<exists>c. handleTCPConn (\<lambda>_. []) (\<lambda>_ w. w) (Some ''GET '') (Some (demo_upgrade, ''early'')) [''abc'', ''de''] = Upgraded c
     \<and> fst (read_all [3, 1000, 2, 2, 2] c) @ pc_prefix (snd (read_all [3, 1000, 2, 2, 2] c))
         @ concat (pc_conn (snd (read_all [3, 1000, 2, 2, 2] c))) = upgrade_text demo_upgrade @ ''abcde''"
proof -
  have "isWebSocketUpgrade demo_upgrade" "has_prefix (to_upper ''GET '') ''GET ''" by code_simp+
  then have "handleTCPConn (\<lambda>_. []) (\<lambda>_ w. w) (Some ''GET '') (Some (demo_upgrade, ''early'')) [''abc'', ''de''] =
      Upgraded (newPrefixConn [''abc'', ''de''] (upgrade_text demo_upgrade))"
    by (simp add: handleTCPConn_def)
  with upgraded_connection_reads [OF this, of "[3, 1000, 2, 2, 2]" "[]"] show ?thesis by auto
qed

lemma http_answer_witness:
  "snd (read_head [] (finish_response (\<lambda>_. ''OK'') (health_handler newResponseWriter))) = ''OK''"
  using http_answer_is_framed [of "health_handler newResponseWriter" "\<lambda>_. ''OK''"]
  by (simp add: health_handler_def newResponseWriter_def Write_def WriteHeader_def)

end
