(* ===== verification/Sbc_Process.thy ===== *)
theory Sbc_Process
  imports Dispatcher Front_End Config
begin

text \<open>
  The process (\<^verbatim>\<open>sbc/main.go\<close>: \<^verbatim>\<open>main\<close>, \<^verbatim>\<open>startMuxListener\<close>): what it listens
  on, the HTTP connections it serves next to the WebSockets, the loop that discovers
  FreeSWITCH, and how it ends. A source the dispatcher lists is trusted by every handler
  without authentication, so the main result is who can get onto that list.

  Parameters: which pattern \<^verbatim>\<open>http.ServeMux\<close> chooses for a request (\<open>route\<close>) and what it
  does without one (\<open>other\<close>); the JSON encoder; \<^verbatim>\<open>fmt.Sprintf("%v", \<dots>)\<close> on a decoded
  value; the outcome of \<^verbatim>\<open>net.LookupHost\<close>.
\<close>

section \<open>Listeners\<close>

datatype served = PublicServer | PrivateServer | HttpAndWebSocket bool \<comment> \<open>over TLS?\<close> | HealthOnly

record listener =
  ls_serves :: served
  ls_network :: string
  ls_addr :: string

definition listeners :: "config \<Rightarrow> listener list" where
  "listeners cfg =
     [\<lparr>ls_serves = PublicServer, ls_network = ''udp'', ls_addr = ''0.0.0.0:5060''\<rparr>,
      \<lparr>ls_serves = PublicServer, ls_network = ''tcp'', ls_addr = ''0.0.0.0:5060''\<rparr>,
      \<lparr>ls_serves = PrivateServer, ls_network = ''udp'', ls_addr = ''0.0.0.0:5065''\<rparr>,
      \<lparr>ls_serves = PrivateServer, ls_network = ''tcp'', ls_addr = ''0.0.0.0:5065''\<rparr>,
      \<lparr>ls_serves = HttpAndWebSocket False, ls_network = ''tcp'', ls_addr = ''0.0.0.0:80''\<rparr>]
     @ (if WSSCertPath cfg \<noteq> [] \<and> WSSKeyPath cfg \<noteq> []
        then [\<lparr>ls_serves = HttpAndWebSocket True, ls_network = ''tcp'', ls_addr = ''0.0.0.0:'' @ itoa (WSSPort cfg)\<rparr>] else [])
     @ [\<lparr>ls_serves = HealthOnly, ls_network = ''tcp'', ls_addr = ''0.0.0.0:8080''\<rparr>]"

text \<open>The accept loop: each connection gets a goroutine of its own; a failed \<^verbatim>\<open>Accept\<close> ends
  it, without an error exactly when the program is ending.\<close>

datatype 'a accept = Accepted 'a | AcceptFails bool

fun accept_loop :: "'a accept list \<Rightarrow> 'a list \<times> bool option" where
  "accept_loop [] = ([], None)"
| "accept_loop (Accepted conn # evs) = (case accept_loop evs of (conns, out) \<Rightarrow> (conn # conns, out))"
| "accept_loop (AcceptFails ending # evs) = ([], Some ending)"

section \<open>HTTP\<close>

text \<open>\<^verbatim>\<open>http.Error\<close>.\<close>

definition http_error :: "string \<Rightarrow> nat \<Rightarrow> rawResponseWriter \<Rightarrow> rawResponseWriter" where
  "http_error msg code w =
     (let hs = gm_set ''X-Content-Type-Options'' [''nosniff'']
                 (gm_set ''Content-Type'' [''text/plain; charset=utf-8''] (gm_del ''Content-Length'' (rw_headers w)))
      in Write (msg @ [CHR 0x0A]) (WriteHeader (int code) (w\<lparr>rw_headers := hs\<rparr>)))"

definition write_reply :: "('j json \<Rightarrow> string) \<Rightarrow> 'j http_reply \<Rightarrow> rawResponseWriter \<Rightarrow> rawResponseWriter" where
  "write_reply encode reply w =
     (case reply of HttpError msg code \<Rightarrow> http_error msg code w | HttpJSON v \<Rightarrow> Write (encode v @ [CHR 0x0A]) w)"

text \<open>What the mux listener depends on.\<close>

record 'j web =
  wb_route :: "httpRequest \<Rightarrow> string option"
  wb_other :: "httpRequest \<Rightarrow> rawResponseWriter \<Rightarrow> rawResponseWriter"
  wb_encode :: "'j json \<Rightarrow> string"
  wb_fmt_v :: "'j \<Rightarrow> string"
  wb_status_text :: "int \<Rightarrow> string"

text \<open>\<open>body\<close>: the request's body as the JSON decoder delivers it.\<close>

definition httpMux ::
  "'j web \<Rightarrow> config \<Rightarrow> 'j rpcRequest option \<Rightarrow> dispatcher \<Rightarrow> httpRequest \<Rightarrow> rawResponseWriter \<Rightarrow> rawResponseWriter \<times> dispatcher" where
  "httpMux W cfg body d req w =
     (if wb_route W req = Some ''/health'' then (health_handler w, d)
      else if wb_route W req = Some ''/rpc'' then
        (case handleRPC (wb_fmt_v W) (RPCAPIToken cfg) (header_get req ''X-Api-Token'') body d of
           (reply, d') \<Rightarrow> (write_reply (wb_encode W) reply w, d'))
      else (wb_other W req w, d))"

text \<open>A connection: its first four bytes, its request with what was read beyond it, its body,
  and what the network still delivers.\<close>

record 'j conn =
  cn_peek :: "string option"
  cn_parsed :: "(httpRequest \<times> string) option"
  cn_body :: "'j rpcRequest option"
  cn_rest :: "string list"

definition serve_conn :: "'j web \<Rightarrow> config \<Rightarrow> 'j conn \<Rightarrow> dispatcher \<Rightarrow> tcp_outcome \<times> dispatcher" where
  "serve_conn W cfg cn d =
     (let out = handleTCPConn (wb_status_text W) (\<lambda>req w. fst (httpMux W cfg (cn_body cn) d req w))
                  (cn_peek cn) (cn_parsed cn) (cn_rest cn)
      in (out, case (out, cn_parsed cn) of
                 (Served answer, Some (req, buffered)) \<Rightarrow> snd (httpMux W cfg (cn_body cn) d req newResponseWriter)
               | _ \<Rightarrow> d))"

section \<open>Discovery and the life of the process\<close>

text \<open>A turn of the discovery loop, after its timer or its ticker, or the end of the program.\<close>

datatype discovery_event = Turn "string list option" | Ending

fun discovery_loop :: "discovery_event list \<Rightarrow> dispatcher \<times> (string, bool) gomap \<Rightarrow> dispatcher \<times> (string, bool) gomap" where
  "discovery_loop [] st = st"
| "discovery_loop (Turn lookup # evs) st = discovery_loop evs (discover lookup st)"
| "discovery_loop (Ending # evs) st = st"

text \<open>What touches the list of targets: turns of the discovery loop, connections to the mux
  listeners, and calls that are routed, in any order.\<close>

datatype 'j process_event = Resolved "string list option" | Connected "'j conn" | CallRouted

fun process_step :: "'j web \<Rightarrow> config \<Rightarrow> 'j process_event \<Rightarrow> dispatcher \<times> (string, bool) gomap \<Rightarrow> dispatcher \<times> (string, bool) gomap" where
  "process_step W cfg (Resolved lookup) st = discover lookup st"
| "process_step W cfg (Connected cn) (d, known) = (snd (serve_conn W cfg cn d), known)"
| "process_step W cfg CallRouted (d, known) = (snd (SelectTarget d), known)"

definition process_run :: "'j web \<Rightarrow> config \<Rightarrow> 'j process_event list \<Rightarrow> dispatcher \<times> (string, bool) gomap" where
  "process_run W cfg evs = fold (process_step W cfg) evs (newDispatcher, [])"

lemma discovery_loop_run:
  "discovery_loop (map Turn lookups) (newDispatcher, []) = process_run W cfg (map Resolved lookups)"
proof -
  have "discovery_loop (map Turn lookups) st = fold (process_step W cfg) (map Resolved lookups) st" for st
    by (induction lookups arbitrary: st) simp_all
  then show ?thesis by (simp add: process_run_def)
qed

text \<open>\<^verbatim>\<open>main\<close>'s end: the error of \<^verbatim>\<open>g.Wait()\<close>, and whether \<^verbatim>\<open>ctx\<close> has ended by then;
  the exit status.\<close>

definition main_exit :: "'e option \<Rightarrow> bool \<Rightarrow> nat" where
  "main_exit err ctxEnded = (if err \<noteq> None \<and> \<not> ctxEnded then 1 else 0)"

text \<open>\<^verbatim>\<open>ctx\<close> is the group's own context, which the group cancels when \<^verbatim>\<open>Wait\<close> returns or
  before (documented): whatever made the servers stop, the process reports success.\<close>

theorem server_error_exits_zero:
  fixes wait :: "'e option list \<Rightarrow> 'e option \<times> bool"
  assumes "\<And>results. snd (wait results)"
  shows "main_exit (fst (wait results)) (snd (wait results)) = 0"
  using assms by (simp add: main_exit_def)

section \<open>Who is trusted as FreeSWITCH\<close>

text \<open>The addresses the name had when it last resolved; an RPC with the token that names a target.\<close>

definition last_resolved :: "'j process_event list \<Rightarrow> string set" where
  "last_resolved evs = fold (\<lambda>ev A. case ev of Resolved (Some addrs) \<Rightarrow> set addrs | _ \<Rightarrow> A) evs {}"

definition orders :: "'j web \<Rightarrow> config \<Rightarrow> string \<Rightarrow> string \<Rightarrow> 'j conn \<Rightarrow> bool" where
  "orders W cfg meth uri cn \<longleftrightarrow> (\<exists>req buffered r. cn_parsed cn = Some (req, buffered) \<and> wb_route W req = Some ''/rpc''
     \<and> RPCAPIToken cfg \<noteq> [] \<and> header_get req ''X-Api-Token'' = RPCAPIToken cfg
     \<and> cn_body cn = Some r \<and> rpc_Method r = meth \<and> 2 \<le> length (rpc_Params r) \<and> wb_fmt_v W (rpc_Params r ! 1) = uri)"

definition ordered :: "'j web \<Rightarrow> config \<Rightarrow> string \<Rightarrow> string \<Rightarrow> 'j process_event list \<Rightarrow> bool" where
  "ordered W cfg meth uri evs \<longleftrightarrow> (\<exists>cn. Connected cn \<in> set evs \<and> orders W cfg meth uri cn)"

lemma httpMux_targets:
  assumes "cn_parsed cn = Some (req, buffered)"
  shows "snd (httpMux W cfg (cn_body cn) d req w) \<in>
     {d} \<union> {AddTarget u d | u. orders W cfg ''dispatcher.add'' u cn} \<union> {RemoveTarget u d | u. orders W cfg ''dispatcher.remove'' u cn}"
proof (cases "wb_route W req = Some ''/rpc''")
  case True
  then show ?thesis using assms
    by (auto simp: httpMux_def orders_def handleRPC_def case_prod_unfold split: option.splits)
next
  case False
  then show ?thesis by (simp add: httpMux_def)
qed

lemma serve_conn_targets:
  "snd (serve_conn W cfg cn d) \<in>
     {d} \<union> {AddTarget u d | u. orders W cfg ''dispatcher.add'' u cn} \<union> {RemoveTarget u d | u. orders W cfg ''dispatcher.remove'' u cn}"
proof (cases "cn_parsed cn")
  case None
  then show ?thesis by (auto simp: serve_conn_def Let_def split: tcp_outcome.split)
next
  case (Some pr)
  obtain req buffered where "pr = (req, buffered)" by (cases pr)
  with Some httpMux_targets [of cn req buffered W cfg d newResponseWriter] show ?thesis
    by (auto simp: serve_conn_def Let_def split: tcp_outcome.split)
qed

lemma process_snoc [simp]:
  "process_run W cfg (evs @ [ev]) = process_step W cfg ev (process_run W cfg evs)"
  "last_resolved (evs @ [ev]) = (case ev of Resolved (Some addrs) \<Rightarrow> set addrs | _ \<Rightarrow> last_resolved evs)"
  "ordered W cfg meth uri (evs @ [ev]) \<longleftrightarrow>
     ordered W cfg meth uri evs \<or> (\<exists>cn. ev = Connected cn \<and> orders W cfg meth uri cn)"
  by (auto simp: process_run_def last_resolved_def ordered_def split: process_event.split option.split)

definition process_ok :: "'j web \<Rightarrow> config \<Rightarrow> 'j process_event list \<Rightarrow> bool" where
  "process_ok W cfg evs \<longleftrightarrow> (case process_run W cfg evs of (d, known) \<Rightarrow>
     distinct (dp_targets d) \<and> known_ok known \<and> known_set known = fs_uri ` last_resolved evs
     \<and> set (dp_targets d) \<subseteq> fs_uri ` last_resolved evs \<union> {u. ordered W cfg ''dispatcher.add'' u evs}
     \<and> fs_uri ` last_resolved evs \<subseteq> set (dp_targets d) \<union> {u. ordered W cfg ''dispatcher.remove'' u evs})"

lemma process_ok: "process_ok W cfg evs"
proof (induction evs rule: rev_induct)
  case Nil
  then show ?case
    by (simp add: process_ok_def process_run_def newDispatcher_def known_ok_def known_set_def last_resolved_def)
next
  case (snoc ev evs)
  obtain d known where st: "process_run W cfg evs = (d, known)" by fastforce
  note ok = snoc [unfolded process_ok_def st prod.case]
  show ?case
  proof (cases ev)
    case (Resolved lookup)
    with ok discovery_run [of d known lookup] show ?thesis
      by (cases "discover lookup (d, known)") (auto simp: process_ok_def st split: option.splits)
  next
    case (Connected cn)
    from serve_conn_targets [of W cfg cn d] consider "snd (serve_conn W cfg cn d) = d"
      | u where "snd (serve_conn W cfg cn d) = AddTarget u d" "orders W cfg ''dispatcher.add'' u cn"
      | u where "snd (serve_conn W cfg cn d) = RemoveTarget u d" "orders W cfg ''dispatcher.remove'' u cn" by blast
    then show ?thesis using ok disp.add_targets [of d] disp.remove_targets [of d]
      by cases (auto simp: process_ok_def st Connected)
  next
    case CallRouted
    with ok show ?thesis by (simp add: process_ok_def st disp.select_targets)
  qed
qed

text \<open>
  Property (C9). Trust in FreeSWITCH cannot be gained from outside: however discovery, HTTP connections and
  calls interleave, a source counts as FreeSWITCH only if its address is among those the name
  last resolved to or an RPC with the configured token added it; and an address the name last
  resolved to counts as FreeSWITCH unless an RPC with the token removed it.
\<close>

theorem only_vetted_peers_are_trusted:
  fixes W :: "'j web" and cfg :: config and evs :: "'j process_event list"
  defines "d \<equiv> fst (process_run W cfg evs)"
  shows "(IsFromFS d ip \<longrightarrow> ip \<in> last_resolved evs \<or> ordered W cfg ''dispatcher.add'' (fs_uri ip) evs)
    \<and> (ip \<in> last_resolved evs \<longrightarrow> IsFromFS d ip \<or> ordered W cfg ''dispatcher.remove'' (fs_uri ip) evs)"
proof -
  have "IsFromFS d ip \<longleftrightarrow> fs_uri ip \<in> set (dp_targets d)" by (auto simp: IsFromFS_def list_ex_iff)
  with process_ok [of W cfg evs] show ?thesis
    by (auto simp: process_ok_def d_def case_prod_unfold image_iff)
qed

section \<open>Witnesses\<close>

definition demo_web :: "string web" where
  "demo_web = \<lparr>wb_route = (\<lambda>req. if hr_RequestURI req = ''/rpc'' then Some ''/rpc'' else None), wb_other = (\<lambda>req w. w),
     wb_encode = (\<lambda>v. ''{}''), wb_fmt_v = id, wb_status_text = (\<lambda>code. ''OK'')\<rparr>"

definition demo_settings :: config where
  "demo_settings = loadConfig (\<lambda>name. if name = ''RPC_API_TOKEN'' then ''s3cret'' else [])"

definition demo_rpc :: "string \<Rightarrow> string \<Rightarrow> string conn" where
  "demo_rpc token uri = \<lparr>cn_peek = Some ''POST'',
     cn_parsed = Some (\<lparr>hr_Method = ''POST'', hr_RequestURI = ''/rpc'', hr_Proto = ''HTTP/1.1'', hr_Host = ''sbc'',
       hr_Header = [(''X-Api-Token'', [token])]\<rparr>, []),
     cn_body = Some \<lparr>rpc_JSONRPC = ''2.0'', rpc_Method = ''dispatcher.add'', rpc_Params = [''1'', uri], rpc_ID = ''7''\<rparr>,
     cn_rest = []\<rparr>"

lemma only_vetted_witness:
  "(let evs = [Resolved (Some [''10.0.0.1'']), Connected (demo_rpc ''guess'' (fs_uri ''10.0.0.9'')), CallRouted];
        d = fst (process_run demo_web demo_settings evs)
    in \<not> IsFromFS d ''10.0.0.9'' \<and> IsFromFS d ''10.0.0.1'')"
proof -
  let ?evs = "[Resolved (Some [''10.0.0.1'']), Connected (demo_rpc ''guess'' (fs_uri ''10.0.0.9'')), CallRouted]"
  have "RPCAPIToken demo_settings = ''s3cret''" by code_simp
  then have "\<not> ordered demo_web demo_settings meth u ?evs" for meth u
    by (auto simp: ordered_def orders_def demo_rpc_def header_get_def)
  moreover have "last_resolved ?evs = {''10.0.0.1''}" by (simp add: last_resolved_def)
  ultimately show ?thesis
    using only_vetted_peers_are_trusted [of demo_web demo_settings ?evs "''10.0.0.9''"]
      only_vetted_peers_are_trusted [of demo_web demo_settings ?evs "''10.0.0.1''"] by (simp add: Let_def)
qed

end
