(* ===== verification/Cert_Reloader.thy ===== *)
theory Cert_Reloader
  imports Go_Strings
begin

text \<open>
  The TLS certificate of the WSS listener (\<^verbatim>\<open>sbc/cert_reloader.go\<close>). What is in the two
  files at one moment is a function from the paths to the certificate they hold
  (\<^verbatim>\<open>tls.LoadX509KeyPair\<close>, \<open>None\<close> its error); certificates are of any type \<open>'c\<close>. Times
  are in nanoseconds.
\<close>

section \<open>State and operations\<close>

type_synonym 'c files = "string \<Rightarrow> string \<Rightarrow> 'c option"

record 'c certReloader =
  cr_certPath :: string
  cr_keyPath :: string
  cr_refreshEvery :: int
  cr_cert :: "'c option"
  cr_refreshedAt :: int

text \<open>\<^verbatim>\<open>refresh\<close>: whether it succeeded, and the state; \<open>now\<close> is read after the files.\<close>

definition refresh :: "'c files \<Rightarrow> int \<Rightarrow> 'c certReloader \<Rightarrow> bool \<times> 'c certReloader" where
  "refresh files now r =
     (case files (cr_certPath r) (cr_keyPath r) of
        None \<Rightarrow> (False, r)
      | Some c \<Rightarrow> (True, r\<lparr>cr_cert := Some c, cr_refreshedAt := now\<rparr>))"

definition newCertReloader :: "'c files \<Rightarrow> int \<Rightarrow> string \<Rightarrow> string \<Rightarrow> 'c certReloader option" where
  "newCertReloader files now certPath keyPath =
     (case refresh files now \<lparr>cr_certPath = certPath, cr_keyPath = keyPath, cr_refreshEvery = 5 * 60 * 1000000000,
             cr_cert = None, cr_refreshedAt = 0\<rparr> of
        (ok, r) \<Rightarrow> if ok then Some r else None)"

text \<open>\<^verbatim>\<open>waitForCertReloader\<close>: what it meets, an attempt every 30 seconds or the end of the
  program; \<open>None\<close> as long as it waits.\<close>

datatype 'c attempt = Attempt "'c files" int | ProgramEnds

fun waitForCertReloader :: "string \<Rightarrow> string \<Rightarrow> 'c attempt list \<Rightarrow> 'c certReloader option option" where
  "waitForCertReloader certPath keyPath [] = None"
| "waitForCertReloader certPath keyPath (Attempt files now # xs) =
     (case newCertReloader files now certPath keyPath of
        Some r \<Rightarrow> Some (Some r) | None \<Rightarrow> waitForCertReloader certPath keyPath xs)"
| "waitForCertReloader certPath keyPath (ProgramEnds # xs) = Some None"

text \<open>\<^verbatim>\<open>Get\<close>, called at \<open>now\<close>; a reload finds \<open>files\<close> and is over at \<open>later\<close>.\<close>

definition Get :: "'c files \<Rightarrow> int \<Rightarrow> int \<Rightarrow> 'c certReloader \<Rightarrow> 'c option \<times> 'c certReloader" where
  "Get files now later r =
     (if \<not> now - cr_refreshedAt r > cr_refreshEvery r then (cr_cert r, r)
      else case refresh files later r of
             (False, r') \<Rightarrow> (cr_cert r, r')
           | (True, r') \<Rightarrow> (cr_cert r', r'))"

section \<open>Handshakes\<close>

text \<open>A handshake: when it starts, when the files are read if they are, when that is over.\<close>

type_synonym handshake = "int \<times> int \<times> int"

text \<open>\<open>F\<close> is what the files hold over time.\<close>

fun after_handshakes :: "(int \<Rightarrow> 'c files) \<Rightarrow> handshake list \<Rightarrow> 'c certReloader \<Rightarrow> 'c certReloader" where
  "after_handshakes F [] r = r"
| "after_handshakes F ((now, load, later) # hs) r = after_handshakes F hs (snd (Get (F load) now later r))"

definition in_time :: "int \<Rightarrow> handshake \<Rightarrow> bool" where
  "in_time d h \<longleftrightarrow> (case h of (now, load, later) \<Rightarrow> now \<le> load \<and> load \<le> later \<and> later \<le> load + d)"

lemma Get_same [simp]:
  "cr_certPath (snd (Get files now later r)) = cr_certPath r" "cr_keyPath (snd (Get files now later r)) = cr_keyPath r"
  "cr_refreshEvery (snd (Get files now later r)) = cr_refreshEvery r"
  by (simp_all add: Get_def refresh_def split: option.split)

text \<open>Once the renewed certificate is in the files, what is loaded long enough after is it.\<close>

definition caught_up :: "'c \<Rightarrow> int \<Rightarrow> 'c certReloader \<Rightarrow> bool" where
  "caught_up c limit r \<longleftrightarrow> cr_refreshedAt r < limit \<or> cr_cert r = Some c"

lemma caught_up_Get:
  assumes "caught_up c (T + d) r" "in_time d (now, load, later)"
    and "\<And>t. T \<le> t \<Longrightarrow> F t (cr_certPath r) (cr_keyPath r) = Some c"
  shows "caught_up c (T + d) (snd (Get (F load) now later r))"
proof (cases "T \<le> load")
  case True
  with assms(1,3) show ?thesis by (auto simp: caught_up_def Get_def refresh_def)
next
  case False
  with assms(2) have "later < T + d" by (simp add: in_time_def)
  with assms(1) show ?thesis by (auto simp: caught_up_def Get_def refresh_def split: option.split)
qed

lemma caught_up_after:
  assumes "\<And>t. T \<le> t \<Longrightarrow> F t (cr_certPath r) (cr_keyPath r) = Some c"
  shows "caught_up c (T + d) r \<Longrightarrow> list_all (in_time d) hs \<Longrightarrow> caught_up c (T + d) (after_handshakes F hs r)
    \<and> cr_certPath (after_handshakes F hs r) = cr_certPath r \<and> cr_keyPath (after_handshakes F hs r) = cr_keyPath r
    \<and> cr_refreshEvery (after_handshakes F hs r) = cr_refreshEvery r"
  using assms
proof (induction F hs r rule: after_handshakes.induct)
  case (2 F now load later hs r)
  let ?r = "snd (Get (F load) now later r)"
  have "caught_up c (T + d) ?r" using 2 by (intro caught_up_Get) simp_all
  with 2 show ?case by simp
qed simp

text \<open>
  Property (C39). A renewed certificate is picked up without a restart: when the files hold the certificate c
  from the time T on, and no reload takes longer than d, every handshake that starts more than
  five minutes after T + d is given c, whatever handshakes and failed reloads came before.
\<close>

theorem renewed_certificate_is_served:
  fixes F :: "int \<Rightarrow> 'c files"
  assumes start: "newCertReloader (F t0) t1 certPath keyPath = Some r" "t0 \<le> t1" "t1 \<le> t0 + d"
    and renewed: "\<And>t. T \<le> t \<Longrightarrow> F t certPath keyPath = Some c"
    and before: "list_all (in_time d) hs"
    and now: "in_time d (now, load, later)" "T + d + 5 * 60 * 1000000000 < now"
  shows "fst (Get (F load) now later (after_handshakes F hs r)) = Some c"
proof -
  obtain c0 where c0: "F t0 certPath keyPath = Some c0" and r: "r = \<lparr>cr_certPath = certPath, cr_keyPath = keyPath,
      cr_refreshEvery = 300000000000, cr_cert = Some c0, cr_refreshedAt = t1\<rparr>"
    using start(1) by (auto simp: newCertReloader_def refresh_def split: option.splits)
  have "caught_up c (T + d) r"
    using renewed [of t0] c0 start(2,3) by (cases "T \<le> t0") (simp_all add: caught_up_def r)
  from caught_up_after [OF _ this before, of F] renewed
  have after: "caught_up c (T + d) (after_handshakes F hs r)" "cr_certPath (after_handshakes F hs r) = certPath"
    "cr_keyPath (after_handshakes F hs r) = keyPath" "cr_refreshEvery (after_handshakes F hs r) = 300000000000"
    by (auto simp: r)
  have "0 \<le> d" "now \<le> load" using now(1) by (auto simp: in_time_def)
  then have "F load certPath keyPath = Some c" using now(2) by (intro renewed) simp
  with after now(2) show ?thesis by (auto simp: Get_def refresh_def caught_up_def)
qed

text \<open>A reload that fails changes nothing: the previous certificate is served.\<close>

lemma failed_reload_keeps_serving:
  "files (cr_certPath r) (cr_keyPath r) = None \<Longrightarrow> Get files now later r = (cr_cert r, r)"
  by (simp add: Get_def refresh_def)

text \<open>The listener starts with the first attempt that finds a certificate.\<close>

lemma waits_for_the_first_certificate:
  "list_all (\<lambda>(files, now). files certPath keyPath = None) xs \<Longrightarrow> files certPath keyPath = Some c \<Longrightarrow>
     \<exists>r. waitForCertReloader certPath keyPath (map (\<lambda>(files, now). Attempt files now) xs @ [Attempt files now]) = Some (Some r)
       \<and> cr_cert r = Some c"
  by (induction xs) (auto simp: newCertReloader_def refresh_def)

lemma renewed_certificate_witness:
  "fst (Get (\<lambda>_ _. Some ''new'') 400000000000 400000000002
      (after_handshakes (\<lambda>t _ _. if t < 5 then Some ''old'' else Some ''new'') [(3, 4, 6)]
        (the (newCertReloader (\<lambda>_ _. Some ''old'') 2 ''c'' ''k'')))) = Some ''new''"
proof -
  let ?F = "\<lambda>t _ _. if t < (5::int) then Some ''old'' else Some ''new''"
  have "newCertReloader (?F 1) 2 ''c'' ''k'' = Some (the (newCertReloader (\<lambda>_ _. Some ''old'') 2 ''c'' ''k''))"
    by (simp add: newCertReloader_def refresh_def)
  from renewed_certificate_is_served [where F = ?F and ?t0.0 = 1, OF this, of 2 5 "''new''" "[(3, 4, 6)]" 400000000000 400000000001 400000000002]
  show ?thesis by (simp add: in_time_def)
qed

end
