(* ===== verification/Spec2Isabelle.thy ===== *)
theory Spec2Isabelle
  imports Sbc_Machine Sbc_Process Cert_Reloader
begin

text \<open>
  Verification library of the session border controller in \<^verbatim>\<open>src/sbc\<close> (Go). The
  controller stands between SIP devices and trunks on a public side and FreeSWITCH servers on
  a private side: devices register with it, it authenticates what comes from outside, routes
  calls in both directions, relays requests inside calls, bans sources that fail too often,
  and asks an internal HTTP API for passwords and trunks.

  \<^bold>\<open>The theories and what they model.\<close>
  The library of the language: \<open>SBC_Prelude\<close> (Go maps with the contract \<open>keyed_store\<close>,
  instants, 64-bit wrap-around), \<open>Go_Strings\<close>, \<open>Go_Strconv\<close>, \<open>Go_Net\<close>, \<open>Go_Md5\<close> (the functions of
  \<^verbatim>\<open>strings\<close>, \<^verbatim>\<open>strconv\<close>, \<^verbatim>\<open>net\<close> and
  \<^verbatim>\<open>crypto/md5\<close> the program calls).

  The parts of the program, each with its state as a record and one definition per operation,
  named as in the code:
  \<^item> \<open>Config\<close>: \<^verbatim>\<open>config.go\<close>, the settings read from the environment.
  \<^item> \<open>Sip_Message\<close>: messages as the program sees them, and the interface of the SIP library
    sipgo, a record of functions that every definition using them takes as an argument.
  \<^item> \<open>Sip_Address\<close>: the helpers of \<^verbatim>\<open>proxy.go\<close> on contacts, hosts, ports and
    lifetimes.
  \<^item> \<open>Registrar\<close>: \<^verbatim>\<open>registrar.go\<close> and the keepalive's operations
    (\<^verbatim>\<open>nat_keepalive.go\<close>) on it; a map from addresses of record to contacts.
  \<^item> \<open>Dispatcher\<close>: \<^verbatim>\<open>dispatcher.go\<close> and the discovery loop of \<^verbatim>\<open>main.go\<close>;
    the list of FreeSWITCH targets and a 64-bit round-robin counter.
  \<^item> \<open>Ttl_Store\<close>, \<open>Ip_Ban\<close>: \<^verbatim>\<open>ip_ban.go\<close>; failures and bans per source, rejected calls.
  \<^item> \<open>Internal_Api\<close>: \<^verbatim>\<open>api.go\<close>; the requests, the caches, the networks of trunks.
  \<^item> \<open>Digest_Auth\<close>: \<^verbatim>\<open>auth.go\<close>.
  \<^item> \<open>Message_Guard\<close>: \<^verbatim>\<open>crlf_validation.go\<close>, \<^verbatim>\<open>symmetric_responses.go\<close> and the
    wrappers around every handler.
  \<^item> \<open>Forwarding\<close>: building the requests and responses that are passed on.
  \<^item> \<open>Proxy_State\<close>: \<^verbatim>\<open>type Proxy\<close>, the atomic effects handlers have on it, and the
    stickiness of users to FreeSWITCH servers.
  \<^item> \<open>Proxy_Register\<close>: \<^verbatim>\<open>handleRegister\<close>, the authentication of requests, the ping.
  \<^item> \<open>Proxy_Invite\<close>: \<^verbatim>\<open>handleInviteToFS\<close>, \<^verbatim>\<open>handleInviteFromFSToTrunk\<close>,
    \<^verbatim>\<open>cancelOutgoing\<close>.
  \<^item> \<open>Proxy_Fork\<close>: \<^verbatim>\<open>handleInviteFromFSToUser\<close>, a call offered to all devices of a
    user.
  \<^item> \<open>Proxy_Dialog\<close>: \<^verbatim>\<open>relayInDialog\<close>, \<^verbatim>\<open>handleAck\<close>, \<^verbatim>\<open>handleCancel\<close>,
    \<^verbatim>\<open>handleOptions\<close>, \<^verbatim>\<open>handleInvite\<close>.
  \<^item> \<open>Handler_Rules\<close>, \<open>Sbc_Machine\<close>: the whole proxy; requests of both servers
    (\<^verbatim>\<open>main.go\<close>) dispatched to the handlers behind their wrappers, interleaved with
    each other and with the background tasks.
  \<^item> \<open>Front_End\<close>: the HTTP and WebSocket front end (\<^verbatim>\<open>main.go\<close>,
    \<^verbatim>\<open>pipe_listener.go\<close>).
  \<^item> \<open>Sbc_Process\<close>: \<^verbatim>\<open>main\<close> and \<^verbatim>\<open>startMuxListener\<close>; the listeners, the
    HTTP routing composed with the RPC, the discovery loop over time, the exit status.
  \<^item> \<open>Cert_Reloader\<close>: \<^verbatim>\<open>cert_reloader.go\<close>.

  \<^bold>\<open>How the code is rendered.\<close>
  A handler is a function from the state it reads to the list of its actions, in order: a
  response given to its transaction, an effect (a change of the shared state, a message sent,
  a goroutine started), or a nil dereference (\<open>Panic\<close>), after which nothing follows. The
  effects are the code's critical sections. A handler that waits for its far end takes the list
  of what it meets (\<open>tx_event\<close>: a response, a closed channel, the transaction done, the result
  of the digest retry), so a theorem about every list is one about every behaviour and order.
  A fork is a machine (\<open>fork_step\<close>): the goroutines of its branches, the bounded channel, the
  handler's loop, and the caller's CANCEL take steps in any order. The machine of the whole
  (\<open>sbc_step\<close>) starts a job for a request that arrives, performs the actions of all jobs one
  at a time in any order, and runs the background tasks (\<open>tick\<close>) in between; a job whose
  handler asks the server before it selects a FreeSWITCH server or looks for a call to cancel
  has two segments, and the second reads the state of the moment it starts. Loops over lists
  are structural recursion; nothing uses fuel.

  Times are in nanoseconds, integers; a duration computed from a lifetime wraps around at 64
  bits as in the code. CSeq numbers are \<open>32 word\<close>, the dispatcher's counter is \<open>64 word\<close>;
  Go's \<^verbatim>\<open>int\<close> is \<open>int\<close> where no arithmetic can leave its range. Strings are byte
  strings. Arguments of the definitions stand for what is not in the repository: sipgo (record
  \<open>sipgo\<close>, whose documented laws are \<open>sipgo_ok\<close> and, for the line breaks in the responses it
  makes, \<open>adds_no_breaks\<close>; both hold of \<open>sipgo_model\<close>), the HTTP
  exchange and JSON decoding of the internal API, name resolution, random bytes, the clock,
  the HTTP request parser, and the contents of the certificate files.

  \<^bold>\<open>What is shown.\<close>
  \<^item> The machine: contacts come only from authenticated REGISTERs; the ACK to a 2xx finds
    its call; requests with the headers RFC 3261 demands never make a handler dereference nil;
    reachable states are well formed; only public sources are banned.
  \<^item> The process: a source is trusted as FreeSWITCH only if the name resolves to it or an RPC
    with the token added it, whatever connections arrive.
  \<^item> Calls: a 2xx never overtakes the recording of its call; a fork answers its caller exactly
    once, with the answer its branches' results prescribe, and does so once every branch has
    reported; what is not answered leaves nothing behind; a BYE ends exactly its call; requests
    inside a call are vetted, answered once, and numbered as the trunk expects.
  \<^item> What the code does not achieve: a CANCEL is lost while a digest retry is out, a branch
    that vanishes blocks its fork, a branch sent late is not cancelled, the own Route hop is
    not recognised with other ports, huge lifetimes are granted and expire at once, bytes behind
    a WebSocket upgrade are lost, a failed listener ends the process with status 0, the 400
    to a request with line breaks is not checked, a comma in a quoted digest parameter cuts it.
    Each is a theorem about the model of the code as it is.
  \<^item> Registration and authentication: who may register, for how long, what counts as a
    failure and of whom; the digest is RFC 2617's whatever the order and quoting of the
    parameters; a challenge can be answered with and without quality of protection; passwords
    and trunk networks come from the server.
  \<^item> The stores: the registrar and the stickiness refine abstract maps (\<open>contact_store\<close>,
    \<open>call_pins\<close>); the dispatcher is a fair pool (\<open>target_pool\<close>); caches and rejected calls
    keep what they were given for exactly their time (\<open>ttl_store\<close>, \<open>lookup_cache\<close>); bans
    follow the failures within the window and double up to a day.
  \<^item> Messages: forwarding preserves a request and ends; relayed responses are the far end's;
    no request with CR or LF in a header reaches a handler, and no response with one leaves for
    a request that passed the check.
  \<^item> Front end: upgrades and HTTP answers are framed rightly; a renewed certificate is served.

  \<^bold>\<open>Not modelled.\<close> Creating the sipgo servers and clients, opening sockets and catching
  signals (I/O over libraries); what log lines say, except the level
  rules and the headers they dereference; \<^verbatim>\<open>isWebRTCSDPBody\<close>, which nothing calls;
  two TLS handshakes that reload at the same moment (each reload is one step); reads of the
  shared state by a handler other than at its two moments are taken as one.

  \<^bold>\<open>Steps coarser than the code's.\<close> A lookup of the internal API (\<open>GetUserPassword\<close>,
  \<open>GetSIPTrunk\<close>: read the cache, delete an expired entry, ask the server, store) is one step,
  so that two lookups of the same key do not overlap; in the code one of them may then delete or
  overwrite what the other has just stored. A branch of a fork sends its INVITE and enters itself
  into the list in one step (\<open>fork_step\<close>); in the code a cancellation that comes in between
  skips the branch, as it skips one whose INVITE is not out yet. The fork's handler answers the
  caller and cancels the other branches in one step (\<open>take_answer\<close>).

  Outside \<^verbatim>\<open>src/sbc\<close> the server is written in Elixir and the front ends in Svelte
  and TypeScript; none of it is modelled.
\<close>

end
